(* ===== verification/Mergepay_Prelude.thy ===== *)
theory Mergepay_Prelude
  imports Complex_Main "HOL-Library.AList" "HOL-Library.Multiset" "HOL-Library.Sublist"
    "HOL-Library.Code_Target_Nat"
begin

text \<open>
  Shared vocabulary of the Mergepay development: results of fallible code, the
  JavaScript string operations the sources use, decimal digits, the ordered
  \<^verbatim>\<open>Map\<close>, conditional row updates as Prisma's \<^verbatim>\<open>updateMany\<close> performs them, and the
  generic lemmas the component theories rely on.

  A JavaScript string is modelled as a \<^typ>\<open>string\<close>, one \<^typ>\<open>char\<close> per UTF-16 code
  unit, so the model covers strings whose code units are below 256. An exception is a
  value of \<open>exn\<close>; a function that may throw returns \<open>exn + 'a\<close>, with \<open>Inl\<close> the
  exception thrown.
\<close>

section \<open>Collections of rewrite rules\<close>

named_theorems res_simps \<open>laws of the result operations\<close>
named_theorems str_simps \<open>laws of the string operations\<close>
named_theorems table_simps \<open>laws of the row operations\<close>

section \<open>Exceptions and results\<close>

datatype exn =
    AppError nat string        \<comment> \<open>HTTP status and machine-readable code\<close>
  | EngineError string         \<comment> \<open>\<^verbatim>\<open>SettlementEngineError\<close>, by its code\<close>
  | CalcError string           \<comment> \<open>\<^verbatim>\<open>ExpenseCalculationError\<close>, by its code\<close>
  | RefreshError string        \<comment> \<open>\<^verbatim>\<open>RefreshTokenError\<close>, by its reason\<close>
  | PlainError string          \<comment> \<open>\<^verbatim>\<open>Error\<close>, by its message\<close>
  | RangeError                 \<comment> \<open>thrown by \<^verbatim>\<open>BigInt(number)\<close>\<close>
  | SyntaxError                \<comment> \<open>thrown by \<^verbatim>\<open>BigInt(string)\<close>\<close>

type_synonym 'a res = "exn + 'a"

text \<open>A caught value as the classifiers inspect it: an \<^verbatim>\<open>AppError\<close> with its status, code and
  message, another \<^verbatim>\<open>Error\<close> with its name and message, or a thrown string.\<close>

datatype thrown = App_error nat string string | Js_error string string | Thrown_value string

definition thrown_message :: "thrown \<Rightarrow> string" where
  "thrown_message e = (case e of App_error _ _ m \<Rightarrow> m | Js_error _ m \<Rightarrow> m | Thrown_value s \<Rightarrow> s)"

definition res_bind :: "'e + 'a \<Rightarrow> ('a \<Rightarrow> 'e + 'b) \<Rightarrow> 'e + 'b" where
  "res_bind r f = (case r of Inl e \<Rightarrow> Inl e | Inr a \<Rightarrow> f a)"

lemma res_bind_Inl [simp, res_simps]: "res_bind (Inl e) f = Inl e"
  by (simp add: res_bind_def)

lemma res_bind_Inr [simp, res_simps]: "res_bind (Inr a) f = f a"
  by (simp add: res_bind_def)

lemma res_bind_eq_Inr [res_simps]:
  "res_bind r f = Inr b \<longleftrightarrow> (\<exists>a. r = Inr a \<and> f a = Inr b)"
  by (cases r) auto

lemma res_bind_eq_Inl [res_simps]:
  "res_bind r f = Inl e \<longleftrightarrow> r = Inl e \<or> (\<exists>a. r = Inr a \<and> f a = Inl e)"
  by (cases r) auto

lemma res_bind_assoc: "res_bind (res_bind r f) g = res_bind r (\<lambda>a. res_bind (f a) g)"
  by (cases r) auto

text \<open>\<^verbatim>\<open>xs.map(f)\<close> for a callback that may throw: the first exception ends it.\<close>

fun map_res :: "('a \<Rightarrow> 'e + 'b) \<Rightarrow> 'a list \<Rightarrow> 'e + 'b list" where
  "map_res f [] = Inr []"
| "map_res f (x # xs) = res_bind (f x) (\<lambda>y. res_bind (map_res f xs) (\<lambda>ys. Inr (y # ys)))"

lemma map_res_Inr_iff:
  "map_res f xs = Inr ys \<longleftrightarrow> list_all2 (\<lambda>x y. f x = Inr y) xs ys"
proof (induction xs arbitrary: ys)
  case (Cons x xs)
  then show ?case by (cases ys) (auto simp: res_simps)
qed auto

lemma map_res_length: "map_res f xs = Inr ys \<Longrightarrow> length ys = length xs"
  by (auto simp: map_res_Inr_iff dest: list_all2_lengthD)

lemma map_res_nth: "map_res f xs = Inr ys \<Longrightarrow> i < length xs \<Longrightarrow> f (xs ! i) = Inr (ys ! i)"
  by (auto simp: map_res_Inr_iff dest: list_all2_nthD)

lemma map_res_total: "(\<And>x. x \<in> set xs \<Longrightarrow> f x = Inr (g x)) \<Longrightarrow> map_res f xs = Inr (map g xs)"
  by (induction xs) auto

lemma list_all2_eq_map: "list_all2 (\<lambda>r x. f x = g r) rs xs \<longleftrightarrow> map f xs = map g rs"
  by (induction rs arbitrary: xs) (auto simp: list_all2_Cons1)

text \<open>Folding a statement that may throw over a list, as \<^verbatim>\<open>for (const x of xs)\<close> does.\<close>

fun fold_res :: "('a \<Rightarrow> 's \<Rightarrow> 'e + 's) \<Rightarrow> 'a list \<Rightarrow> 's \<Rightarrow> 'e + 's" where
  "fold_res f [] s = Inr s"
| "fold_res f (x # xs) s = res_bind (f x s) (fold_res f xs)"

lemma fold_res_append:
  "fold_res f (xs @ ys) s = res_bind (fold_res f xs s) (fold_res f ys)"
  by (induction xs arbitrary: s) (auto simp: res_bind_def split: sum.splits)

lemma fold_res_invariant:
  assumes "fold_res f xs s = Inr t" and "P s"
    and "\<And>x s s'. x \<in> set xs \<Longrightarrow> P s \<Longrightarrow> f x s = Inr s' \<Longrightarrow> P s'"
  shows "P t"
  using assms
proof (induction xs arbitrary: s)
  case (Cons x xs)
  from Cons.prems(1) obtain s' where s': "f x s = Inr s'" "fold_res f xs s' = Inr t"
    by (auto simp: res_simps)
  moreover have "P s'" by (rule Cons.prems(3) [OF _ Cons.prems(2) s'(1)]) simp
  ultimately show ?case using Cons.IH Cons.prems(3) by (metis list.set_intros(2))
qed simp

section \<open>JavaScript numbers\<close>

text \<open>
  A number is an IEEE 754 double. Its finite values are rationals; an arithmetic operation
  is the exact operation followed by \<open>double_of\<close>, rounding to the nearest double with ties
  to even. The sign of zero is not modelled: no code here observes it.
\<close>

datatype js_number = Fin rat | NaN | PosInf | NegInf

function bit_count :: "int \<Rightarrow> int" where
  "bit_count n = (if n \<le> 0 then 0 else 1 + bit_count (n div 2))"
  by pat_completeness auto
termination
  by (relation "measure nat") auto

declare bit_count.simps [simp del]

definition pow2 :: "int \<Rightarrow> rat" where
  "pow2 e = (if 0 \<le> e then of_int (2 ^ nat e) else 1 / of_int (2 ^ nat (- e)))"

text \<open>The exponent of a positive rational: \<open>pow2 (rat_log2 a) \<le> a < pow2 (rat_log2 a + 1)\<close>.\<close>

definition rat_log2 :: "rat \<Rightarrow> int" where
  "rat_log2 a =
     (let (n, d) = quotient_of a; k = bit_count n - bit_count d
      in if pow2 k \<le> a then k else k - 1)"

definition round_half_even :: "rat \<Rightarrow> int" where
  "round_half_even a =
     (let f = \<lfloor>a\<rfloor>; d = a - of_int f in
      if d < 1 / 2 then f else if 1 / 2 < d then f + 1 else if even f then f else f + 1)"

definition double_of :: "rat \<Rightarrow> js_number" where
  "double_of q =
     (if q = 0 then Fin 0
      else let a = \<bar>q\<bar>; e = max (rat_log2 a) (- 1022); ulp = pow2 (e - 52);
               r = of_int (round_half_even (a / ulp)) * ulp
           in if 1024 \<le> rat_log2 r then (if 0 < q then PosInf else NegInf)
              else Fin (if 0 < q then r else - r))"

definition js_neg :: "js_number \<Rightarrow> js_number" where
  "js_neg x = (case x of Fin q \<Rightarrow> Fin (- q) | NaN \<Rightarrow> NaN | PosInf \<Rightarrow> NegInf | NegInf \<Rightarrow> PosInf)"

fun js_add :: "js_number \<Rightarrow> js_number \<Rightarrow> js_number" where
  "js_add (Fin p) (Fin q) = double_of (p + q)"
| "js_add NaN _ = NaN"
| "js_add _ NaN = NaN"
| "js_add PosInf NegInf = NaN"
| "js_add NegInf PosInf = NaN"
| "js_add PosInf _ = PosInf"
| "js_add _ PosInf = PosInf"
| "js_add NegInf _ = NegInf"
| "js_add _ NegInf = NegInf"

definition js_sub :: "js_number \<Rightarrow> js_number \<Rightarrow> js_number" where
  "js_sub x y = js_add x (js_neg y)"

text \<open>Multiplication by a positive finite constant.\<close>

definition js_scale :: "rat \<Rightarrow> js_number \<Rightarrow> js_number" where
  "js_scale k x = (case x of Fin q \<Rightarrow> double_of (k * q) | _ \<Rightarrow> x)"

definition js_abs :: "js_number \<Rightarrow> js_number" where
  "js_abs x = (case x of Fin q \<Rightarrow> Fin \<bar>q\<bar> | NegInf \<Rightarrow> PosInf | _ \<Rightarrow> x)"

text \<open>\<^verbatim>\<open>x > q\<close> against a finite constant: false for \<^verbatim>\<open>NaN\<close>.\<close>

definition js_gt :: "js_number \<Rightarrow> rat \<Rightarrow> bool" where
  "js_gt x q = (case x of Fin p \<Rightarrow> q < p | PosInf \<Rightarrow> True | _ \<Rightarrow> False)"

text \<open>\<^verbatim>\<open>Math.round\<close>: to the nearest integer, ties upwards.\<close>

definition js_round :: "js_number \<Rightarrow> js_number" where
  "js_round x = (case x of Fin q \<Rightarrow> Fin (of_int \<lfloor>q + 1 / 2\<rfloor>) | _ \<Rightarrow> x)"

section \<open>JavaScript strings\<close>

text \<open>\<^verbatim>\<open>WhiteSpace\<close> and \<^verbatim>\<open>LineTerminator\<close> code units below 256, as \<^verbatim>\<open>trim\<close> and \<^verbatim>\<open>\s\<close> use them.\<close>

definition is_js_space :: "char \<Rightarrow> bool" where
  "is_js_space c = (of_char c \<in> {9::nat, 10, 11, 12, 13, 32, 160})"

definition js_trim :: "string \<Rightarrow> string" where
  "js_trim s = rev (dropWhile is_js_space (rev (dropWhile is_js_space s)))"

definition is_lower_ascii :: "char \<Rightarrow> bool" where
  "is_lower_ascii c = (97 \<le> (of_char c :: nat) \<and> (of_char c :: nat) \<le> 122)"

definition is_upper_ascii :: "char \<Rightarrow> bool" where
  "is_upper_ascii c = (65 \<le> (of_char c :: nat) \<and> (of_char c :: nat) \<le> 90)"

text \<open>Case mapping of the ASCII letters; every other code unit is left alone.\<close>

definition to_upper :: "string \<Rightarrow> string" where
  "to_upper s = map (\<lambda>c. if is_lower_ascii c then char_of ((of_char c :: nat) - 32) else c) s"

definition to_lower :: "string \<Rightarrow> string" where
  "to_lower s = map (\<lambda>c. if is_upper_ascii c then char_of ((of_char c :: nat) + 32) else c) s"

lemma dropWhile_idem: "dropWhile P (dropWhile P xs) = dropWhile P xs"
  by (induction xs) auto

lemma js_trim_idem [simp]: "js_trim (js_trim s) = js_trim s"
proof -
  let ?P = is_js_space
  define a where "a = dropWhile ?P s"
  define b where "b = rev (dropWhile ?P (rev a))"
  obtain w where "rev a = w @ rev b" unfolding b_def
    using takeWhile_dropWhile_id [of ?P "rev a"] by (metis rev_rev_ident)
  then have "a = b @ rev w" by (metis rev_append rev_rev_ident)
  then have "b = [] \<or> \<not> ?P (hd b)"
    using hd_dropWhile [of ?P s] unfolding a_def [symmetric] by (cases b) auto
  then have "dropWhile ?P b = b" by (cases b) auto
  moreover have "dropWhile ?P (rev b) = rev b" by (simp add: b_def dropWhile_idem)
  moreover have "js_trim s = b" by (simp add: js_trim_def a_def b_def)
  ultimately show ?thesis by (simp add: js_trim_def)
qed

lemma lower_char: "is_upper_ascii c \<Longrightarrow>
  \<not> is_upper_ascii (char_of ((of_char c :: nat) + 32)) \<and> is_js_space (char_of ((of_char c :: nat) + 32)) = is_js_space c"
  by (auto simp: is_upper_ascii_def is_js_space_def)

lemma to_lower_idem [simp]: "to_lower (to_lower s) = to_lower s"
  using lower_char by (auto simp: to_lower_def)

lemma js_trim_to_lower: "js_trim (to_lower s) = to_lower (js_trim s)"
proof -
  have "(\<lambda>c. is_js_space (if is_upper_ascii c then char_of ((of_char c :: nat) + 32) else c)) = is_js_space"
    using lower_char by (auto simp: fun_eq_iff)
  then show ?thesis by (simp add: js_trim_def to_lower_def dropWhile_map rev_map comp_def)
qed

text \<open>\<^verbatim>\<open>haystack.includes(needle)\<close>.\<close>

definition str_includes :: "string \<Rightarrow> string \<Rightarrow> bool" where
  "str_includes hay needle = (\<exists>i \<in> set [0..<Suc (length hay)]. prefix needle (drop i hay))"

lemma str_includes_sublist: "str_includes hay needle \<longleftrightarrow> sublist needle hay"
proof
  assume "str_includes hay needle"
  then obtain i where "prefix needle (drop i hay)" by (auto simp: str_includes_def)
  then show "sublist needle hay"
    by (metis prefix_imp_sublist sublist_drop sublist_order.order_trans)
next
  assume "sublist needle hay"
  then obtain ps ss where h: "hay = ps @ needle @ ss" by (auto simp: sublist_def)
  then have "prefix needle (drop (length ps) hay)" by simp
  with h show "str_includes hay needle" by (auto simp: str_includes_def intro!: bexI[of _ "length ps"])
qed

text \<open>\<^verbatim>\<open>s.split(c)\<close> for a one-character separator.\<close>

fun split_on :: "char \<Rightarrow> string \<Rightarrow> string list" where
  "split_on c [] = [[]]"
| "split_on c (x # xs) =
     (if x = c then [] # split_on c xs
      else case split_on c xs of [] \<Rightarrow> [[x]] | w # ws \<Rightarrow> (x # w) # ws)"

lemma split_on_ne [simp]: "split_on c s \<noteq> []"
  by (induction s) (auto split: list.splits)

lemma split_on_none [str_simps]: "c \<notin> set s \<Longrightarrow> split_on c s = [s]"
  by (induction s) auto

lemma split_on_one [str_simps]:
  "c \<notin> set w \<Longrightarrow> split_on c (w @ c # s) = w # split_on c s"
  by (induction w) auto

text \<open>\<^verbatim>\<open>s.padStart(n, "0")\<close> and \<^verbatim>\<open>s.replace(/0+$/, "")\<close>.\<close>

definition pad_start0 :: "nat \<Rightarrow> string \<Rightarrow> string" where
  "pad_start0 n s = replicate (n - length s) CHR ''0'' @ s"

definition strip_trailing0 :: "string \<Rightarrow> string" where
  "strip_trailing0 s = rev (dropWhile (\<lambda>c. c = CHR ''0'') (rev s))"

end
