(* ===== verification/Decimal_Digits.thy ===== *)
theory Decimal_Digits
  imports Mergepay_Prelude
begin

text \<open>
  Decimal digit strings: the regular expression \<^verbatim>\<open>\d\<close>, the value of a digit string as
  \<^verbatim>\<open>BigInt\<close> reads it, and the digits \<^verbatim>\<open>toString\<close> prints. The lemmas give the two round
  trips (print then read, and read then print on strings without superfluous zeros) that
  the money codecs rest on.
\<close>

section \<open>Digits\<close>

definition is_digit :: "char \<Rightarrow> bool" where
  "is_digit c = (48 \<le> (of_char c :: nat) \<and> (of_char c :: nat) \<le> 57)"

definition digit_val :: "char \<Rightarrow> nat" where
  "digit_val c = of_char c - 48"

definition digit_char :: "nat \<Rightarrow> char" where
  "digit_char d = char_of (48 + d)"

definition all_digits :: "string \<Rightarrow> bool" where
  "all_digits s = list_all is_digit s"

definition dec_val :: "string \<Rightarrow> nat" where
  "dec_val s = foldl (\<lambda>a c. 10 * a + digit_val c) 0 s"

fun nat_to_dec :: "nat \<Rightarrow> string" where
  "nat_to_dec n = (if n < 10 then [digit_char n] else nat_to_dec (n div 10) @ [digit_char (n mod 10)])"

declare nat_to_dec.simps [simp del]

text \<open>\<^verbatim>\<open>n.toString()\<close> of a \<^verbatim>\<open>bigint\<close>.\<close>

definition int_to_dec :: "int \<Rightarrow> string" where
  "int_to_dec n = (if n < 0 then CHR ''-'' # nat_to_dec (nat (- n)) else nat_to_dec (nat n))"

section \<open>Laws of digits\<close>

lemma of_char_digit_char [simp]: "d < 10 \<Longrightarrow> (of_char (digit_char d) :: nat) = 48 + d"
  by (simp add: digit_char_def)

lemma is_digit_char [simp]: "d < 10 \<Longrightarrow> is_digit (digit_char d)"
  by (simp add: is_digit_def)

lemma digit_val_char [simp]: "d < 10 \<Longrightarrow> digit_val (digit_char d) = d"
  by (simp add: digit_val_def)

lemma digit_val_less [simp]: "is_digit c \<Longrightarrow> digit_val c < 10"
  by (auto simp: is_digit_def digit_val_def)

lemma digit_char_val [simp]: "is_digit c \<Longrightarrow> digit_char (digit_val c) = c"
  by (simp add: is_digit_def digit_val_def digit_char_def)

lemma is_digit_0 [simp]: "is_digit CHR ''0''"
  by (simp add: is_digit_def)

lemma digit_val_0 [simp]: "digit_val CHR ''0'' = 0"
  by (simp add: digit_val_def)

lemma digit_val_eq_0 [simp]: "is_digit c \<Longrightarrow> digit_val c = 0 \<longleftrightarrow> c = CHR ''0''"
  by (metis digit_char_val digit_val_0 is_digit_0)

lemma not_digit_dot [simp]: "\<not> is_digit CHR ''.''"
  by (simp add: is_digit_def)

lemma not_digit_minus [simp]: "\<not> is_digit CHR ''-''"
  by (simp add: is_digit_def)

lemma not_space_digit: "is_digit c \<Longrightarrow> \<not> is_js_space c"
  by (auto simp: is_digit_def is_js_space_def)

lemma all_digits_simps [simp]:
  "all_digits []"
  "all_digits (c # s) \<longleftrightarrow> is_digit c \<and> all_digits s"
  "all_digits (s @ t) \<longleftrightarrow> all_digits s \<and> all_digits t"
  by (auto simp: all_digits_def)

lemma all_digits_replicate [simp]: "all_digits (replicate n CHR ''0'')"
  by (induction n) auto

lemma all_digits_take: "all_digits s \<Longrightarrow> all_digits (take n s)"
  by (auto simp: all_digits_def list_all_iff dest: in_set_takeD)

lemma all_digits_no_dot: "all_digits s \<Longrightarrow> CHR ''.'' \<notin> set s"
  by (induction s) auto

section \<open>Value of a digit string\<close>

lemma dec_val_Nil [simp]: "dec_val [] = 0"
  by (simp add: dec_val_def)

lemma dec_val_snoc [simp]: "dec_val (s @ [c]) = 10 * dec_val s + digit_val c"
  by (simp add: dec_val_def)

lemma dec_val_append: "dec_val (s @ t) = dec_val s * 10 ^ length t + dec_val t"
proof (induction t rule: rev_induct)
  case (snoc c t)
  have "dec_val (s @ t @ [c]) = 10 * dec_val (s @ t) + digit_val c"
    by (metis append_assoc dec_val_snoc)
  then show ?case by (simp add: snoc algebra_simps)
qed simp

lemma dec_val_Cons: "dec_val (c # s) = digit_val c * 10 ^ length s + dec_val s"
  using dec_val_append [of "[c]" s] by (simp add: dec_val_def)

lemma dec_val_single [simp]: "dec_val [c] = digit_val c"
  by (simp add: dec_val_def)

lemma dec_val_replicate0 [simp]: "dec_val (replicate n CHR ''0'') = 0"
  by (induction n) (auto simp: dec_val_Cons)

lemma dec_val_less: "all_digits s \<Longrightarrow> dec_val s < 10 ^ length s"
proof (induction s rule: rev_induct)
  case (snoc c s)
  then have "dec_val s + 1 \<le> 10 ^ length s" "digit_val c < 10" by auto
  then have "10 * dec_val s + digit_val c < 10 * 10 ^ length s" by linarith
  then show ?case by simp
qed simp

lemma dec_val_pad_right: "dec_val (s @ replicate n CHR ''0'') = dec_val s * 10 ^ n"
  by (simp add: dec_val_append)

lemma dec_val_pad_left [simp]: "dec_val (replicate n CHR ''0'' @ s) = dec_val s"
  by (simp add: dec_val_append)

lemma dec_val_pad_start0 [simp]: "dec_val (pad_start0 n s) = dec_val s"
  by (simp add: pad_start0_def)

lemma dec_val_inj:
  assumes "all_digits s" "all_digits t" "length s = length t" "dec_val s = dec_val t"
  shows "s = t"
  using assms(3,1,2,4)
proof (induction s t rule: list_induct2)
  case (Cons x xs y ys)
  have b: "dec_val xs < 10 ^ length xs" "dec_val ys < 10 ^ length xs"
    using Cons.prems dec_val_less Cons.hyps by fastforce+
  have e: "digit_val x * 10 ^ length xs + dec_val xs = digit_val y * 10 ^ length xs + dec_val ys"
    using Cons.prems Cons.hyps by (simp add: dec_val_Cons)
  have "digit_val x = digit_val y"
    using arg_cong [OF e, of "\<lambda>n. n div 10 ^ length xs"] b by simp
  moreover from this e have "dec_val xs = dec_val ys" by simp
  ultimately show ?case using Cons by (metis all_digits_simps(2) digit_char_val)
qed simp

section \<open>Printing\<close>

lemma nat_to_dec_ne [simp]: "nat_to_dec n \<noteq> []"
  by (subst nat_to_dec.simps) simp

lemma all_digits_nat_to_dec [simp]: "all_digits (nat_to_dec n)"
  by (induction n rule: nat_to_dec.induct) (subst nat_to_dec.simps, simp)

lemma dec_val_nat_to_dec [simp]: "dec_val (nat_to_dec n) = n"
proof (induction n rule: nat_to_dec.induct)
  case (1 n)
  then show ?case by (subst nat_to_dec.simps) auto
qed

lemma nat_to_dec_0 [simp]: "nat_to_dec 0 = ''0''"
  by code_simp

lemma nat_to_dec_hd: "0 < n \<Longrightarrow> hd (nat_to_dec n) \<noteq> CHR ''0''"
proof (induction n rule: nat_to_dec.induct)
  case (1 n)
  show ?case
  proof (cases "n < 10")
    case True
    with 1 show ?thesis
      by (subst nat_to_dec.simps) (auto dest!: arg_cong [where f = digit_val])
  next
    case False
    with 1 show ?thesis by (subst nat_to_dec.simps) (simp add: hd_append)
  qed
qed

lemma length_nat_to_dec_le: "n < 10 ^ k \<Longrightarrow> 0 < k \<Longrightarrow> length (nat_to_dec n) \<le> k"
proof (induction n arbitrary: k rule: nat_to_dec.induct)
  case (1 n)
  show ?case
  proof (cases "n < 10")
    case True
    with 1 show ?thesis by (subst nat_to_dec.simps) simp
  next
    case False
    then have "1 < k" using 1(2,3) by (cases k) (auto intro: gr0I)
    moreover have "n div 10 < 10 ^ (k - 1)"
      using 1(2) \<open>1 < k\<close> by (cases k) (auto simp: less_mult_imp_div_less mult.commute)
    ultimately have "length (nat_to_dec (n div 10)) \<le> k - 1"
      using 1(1) [OF False] by simp
    with False \<open>1 < k\<close> show ?thesis by (subst nat_to_dec.simps) simp
  qed
qed

text \<open>
  A digit string is canonical when it is not empty and has no leading zero, unless it is
  the single digit zero. Canonical strings are exactly what \<open>nat_to_dec\<close> prints.
\<close>

definition canonical_nat :: "string \<Rightarrow> bool" where
  "canonical_nat s \<longleftrightarrow> s \<noteq> [] \<and> all_digits s \<and> (length s = 1 \<or> hd s \<noteq> CHR ''0'')"

lemma canonical_nat_to_dec [simp]: "canonical_nat (nat_to_dec n)"
  by (cases "n = 0") (auto simp: canonical_nat_def nat_to_dec_hd)

lemma dec_val_lower: "all_digits s \<Longrightarrow> s \<noteq> [] \<Longrightarrow> hd s \<noteq> CHR ''0'' \<Longrightarrow> 10 ^ (length s - 1) \<le> dec_val s"
proof (cases s)
  case (Cons c t)
  assume "all_digits s" "hd s \<noteq> CHR ''0''"
  with Cons have "digit_val c \<noteq> 0" by simp
  then have "1 \<le> digit_val c" by linarith
  then have "10 ^ length t \<le> digit_val c * 10 ^ length t" by simp
  with Cons show ?thesis by (simp only: dec_val_Cons list.size) (simp add: trans_le_add1)
qed simp

lemma canonical_length:
  assumes "canonical_nat s" "canonical_nat t" "dec_val s = dec_val t" "length s < length t"
  shows False
proof -
  have t: "all_digits t" "t \<noteq> []" "hd t \<noteq> CHR ''0''"
    using assms by (auto simp: canonical_nat_def)
  have "dec_val s < 10 ^ length s"
    using assms(1) dec_val_less [of s] by (simp add: canonical_nat_def)
  also have "\<dots> \<le> 10 ^ (length t - 1)" using assms(4) by (intro power_increasing) auto
  also have "\<dots> \<le> dec_val t" by (rule dec_val_lower) (use t in auto)
  finally show False using assms by simp
qed

lemma canonical_nat_inj:
  "canonical_nat s \<Longrightarrow> canonical_nat t \<Longrightarrow> dec_val s = dec_val t \<Longrightarrow> s = t"
  by (metis canonical_length canonical_nat_def dec_val_inj linorder_neqE_nat)

lemma nat_to_dec_dec_val: "canonical_nat s \<Longrightarrow> nat_to_dec (dec_val s) = s"
  by (rule canonical_nat_inj) auto

section \<open>Trailing and leading zeros\<close>

lemma strip_trailing0_split:
  "\<exists>k. s = strip_trailing0 s @ replicate k CHR ''0''"
proof -
  have "rev s = takeWhile (\<lambda>c. c = CHR ''0'') (rev s) @ dropWhile (\<lambda>c. c = CHR ''0'') (rev s)"
    by simp
  moreover have "takeWhile (\<lambda>c. c = CHR ''0'') (rev s) =
      replicate (length (takeWhile (\<lambda>c. c = CHR ''0'') (rev s))) CHR ''0''"
    by (rule replicate_eqI [symmetric, THEN sym]) (auto dest: set_takeWhileD)
  ultimately have "s = strip_trailing0 s @
      replicate (length (takeWhile (\<lambda>c. c = CHR ''0'') (rev s))) CHR ''0''"
    unfolding strip_trailing0_def by (metis rev_append rev_replicate rev_rev_ident)
  then show ?thesis by blast
qed

lemma strip_trailing0_pad:
  assumes "length s \<le> n"
  shows "s @ replicate (n - length s) CHR ''0'' =
             strip_trailing0 s @ replicate (n - length (strip_trailing0 s)) CHR ''0''"
proof -
  obtain k where k: "s = strip_trailing0 s @ replicate k CHR ''0''"
    using strip_trailing0_split by blast
  have "k + (n - length s) = n - length (strip_trailing0 s)"
    using assms arg_cong [OF k, of length] by simp
  then show ?thesis using k by (metis append_assoc replicate_add)
qed

lemma all_digits_strip [simp]: "all_digits s \<Longrightarrow> all_digits (strip_trailing0 s)"
  by (metis all_digits_simps(3) strip_trailing0_split)

lemma length_strip_le: "length (strip_trailing0 s) \<le> length s"
  by (metis strip_trailing0_split le_add1 length_append)

lemma strip_trailing0_last: "strip_trailing0 s \<noteq> [] \<Longrightarrow> last (strip_trailing0 s) \<noteq> CHR ''0''"
  using hd_dropWhile [of "\<lambda>c. c = CHR ''0''" "rev s"] by (simp add: strip_trailing0_def last_rev)

section \<open>Reading integers: \<^verbatim>\<open>BigInt(string)\<close> and \<^verbatim>\<open>/^\d+(?:\.\d+)?$/\<close>\<close>

definition hex_digit_val :: "char \<Rightarrow> nat" where
  "hex_digit_val c =
     (if is_digit c then digit_val c
      else if is_upper_ascii c then of_char c - 55 else of_char c - 87)"

definition is_radix_digit :: "nat \<Rightarrow> char \<Rightarrow> bool" where
  "is_radix_digit r c =
     ((is_digit c \<or> is_upper_ascii c \<or> is_lower_ascii c) \<and> hex_digit_val c < r)"

definition radix_val :: "nat \<Rightarrow> string \<Rightarrow> nat" where
  "radix_val r s = foldl (\<lambda>a c. r * a + hex_digit_val c) 0 s"

text \<open>The radix named by a prefix \<^verbatim>\<open>0x\<close>, \<^verbatim>\<open>0o\<close> or \<^verbatim>\<open>0b\<close>.\<close>

definition prefix_radix :: "char \<Rightarrow> nat option" where
  "prefix_radix c =
     (if c \<in> set ''xX'' then Some 16 else if c \<in> set ''oO'' then Some 8
      else if c \<in> set ''bB'' then Some 2 else None)"

text \<open>
  \<^verbatim>\<open>BigInt(s)\<close>: surrounding whitespace is dropped, the empty string is zero, a sign is
  allowed before decimal digits only, and anything else is a \<^verbatim>\<open>SyntaxError\<close>.
\<close>

definition bigint_of_string :: "string \<Rightarrow> int res" where
  "bigint_of_string s =
     (let t = js_trim s in
      if all_digits t then Inr (int (dec_val t))
      else case t of
        c # ds \<Rightarrow>
          if (c = CHR ''-'' \<or> c = CHR ''+'') \<and> ds \<noteq> [] \<and> all_digits ds
          then Inr (if c = CHR ''-'' then - int (dec_val ds) else int (dec_val ds))
          else (case ds of
            x # hs \<Rightarrow>
              (case prefix_radix x of
                 Some r \<Rightarrow>
                   if c = CHR ''0'' \<and> hs \<noteq> [] \<and> list_all (is_radix_digit r) hs
                   then Inr (int (radix_val r hs)) else Inl SyntaxError
               | None \<Rightarrow> Inl SyntaxError)
          | [] \<Rightarrow> Inl SyntaxError)
      | [] \<Rightarrow> Inl SyntaxError)"

lemma js_trim_digits [simp]: "all_digits s \<Longrightarrow> js_trim s = s"
proof -
  assume a: "all_digits s"
  then have "dropWhile is_js_space s = s"
    by (cases s) (auto simp: not_space_digit)
  moreover have "dropWhile is_js_space (rev s) = rev s"
    using a by (cases s rule: rev_cases) (auto simp: not_space_digit)
  ultimately show ?thesis by (simp add: js_trim_def)
qed

lemma bigint_of_digits [simp]: "all_digits s \<Longrightarrow> bigint_of_string s = Inr (int (dec_val s))"
  by (simp add: bigint_of_string_def)

definition raw_decimal :: "string \<Rightarrow> bool" where
  "raw_decimal s =
     (takeWhile is_digit s \<noteq> [] \<and>
      (case dropWhile is_digit s of
         [] \<Rightarrow> True
       | c # f \<Rightarrow> c = CHR ''.'' \<and> f \<noteq> [] \<and> all_digits f))"

lemma takeWhile_all_digits [simp]: "all_digits (takeWhile is_digit s)"
  by (induction s) auto

text \<open>The two shapes the regular expression accepts.\<close>

lemma raw_decimal_cases:
  assumes "raw_decimal s"
  obtains (whole) "s \<noteq> []" "all_digits s"
  | (frac) w f where "s = w @ CHR ''.'' # f" "w \<noteq> []" "f \<noteq> []" "all_digits w" "all_digits f"
proof (cases "dropWhile is_digit s")
  case Nil
  then have "all_digits s" by (induction s) (auto split: if_splits)
  with assms Nil show ?thesis
    by (metis takeWhile.simps(1) raw_decimal_def that(1))
next
  case (Cons c f)
  then have "s = takeWhile is_digit s @ CHR ''.'' # f" "f \<noteq> []" "all_digits f"
      "takeWhile is_digit s \<noteq> []"
    using assms takeWhile_dropWhile_id [of is_digit s] by (auto simp: raw_decimal_def)
  then show ?thesis using that(2) takeWhile_all_digits by blast
qed

lemma takeWhile_digits_all [simp]: "all_digits w \<Longrightarrow> takeWhile is_digit w = w"
  by (induction w) auto

lemma dropWhile_digits_all [simp]: "all_digits w \<Longrightarrow> dropWhile is_digit w = []"
  by (induction w) auto

lemma raw_decimal_whole [simp]: "all_digits w \<Longrightarrow> raw_decimal w \<longleftrightarrow> w \<noteq> []"
  by (simp add: raw_decimal_def)

lemma span_digits_dot:
  "all_digits w \<Longrightarrow> takeWhile is_digit (w @ CHR ''.'' # f) = w"
  "all_digits w \<Longrightarrow> dropWhile is_digit (w @ CHR ''.'' # f) = CHR ''.'' # f"
  by (induction w) auto

lemma raw_decimal_frac [simp]:
  "all_digits w \<Longrightarrow> raw_decimal (w @ CHR ''.'' # f) \<longleftrightarrow> w \<noteq> [] \<and> f \<noteq> [] \<and> all_digits f"
  by (simp add: raw_decimal_def span_digits_dot)

lemma js_trim_raw_decimal: "raw_decimal s \<Longrightarrow> js_trim s = s"
proof (erule raw_decimal_cases)
  fix w f assume s: "s = w @ CHR ''.'' # f" "w \<noteq> []" "f \<noteq> []" "all_digits w" "all_digits f"
  have "dropWhile is_js_space s = s" using s by (cases w) (auto simp: not_space_digit)
  moreover have "dropWhile is_js_space (rev s) = rev s"
    using s by (cases f rule: rev_cases) (auto simp: not_space_digit)
  ultimately show ?thesis by (simp add: js_trim_def)
qed simp

text \<open>\<^verbatim>\<open>const [whole, frac = ""] = s.split(".")\<close>.\<close>

definition split_decimal :: "string \<Rightarrow> string \<times> string" where
  "split_decimal s =
     (let parts = split_on CHR ''.'' s
      in (hd parts, if 2 \<le> length parts then parts ! 1 else []))"

lemma split_decimal_whole [simp]: "all_digits w \<Longrightarrow> split_decimal w = (w, [])"
  by (simp add: split_decimal_def str_simps all_digits_no_dot)

lemma split_decimal_frac [simp]:
  "all_digits w \<Longrightarrow> all_digits f \<Longrightarrow> split_decimal (w @ CHR ''.'' # f) = (w, f)"
  by (simp add: split_decimal_def str_simps all_digits_no_dot)

text \<open>\<^verbatim>\<open>whole.replace(/^0+(?=\d)/, "")\<close>.\<close>

fun strip_leading0 :: "string \<Rightarrow> string" where
  "strip_leading0 (c # d # s) =
     (if c = CHR ''0'' \<and> is_digit d then strip_leading0 (d # s) else c # d # s)"
| "strip_leading0 s = s"

lemma strip_leading0_canonical:
  "all_digits s \<Longrightarrow> s \<noteq> [] \<Longrightarrow> canonical_nat (strip_leading0 s)"
  by (induction s rule: strip_leading0.induct) (auto simp: canonical_nat_def)

lemma strip_leading0_val: "dec_val (strip_leading0 s) = dec_val s"
  by (induction s rule: strip_leading0.induct) (auto simp: dec_val_Cons)

lemma strip_leading0_eq:
  "all_digits s \<Longrightarrow> s \<noteq> [] \<Longrightarrow> strip_leading0 s = nat_to_dec (dec_val s)"
  by (metis nat_to_dec_dec_val strip_leading0_canonical strip_leading0_val)

end
