(* ===== verification/Lib_Money.thy ===== *)
theory Lib_Money
  imports Decimal_Digits
begin

text \<open>
  \<^verbatim>\<open>src/src/lib/money.ts\<close>: the shared validation and conversion of assets and amounts.
  Amounts are decimal strings outside and integral stroops (ten million to the unit)
  inside. The asset registry depends on the environment (\<open>money_config\<close>, read from
  \<^verbatim>\<open>src/src/config.ts\<close>) and on the Stellar SDK's key check
  \<^verbatim>\<open>StrKey.isValidEd25519PublicKey\<close>, which is the parameter \<open>valid_key\<close>.

  The lemmas show that \<open>validateAmount\<close> accepts exactly the decimal strings that denote
  a positive \<^verbatim>\<open>int64\<close> number of stroops and returns their one canonical spelling, that
  printing and parsing are inverse, and what each branch of \<open>validateAsset\<close> returns.
\<close>

section \<open>Constants and types\<close>

definition STROOPS_PER_UNIT :: int where "STROOPS_PER_UNIT = 10000000"
definition MAX_STROOPS :: int where "MAX_STROOPS = 9223372036854775807"
definition MAX_AMOUNT :: string where "MAX_AMOUNT = ''922337203685.4775807''"

datatype asset_type = Native | Issued
datatype network = Testnet | Public
datatype registry_network = On network | Both

record validated_asset =
  va_code :: string
  va_type :: asset_type
  va_issuer :: "string option"
  va_name :: string

record validated_amount =
  decimal :: string
  stroops :: int

datatype rejection_reason =
    Unsupported_code | Native_with_issuer | Issued_without_issuer | Issuer_mismatch
  | Invalid_issuer_format | Network_mismatch
  | Malformed | Zero_or_negative | Excess_precision | Out_of_range
  | Exponent_notation | Whitespace_padding

text \<open>A \<^verbatim>\<open>ValidationError\<close>: the reason, and the message shown to the client.\<close>

datatype validation_error = ValidationError (reason: rejection_reason) (message: string)

text \<open>Its \<^verbatim>\<open>code\<close> field is determined by which validator produced it.\<close>

definition rejection_code :: "rejection_reason \<Rightarrow> string" where
  "rejection_code r =
     (if r \<in> {Unsupported_code, Native_with_issuer, Issued_without_issuer, Issuer_mismatch,
              Invalid_issuer_format, Network_mismatch}
      then ''INVALID_ASSET'' else ''INVALID_AMOUNT'')"

type_synonym 'a outcome = "validation_error + 'a"

section \<open>Asset registry\<close>

record asset_entry =
  ae_code :: string
  ae_type :: asset_type
  ae_issuer :: "string option"
  ae_name :: string
  ae_network :: registry_network

record money_config =
  STABLE_ASSET_ISSUER :: string
  STELLAR_NETWORK :: "network option"

definition SUPPORTED_ASSETS :: "money_config \<Rightarrow> asset_entry list" where
  "SUPPORTED_ASSETS cfg =
     [\<lparr>ae_code = ''XLM'', ae_type = Native, ae_issuer = None,
       ae_name = ''Stellar Lumens'', ae_network = Both\<rparr>,
      \<lparr>ae_code = ''USDC'', ae_type = Issued,
       ae_issuer = (if STABLE_ASSET_ISSUER cfg = [] then None else Some (STABLE_ASSET_ISSUER cfg)),
       ae_name = ''USD Coin'', ae_network = On Public\<rparr>]"

definition issuer_or_empty :: "string option \<Rightarrow> string" where
  "issuer_or_empty i = (case i of None \<Rightarrow> [] | Some k \<Rightarrow> k)"

definition byCode :: "money_config \<Rightarrow> (string \<times> asset_entry) list" where
  "byCode cfg = fold (\<lambda>a m. AList.update (to_upper (ae_code a)) a m) (SUPPORTED_ASSETS cfg) []"

definition byCodeIssuer :: "money_config \<Rightarrow> (string \<times> asset_entry) list" where
  "byCodeIssuer cfg =
     fold (\<lambda>a m. AList.update (to_upper (ae_code a) @ ''::'' @ issuer_or_empty (ae_issuer a)) a m)
       (SUPPORTED_ASSETS cfg) []"

definition assertNetwork :: "money_config \<Rightarrow> asset_entry \<Rightarrow> unit res" where
  "assertNetwork cfg a =
     (case ae_network a of
        Both \<Rightarrow> Inr ()
      | On n \<Rightarrow>
          let current = (case STELLAR_NETWORK cfg of None \<Rightarrow> Public | Some c \<Rightarrow> c)
          in if n \<noteq> current then Inl (AppError 400 ''INVALID_ASSET'') else Inr ())"

definition stripNetwork :: "asset_entry \<Rightarrow> validated_asset" where
  "stripNetwork a =
     \<lparr>va_code = ae_code a, va_type = ae_type a, va_issuer = ae_issuer a, va_name = ae_name a\<rparr>"

text \<open>Pieces of the messages: a value between double quotes, and \<^verbatim>\<open>keys.join(", ")\<close>.\<close>

definition quoted :: "string \<Rightarrow> string" where
  "quoted s = CHR 0x22 # s @ [CHR 0x22]"

fun join_comma :: "string list \<Rightarrow> string" where
  "join_comma [] = []"
| "join_comma [x] = x"
| "join_comma (x # xs) = x @ '', '' @ join_comma xs"

text \<open>JavaScript truthiness of \<^verbatim>\<open>string | null | undefined\<close>.\<close>

definition truthy :: "string option \<Rightarrow> bool" where
  "truthy s = (case s of None \<Rightarrow> False | Some x \<Rightarrow> x \<noteq> [])"

definition accept_on_network :: "money_config \<Rightarrow> asset_entry \<Rightarrow> (validated_asset outcome) res" where
  "accept_on_network cfg a = res_bind (assertNetwork cfg a) (\<lambda>_. Inr (Inr (stripNetwork a)))"

definition validateAsset_byCode ::
  "money_config \<Rightarrow> string \<Rightarrow> string \<Rightarrow> string option \<Rightarrow> (validated_asset outcome) res" where
  "validateAsset_byCode cfg code upper issuer =
     (case map_of (byCode cfg) upper of
        None \<Rightarrow> Inr (Inl (ValidationError Unsupported_code
                  (''Unsupported asset code '' @ quoted code @ ''. Supported codes: '' @
                   join_comma (map fst (byCode cfg)))))
      | Some entry \<Rightarrow>
          if ae_type entry = Native \<and> truthy issuer
          then Inr (Inl (ValidationError Native_with_issuer
                 (quoted (ae_code entry) @ '' is a native asset and does not take an issuer'')))
          else if ae_type entry = Issued \<and> \<not> truthy issuer
          then (if ae_issuer entry = None
                then Inr (Inl (ValidationError Issued_without_issuer
                       (quoted code @ '' issuer is not configured. Set STABLE_ASSET_ISSUER or provide an issuer.'')))
                else accept_on_network cfg entry)
          else if ae_type entry = Issued \<and> truthy issuer \<and> ae_issuer entry \<noteq> None
                  \<and> Some (js_trim (the issuer)) \<noteq> ae_issuer entry
          then Inr (Inl (ValidationError Issuer_mismatch
                 (quoted code @ '' issuer mismatch. Expected '' @ the (ae_issuer entry) @
                  '', got '' @ the issuer)))
          else accept_on_network cfg entry)"

definition validateAsset ::
  "(string \<Rightarrow> bool) \<Rightarrow> money_config \<Rightarrow> string \<Rightarrow> string option \<Rightarrow> (validated_asset outcome) res" where
  "validateAsset valid_key cfg code issuer =
     (let upper = js_trim (to_upper code) in
      if upper = [] then Inr (Inl (ValidationError Unsupported_code ''Asset code is required''))
      else if truthy issuer then
        (let issuerTrimmed = js_trim (the issuer) in
         if \<not> valid_key issuerTrimmed
         then Inr (Inl (ValidationError Invalid_issuer_format
                (quoted (the issuer) @ '' is not a valid Stellar public key'')))
         else case map_of (byCodeIssuer cfg) (upper @ ''::'' @ issuerTrimmed) of
                Some exact \<Rightarrow> accept_on_network cfg exact
              | None \<Rightarrow> validateAsset_byCode cfg code upper issuer)
      else validateAsset_byCode cfg code upper issuer)"

definition isSupportedAsset ::
  "(string \<Rightarrow> bool) \<Rightarrow> money_config \<Rightarrow> string \<Rightarrow> string option \<Rightarrow> bool res" where
  "isSupportedAsset valid_key cfg code issuer =
     res_bind (validateAsset valid_key cfg code issuer)
       (\<lambda>r. Inr (case r of Inl _ \<Rightarrow> False | Inr _ \<Rightarrow> True))"

definition supportedAssetCodes :: "money_config \<Rightarrow> string list" where
  "supportedAssetCodes cfg = map fst (byCode cfg)"

section \<open>Amounts\<close>

definition pad7 :: "string \<Rightarrow> string" where
  "pad7 fracDigits = take 7 (fracDigits @ ''0000000'')"

definition validateAmount :: "string \<Rightarrow> validated_amount outcome" where
  "validateAmount value =
     (let trimmed = js_trim value in
      if trimmed \<noteq> value
      then Inl (ValidationError Whitespace_padding
             ''Amount must not have leading or trailing whitespace'')
      else if trimmed = [] then Inl (ValidationError Malformed ''Amount is required'')
      else if \<not> raw_decimal trimmed
      then Inl (ValidationError Malformed (quoted value @
             '' is not a valid decimal amount (no exponents, signs, or non-digits)''))
      else
        let (wholeRaw, fracRaw) = split_decimal trimmed in
        if 7 < length fracRaw
        then Inl (ValidationError Excess_precision
               (''Amount '' @ quoted value @ '' exceeds 7-decimal precision''))
        else
          let w0 = strip_leading0 wholeRaw;
              whole = (if w0 = [] then ''0'' else w0);
              paddedFrac = pad7 fracRaw;
              st = int (dec_val whole) * STROOPS_PER_UNIT + int (dec_val paddedFrac)
          in
          if st \<le> 0 then Inl (ValidationError Zero_or_negative ''Amount must be greater than zero'')
          else if MAX_STROOPS < st
          then Inl (ValidationError Out_of_range
                 ''Amount exceeds the maximum representable Stellar value'')
          else
            let canonicalFrac = strip_trailing0 paddedFrac
            in Inr \<lparr>decimal = (if canonicalFrac = [] then whole
                               else whole @ ''.'' @ canonicalFrac),
                    stroops = st\<rparr>)"

definition lib_toStroops :: "string \<Rightarrow> int res" where
  "lib_toStroops amount =
     (let (whole, fracDigits) = split_decimal amount in
      res_bind (bigint_of_string whole) (\<lambda>w.
      res_bind (bigint_of_string (pad7 fracDigits)) (\<lambda>f.
        Inr (w * STROOPS_PER_UNIT + f))))"

definition magnitude_digits :: "int \<Rightarrow> string \<times> string" where
  "magnitude_digits n =
     (let m = (if n < 0 then - n else n) in
      (int_to_dec (m div STROOPS_PER_UNIT), pad_start0 7 (int_to_dec (m mod STROOPS_PER_UNIT))))"

definition lib_fromStroops :: "int \<Rightarrow> string" where
  "lib_fromStroops n =
     (let (whole, frac7) = magnitude_digits n;
          fracDigits = strip_trailing0 frac7;
          sign = (if n < 0 then ''-'' else '''')
      in if 0 < length fracDigits then sign @ whole @ ''.'' @ fracDigits else sign @ whole)"

definition lib_stroopsToStellarAmount :: "int \<Rightarrow> string" where
  "lib_stroopsToStellarAmount n =
     (let (whole, frac7) = magnitude_digits n
      in (if n < 0 then ''-'' else '''') @ whole @ ''.'' @ frac7)"

definition lib_compareAmounts :: "string \<Rightarrow> string \<Rightarrow> int res" where
  "lib_compareAmounts a b =
     res_bind (lib_toStroops a) (\<lambda>sa. res_bind (lib_toStroops b) (\<lambda>sb.
       Inr (if sa < sb then -1 else if sb < sa then 1 else 0)))"

definition lib_addAmounts :: "string \<Rightarrow> string \<Rightarrow> string res" where
  "lib_addAmounts a b =
     res_bind (lib_toStroops a) (\<lambda>sa. res_bind (lib_toStroops b) (\<lambda>sb.
       Inr (lib_fromStroops (sa + sb))))"

definition lib_subtractAmounts :: "string \<Rightarrow> string \<Rightarrow> string res" where
  "lib_subtractAmounts a b =
     res_bind (lib_toStroops a) (\<lambda>sa. res_bind (lib_toStroops b) (\<lambda>sb.
       if sa - sb < 0 then Inl (PlainError ''Amount cannot be negative'')
       else Inr (lib_fromStroops (sa - sb))))"

section \<open>What an amount string denotes\<close>

text \<open>
  The specification: a decimal string denotes a number of stroops when it is a digit string,
  or a digit string, a point and one to seven more digits.
\<close>

inductive denotes :: "string \<Rightarrow> nat \<Rightarrow> bool" where
  den_whole: "w \<noteq> [] \<Longrightarrow> all_digits w \<Longrightarrow> denotes w (dec_val w * 10 ^ 7)"
| den_frac: "w \<noteq> [] \<Longrightarrow> all_digits w \<Longrightarrow> f \<noteq> [] \<Longrightarrow> all_digits f \<Longrightarrow> length f \<le> 7 \<Longrightarrow>
    denotes (w @ CHR ''.'' # f) (dec_val w * 10 ^ 7 + dec_val f * 10 ^ (7 - length f))"

lemma pad7_eq: "length f \<le> 7 \<Longrightarrow> pad7 f = f @ replicate (7 - length f) CHR ''0''"
proof -
  have "''0000000'' = replicate 7 CHR ''0''" by code_simp
  then show "length f \<le> 7 \<Longrightarrow> ?thesis" by (simp only: pad7_def) (simp add: min_def)
qed

lemma pad7_digits [simp]: "all_digits f \<Longrightarrow> all_digits (pad7 f)"
  unfolding pad7_def by (rule all_digits_take) simp

lemma dec_val_pad7: "length f \<le> 7 \<Longrightarrow> dec_val (pad7 f) = dec_val f * 10 ^ (7 - length f)"
  by (simp add: pad7_eq dec_val_pad_right)

lemma length_pad7 [simp]: "length f \<le> 7 \<Longrightarrow> length (pad7 f) = 7"
  by (simp add: pad7_eq)

text \<open>The whole and fraction digits that \<open>fromStroops\<close> prints for a non-negative amount.\<close>

lemma magnitude_digits_nat:
  "magnitude_digits (int n) = (nat_to_dec (n div 10 ^ 7), pad_start0 7 (nat_to_dec (n mod 10 ^ 7)))"
proof -
  have "\<not> int n div 10000000 < 0" "\<not> int n mod 10000000 < 0"
    by (simp_all add: not_less pos_imp_zdiv_nonneg_iff)
  then show ?thesis
    by (simp add: magnitude_digits_def int_to_dec_def STROOPS_PER_UNIT_def Let_def
        nat_div_distrib nat_mod_distrib)
qed

lemma magnitude_digits_neg: "magnitude_digits (- n) = magnitude_digits n"
  by (simp add: magnitude_digits_def)

lemma length_pad_start0: "length s \<le> n \<Longrightarrow> length (pad_start0 n s) = n"
  by (simp add: pad_start0_def)

lemma all_digits_pad_start0 [simp]: "all_digits s \<Longrightarrow> all_digits (pad_start0 n s)"
  by (simp add: pad_start0_def)

text \<open>Seven digits are determined by their value.\<close>

lemma pad7_unique:
  assumes "all_digits f" "length f \<le> 7"
  shows "pad7 f = pad_start0 7 (nat_to_dec (dec_val (pad7 f)))"
proof (rule dec_val_inj)
  have "dec_val (pad7 f) < 10 ^ 7" using dec_val_less [of "pad7 f"] assms by simp
  then have "length (nat_to_dec (dec_val (pad7 f))) \<le> 7" by (rule length_nat_to_dec_le) simp
  then show "length (pad7 f) = length (pad_start0 7 (nat_to_dec (dec_val (pad7 f))))"
    using assms by (simp add: length_pad_start0)
qed (use assms in auto)

definition print_parts :: "string \<Rightarrow> string \<Rightarrow> string" where
  "print_parts whole frac7 =
     (let fracDigits = strip_trailing0 frac7 in if fracDigits = [] then whole else whole @ ''.'' @ fracDigits)"

lemma lib_fromStroops_nat:
  "lib_fromStroops (int n) =
     print_parts (nat_to_dec (n div 10 ^ 7)) (pad_start0 7 (nat_to_dec (n mod 10 ^ 7)))"
  unfolding lib_fromStroops_def magnitude_digits_nat by (simp add: print_parts_def Let_def)

lemma lib_fromStroops_neg:
  "0 < n \<Longrightarrow> lib_fromStroops (- int n) = CHR ''-'' # lib_fromStroops (int n)"
  unfolding lib_fromStroops_def magnitude_digits_neg by (simp add: Let_def split: prod.split)

text \<open>The validator's own arithmetic on an accepted string.\<close>

lemma denotes_parts:
  assumes "raw_decimal s" "split_decimal s = (w, f)" "length f \<le> 7"
  shows "denotes s (dec_val w * 10 ^ 7 + dec_val (pad7 f))" "all_digits w" "all_digits f" "w \<noteq> []"
  using assms by (auto elim!: raw_decimal_cases
      intro: den_whole [of _, simplified] den_frac [simplified] simp: dec_val_pad7)

lemma denotes_raw: "denotes s n \<Longrightarrow>
  raw_decimal s \<and> (\<exists>w f. split_decimal s = (w, f) \<and> length f \<le> 7 \<and> all_digits w \<and> all_digits f \<and>
     w \<noteq> [] \<and> n = dec_val w * 10 ^ 7 + dec_val (pad7 f))"
  by (induction rule: denotes.induct) (auto simp: dec_val_pad7)

lemma denotes_unique: "denotes s m \<Longrightarrow> denotes s n \<Longrightarrow> m = n"
  by (auto dest!: denotes_raw)

section \<open>Printing, parsing and validating are one codec\<close>

lemma print_parts_denotes:
  assumes "w \<noteq> []" "all_digits w" "all_digits f" "length f = 7"
  shows "denotes (print_parts w f) (dec_val w * 10 ^ 7 + dec_val f)"
proof -
  have f: "f = strip_trailing0 f @ replicate (7 - length (strip_trailing0 f)) CHR ''0''"
    using strip_trailing0_pad [of f 7] assms(4) by simp
  have le: "length (strip_trailing0 f) \<le> 7" using length_strip_le [of f] assms(4) by simp
  have v: "dec_val f = dec_val (strip_trailing0 f) * 10 ^ (7 - length (strip_trailing0 f))"
    using arg_cong [OF f, of dec_val] by (simp add: dec_val_pad_right)
  show ?thesis
  proof (cases "strip_trailing0 f = []")
    case True
    then show ?thesis using den_whole [of w] assms v by (simp add: print_parts_def)
  next
    case False
    then show ?thesis using den_frac [of w "strip_trailing0 f"] assms v le by (simp add: print_parts_def)
  qed
qed

lemma denotes_fromStroops: "denotes (lib_fromStroops (int n)) n"
proof -
  have "length (nat_to_dec (n mod 10 ^ 7)) \<le> 7" by (rule length_nat_to_dec_le) auto
  then have "denotes (lib_fromStroops (int n)) ((n div 10 ^ 7) * 10 ^ 7 + n mod 10 ^ 7)"
    unfolding lib_fromStroops_nat
    using print_parts_denotes [of "nat_to_dec (n div 10 ^ 7)" "pad_start0 7 (nat_to_dec (n mod 10 ^ 7))"]
    by (simp add: length_pad_start0)
  then show ?thesis by simp
qed

lemma denotes_stellarAmount: "denotes (lib_stroopsToStellarAmount (int n)) n"
proof -
  let ?f = "pad_start0 7 (nat_to_dec (n mod 10 ^ 7))"
  have l: "length (nat_to_dec (n mod 10 ^ 7)) \<le> 7" by (rule length_nat_to_dec_le) auto
  then have "?f \<noteq> []" "length ?f = 7" by (auto simp: length_pad_start0 dest: arg_cong [of _ _ length])
  then have "denotes (nat_to_dec (n div 10 ^ 7) @ CHR ''.'' # ?f)
      (dec_val (nat_to_dec (n div 10 ^ 7)) * 10 ^ 7 + dec_val ?f * 10 ^ (7 - length ?f))"
    by (intro den_frac) auto
  then show ?thesis
    using \<open>length ?f = 7\<close>
    unfolding lib_stroopsToStellarAmount_def magnitude_digits_nat by (simp add: Let_def)
qed

lemma lib_toStroops_denotes: "denotes s n \<Longrightarrow> lib_toStroops s = Inr (int n)"
  by (drule denotes_raw) (auto simp: lib_toStroops_def STROOPS_PER_UNIT_def)

lemma lib_toStroops_fromStroops: "lib_toStroops (lib_fromStroops (int n)) = Inr (int n)"
  by (rule lib_toStroops_denotes) (rule denotes_fromStroops)

lemma canonical_parts:
  assumes "all_digits w" "w \<noteq> []" "all_digits f" "length f \<le> 7"
  shows "print_parts (strip_leading0 w) (pad7 f) =
         lib_fromStroops (int (dec_val w * 10 ^ 7 + dec_val (pad7 f)))"
proof -
  have "dec_val (pad7 f) < 10 ^ 7" using dec_val_less [of "pad7 f"] assms by simp
  then have "(dec_val w * 10 ^ 7 + dec_val (pad7 f)) div 10 ^ 7 = dec_val w"
    and "(dec_val w * 10 ^ 7 + dec_val (pad7 f)) mod 10 ^ 7 = dec_val (pad7 f)" by auto
  then show ?thesis
    unfolding lib_fromStroops_nat using pad7_unique [of f] strip_leading0_eq [of w] assms by simp
qed

text \<open>The validator in terms of what its input denotes: one equation per outcome.\<close>

lemma strip_leading0_ne [simp]: "all_digits w \<Longrightarrow> w \<noteq> [] \<Longrightarrow> strip_leading0 w \<noteq> []"
  by (simp add: strip_leading0_eq)

lemma raw_decimal_ne [simp]: "raw_decimal s \<Longrightarrow> s \<noteq> []"
  by (auto simp: raw_decimal_def)

lemma validateAmount_denotes:
  assumes "denotes s n"
  shows "validateAmount s =
    (if n = 0 then Inl (ValidationError Zero_or_negative ''Amount must be greater than zero'')
     else if MAX_STROOPS < int n
     then Inl (ValidationError Out_of_range ''Amount exceeds the maximum representable Stellar value'')
     else Inr \<lparr>decimal = lib_fromStroops (int n), stroops = int n\<rparr>)"
proof -
  obtain w f where p: "raw_decimal s" "split_decimal s = (w, f)" "length f \<le> 7" "all_digits w"
      "all_digits f" "w \<noteq> []" "n = dec_val w * 10 ^ 7 + dec_val (pad7 f)"
    using denotes_raw [OF assms] by blast
  have n: "int (dec_val w) * STROOPS_PER_UNIT + int (dec_val (pad7 f)) = int n"
    using p(7) by (simp add: STROOPS_PER_UNIT_def)
  have c: "(if strip_trailing0 (pad7 f) = [] then strip_leading0 w
      else strip_leading0 w @ ''.'' @ strip_trailing0 (pad7 f)) = lib_fromStroops (int n)"
    using canonical_parts [of w f] p by (simp add: print_parts_def Let_def)
  show ?thesis
    unfolding validateAmount_def Let_def
    using p(1-6) js_trim_raw_decimal [OF p(1)] n c
    by (simp add: strip_leading0_val split: if_splits)
qed

lemma not_denotes_cases:
  assumes "\<nexists>n. denotes s n"
  shows "validateAmount s =
    (if js_trim s \<noteq> s then Inl (ValidationError Whitespace_padding
         ''Amount must not have leading or trailing whitespace'')
     else if s = [] then Inl (ValidationError Malformed ''Amount is required'')
     else if \<not> raw_decimal s
     then Inl (ValidationError Malformed
            (quoted s @ '' is not a valid decimal amount (no exponents, signs, or non-digits)''))
     else Inl (ValidationError Excess_precision
            (''Amount '' @ quoted s @ '' exceeds 7-decimal precision'')))"
proof (cases "raw_decimal s")
  case True
  obtain w f where wf: "split_decimal s = (w, f)" by force
  then have "\<not> length f \<le> 7" using assms denotes_parts(1) [OF True wf] by blast
  with True wf js_trim_raw_decimal [OF True] show ?thesis
    by (simp add: validateAmount_def Let_def)
next
  case False
  then show ?thesis by (simp add: validateAmount_def Let_def)
qed

lemma validateAmount_Inr_iff:
  "validateAmount s = Inr v \<longleftrightarrow>
     (\<exists>n. denotes s n \<and> 0 < n \<and> int n \<le> MAX_STROOPS \<and>
          v = \<lparr>decimal = lib_fromStroops (int n), stroops = int n\<rparr>)"
proof (cases "\<exists>n. denotes s n")
  case True
  then obtain n where n: "denotes s n" by blast
  then have u: "\<And>m. denotes s m \<longleftrightarrow> m = n" using denotes_unique by blast
  show ?thesis unfolding validateAmount_denotes [OF n] u by auto
next
  case False
  then have "\<not> (\<exists>n. denotes s n)" by blast
  then show ?thesis using not_denotes_cases [OF False] by auto
qed

section \<open>The asset registry\<close>

lemma byCode_entries: "byCode cfg = map (\<lambda>a. (ae_code a, a)) (SUPPORTED_ASSETS cfg)"
  unfolding byCode_def SUPPORTED_ASSETS_def
  by (simp add: to_upper_def is_lower_ascii_def)

lemma byCode_lookup:
  "map_of (byCode cfg) u = Some a \<Longrightarrow> a \<in> set (SUPPORTED_ASSETS cfg) \<and> ae_code a = u"
  unfolding byCode_entries by (auto dest!: map_of_SomeD)

lemma byCodeIssuer_entries:
  "byCodeIssuer cfg =
     map (\<lambda>a. (ae_code a @ ''::'' @ issuer_or_empty (ae_issuer a), a)) (SUPPORTED_ASSETS cfg)"
  unfolding byCodeIssuer_def SUPPORTED_ASSETS_def
  by (simp add: to_upper_def is_lower_ascii_def issuer_or_empty_def)

lemma byCodeIssuer_lookup:
  "map_of (byCodeIssuer cfg) k = Some a \<Longrightarrow>
     a \<in> set (SUPPORTED_ASSETS cfg) \<and> k = ae_code a @ ''::'' @ issuer_or_empty (ae_issuer a)"
  unfolding byCodeIssuer_entries by (auto dest!: map_of_SomeD)

lemma accept_on_network_Inr:
  "accept_on_network cfg a = Inr (Inr v) \<Longrightarrow>
     v = stripNetwork a \<and> (ae_network a = Both \<or> ae_network a = On (case STELLAR_NETWORK cfg of None \<Rightarrow> Public | Some c \<Rightarrow> c))"
  by (auto simp: accept_on_network_def assertNetwork_def res_simps Let_def
      split: registry_network.splits if_splits)

text \<open>An accepted asset found by its exact key has that code and that issuer: the key's two
  parts can be told apart because the issuer has 56 characters.\<close>

lemma exact_match:
  assumes "map_of (byCodeIssuer cfg) (u @ ''::'' @ i) = Some a" and "length i = 56"
    and "STABLE_ASSET_ISSUER cfg = [] \<or> length (STABLE_ASSET_ISSUER cfg) = 56"
  shows "a \<in> set (SUPPORTED_ASSETS cfg) \<and> ae_code a = u \<and> ae_issuer a = Some i"
proof -
  have a: "a \<in> set (SUPPORTED_ASSETS cfg)"
      and k: "u @ ''::'' @ i = ae_code a @ ''::'' @ issuer_or_empty (ae_issuer a)"
    using byCodeIssuer_lookup [OF assms(1)] by auto
  have "58 \<le> length (ae_code a @ ''::'' @ issuer_or_empty (ae_issuer a))"
    using assms(2) arg_cong [OF k, of length] by simp
  then have i: "ae_issuer a = Some (STABLE_ASSET_ISSUER cfg)" "length (STABLE_ASSET_ISSUER cfg) = 56"
    using a assms(3) by (auto simp: SUPPORTED_ASSETS_def issuer_or_empty_def)
  have "(u @ ''::'') @ i = (ae_code a @ ''::'') @ STABLE_ASSET_ISSUER cfg"
    using k i by (simp add: issuer_or_empty_def)
  then have "u @ ''::'' = ae_code a @ ''::'' \<and> i = STABLE_ASSET_ISSUER cfg"
    using i(2) assms(2) by (subst (asm) append_eq_append_conv) auto
  with a i show ?thesis by auto
qed

lemma byCode_accepted:
  assumes "validateAsset_byCode cfg code u issuer = Inr (Inr v)"
  shows "\<exists>a \<in> set (SUPPORTED_ASSETS cfg). v = stripNetwork a \<and> ae_code a = u
    \<and> (ae_network a = Both \<or> ae_network a = On (case STELLAR_NETWORK cfg of None \<Rightarrow> Public | Some c \<Rightarrow> c))
    \<and> (STABLE_ASSET_ISSUER cfg \<noteq> [] \<longrightarrow> truthy issuer \<longrightarrow> va_issuer v = Some (js_trim (the issuer)))"
proof -
  obtain a where a: "map_of (byCode cfg) u = Some a"
    using assms by (auto simp: validateAsset_byCode_def split: option.splits)
  have acc: "accept_on_network cfg a = Inr (Inr v)"
      "\<not> (ae_type a = Native \<and> truthy issuer)"
      "ae_type a = Issued \<Longrightarrow> truthy issuer \<Longrightarrow> ae_issuer a = None \<or> ae_issuer a = Some (js_trim (the issuer))"
    using assms a by (auto simp: validateAsset_byCode_def split: if_splits)
  have mem: "a \<in> set (SUPPORTED_ASSETS cfg)" "ae_code a = u" using byCode_lookup [OF a] by auto
  have "ae_issuer a = Some (js_trim (the issuer))" if "STABLE_ASSET_ISSUER cfg \<noteq> []" "truthy issuer"
    using that acc(2,3) mem(1) by (auto simp: SUPPORTED_ASSETS_def)
  then show ?thesis using accept_on_network_Inr [OF acc(1)] mem
    by (intro bexI [of _ a]) (auto simp: stripNetwork_def)
qed

definition demo_issuer :: string where
  "demo_issuer = ''GA5ZSEJYB37JRC5AVCIA5MOP4RHTM335X2KGX3IHOJAPP5RE34K4KZVN''"

definition demo_money_config :: money_config where
  "demo_money_config = \<lparr>STABLE_ASSET_ISSUER = demo_issuer, STELLAR_NETWORK = Some Public\<rparr>"

section \<open>Properties\<close>

text \<open>C28. The amount validator: a string is accepted exactly when it denotes a positive number of
  stroops of at most 2^63 - 1, and the accepted value carries that number and its canonical
  spelling, which the validator accepts again with the same result.\<close>

theorem validateAmount_canonical:
  "(validateAmount s = Inr v \<longleftrightarrow>
     (\<exists>n. denotes s n \<and> 0 < n \<and> int n \<le> MAX_STROOPS \<and>
          v = \<lparr>decimal = lib_fromStroops (int n), stroops = int n\<rparr>))
   \<and> (validateAmount s = Inr v \<longrightarrow> validateAmount (decimal v) = Inr v)"
  by (auto simp: validateAmount_Inr_iff intro: denotes_fromStroops)

theorem validateAmount_canonical_witness:
  "validateAmount ''7.5'' = Inr \<lparr>decimal = ''7.5'', stroops = 75000000\<rparr>"
proof -
  have "validateAmount ''007.5000'' = Inr \<lparr>decimal = ''7.5'', stroops = 75000000\<rparr>" by code_simp
  then show ?thesis
    using validateAmount_canonical [of "''007.5000''" "\<lparr>decimal = ''7.5'', stroops = 75000000\<rparr>"]
    by (simp del: One_nat_def)
qed

text \<open>The asset validator only ever returns an entry of the registry, without its network
  field, whose code is the trimmed upper-case input and whose network is the configured
  one; with the issuer configured, a supplied issuer is the registry's. The hypotheses say
  that an accepted public key has its 56 characters, and that the configured issuer is one.\<close>

theorem validateAsset_registered:
  assumes "validateAsset valid_key cfg code issuer = Inr (Inr v)"
    and keys: "\<And>k. valid_key k \<Longrightarrow> length k = 56"
    and conf: "STABLE_ASSET_ISSUER cfg = [] \<or> valid_key (STABLE_ASSET_ISSUER cfg)"
  shows "\<exists>a \<in> set (SUPPORTED_ASSETS cfg). v = stripNetwork a
    \<and> ae_code a = js_trim (to_upper code)
    \<and> (ae_network a = Both \<or> ae_network a = On (case STELLAR_NETWORK cfg of None \<Rightarrow> Public | Some c \<Rightarrow> c))
    \<and> (STABLE_ASSET_ISSUER cfg \<noteq> [] \<longrightarrow> truthy issuer \<longrightarrow> va_issuer v = Some (js_trim (the issuer)))"
proof (cases "truthy issuer \<and> map_of (byCodeIssuer cfg) (js_trim (to_upper code) @ ''::'' @ js_trim (the issuer)) \<noteq> None")
  case True
  then obtain a where a: "map_of (byCodeIssuer cfg) (js_trim (to_upper code) @ ''::'' @ js_trim (the issuer)) = Some a"
      "accept_on_network cfg a = Inr (Inr v)" "valid_key (js_trim (the issuer))"
    using assms(1) by (auto simp: validateAsset_def Let_def split: if_splits)
  from exact_match [OF a(1) keys [OF a(3)]] conf keys
  show ?thesis using accept_on_network_Inr [OF a(2)] conf keys
    by (intro bexI [of _ a]) (auto simp: stripNetwork_def)
next
  case False
  then have "validateAsset_byCode cfg code (js_trim (to_upper code)) issuer = Inr (Inr v)"
    using assms(1) by (auto simp: validateAsset_def Let_def split: if_splits option.splits)
  from byCode_accepted [OF this] show ?thesis by blast
qed

theorem validateAsset_registered_witness:
  "\<exists>a \<in> set (SUPPORTED_ASSETS demo_money_config).
     stripNetwork a = \<lparr>va_code = ''USDC'', va_type = Issued, va_issuer = Some demo_issuer, va_name = ''USD Coin''\<rparr>"
proof -
  have "validateAsset (\<lambda>k. k = demo_issuer) demo_money_config '' usdc'' (Some demo_issuer) =
      Inr (Inr \<lparr>va_code = ''USDC'', va_type = Issued, va_issuer = Some demo_issuer, va_name = ''USD Coin''\<rparr>)"
    by code_simp
  then show ?thesis
    using validateAsset_registered [of "\<lambda>k. k = demo_issuer" demo_money_config "'' usdc''" "Some demo_issuer"]
    by (force simp: demo_issuer_def demo_money_config_def)
qed

text \<open>The support check can throw: for a registered asset of another network it raises
  \<^verbatim>\<open>INVALID_ASSET\<close> instead of returning false, although it is documented not to throw.\<close>

theorem isSupportedAsset_throws_off_network:
  assumes "STABLE_ASSET_ISSUER cfg \<noteq> []"
  shows "isSupportedAsset valid_key (cfg\<lparr>STELLAR_NETWORK := Some Testnet\<rparr>) ''USDC'' None
    = Inl (AppError 400 ''INVALID_ASSET'')"
proof -
  have "js_trim (to_upper ''USDC'') = ''USDC''" by code_simp
  then show ?thesis using assms
    by (simp add: isSupportedAsset_def validateAsset_def validateAsset_byCode_def byCode_entries truthy_def
        SUPPORTED_ASSETS_def accept_on_network_def assertNetwork_def)
qed

theorem isSupportedAsset_throws_off_network_witness:
  "isSupportedAsset (\<lambda>k. k = demo_issuer) (demo_money_config\<lparr>STELLAR_NETWORK := Some Testnet\<rparr>) ''USDC'' None
    = Inl (AppError 400 ''INVALID_ASSET'')"
  by (rule isSupportedAsset_throws_off_network) (simp add: demo_money_config_def demo_issuer_def)

end
