(* ===== verification/Money.thy ===== *)
theory Money
  imports Lib_Money
begin

text \<open>
  \<^verbatim>\<open>src/src/services/money.ts\<close> and \<^verbatim>\<open>src/src/utils/stellar-amount.ts\<close>: the signed amounts
  of the balance arithmetic, and the formatting helpers. The contract the settlement
  engine and the expense calculator rely on is the locale \<open>amount_codec\<close>, interpreted on
  \<open>fromStroops\<close> and \<open>toStroops\<close>.
\<close>

section \<open>services/money.ts\<close>

definition bigIntAbs :: "int \<Rightarrow> int" where
  "bigIntAbs v = (if v < 0 then - v else v)"

definition normalizeAmount :: "string \<Rightarrow> string res" where
  "normalizeAmount value =
     (case validateAmount value of
        Inl e \<Rightarrow> Inl (PlainError (message e))
      | Inr v \<Rightarrow> Inr (decimal v))"

definition validateUnsignedAmountAllowZero :: "string \<Rightarrow> validated_amount outcome" where
  "validateUnsignedAmountAllowZero value =
     (let trimmed = js_trim value in
      if trimmed \<noteq> value
      then Inl (ValidationError Whitespace_padding
             ''Amount must not have leading or trailing whitespace'')
      else if trimmed = [] then Inl (ValidationError Malformed ''Amount is required'')
      else if \<not> raw_decimal trimmed
      then Inl (ValidationError Malformed (quoted value @
             '' is not a valid decimal amount (no exponents, signs, or non-digits)''))
      else
        let (wholeRaw, fracRaw) = split_decimal trimmed in
        if 7 < length fracRaw
        then Inl (ValidationError Excess_precision
               (''Amount '' @ quoted value @ '' exceeds 7-decimal precision''))
        else
          let w0 = strip_leading0 wholeRaw;
              whole = (if w0 = [] then ''0'' else w0);
              paddedFrac = pad7 fracRaw;
              st = int (dec_val whole) * STROOPS_PER_UNIT + int (dec_val paddedFrac)
          in
          if st < 0 then Inl (ValidationError Zero_or_negative ''Amount must not be negative'')
          else if MAX_STROOPS < st
          then Inl (ValidationError Out_of_range
                 ''Amount exceeds the maximum representable Stellar value'')
          else
            let canonicalFrac = strip_trailing0 paddedFrac
            in Inr \<lparr>decimal = (if canonicalFrac = [] then whole
                               else whole @ ''.'' @ canonicalFrac),
                    stroops = st\<rparr>)"

definition toStroops :: "string \<Rightarrow> int res" where
  "toStroops amount =
     (let negative = (case amount of c # _ \<Rightarrow> c = CHR ''-'' | [] \<Rightarrow> False);
          unsigned = (if negative then tl amount else amount)
      in case validateUnsignedAmountAllowZero unsigned of
           Inl e \<Rightarrow> Inl (PlainError (message e))
         | Inr v \<Rightarrow> Inr (if negative then - stroops v else stroops v))"

text \<open>
  \<^verbatim>\<open>fromStroops(stroops: bigint | number | string)\<close>; \<open>fromStroops\<close> below is its \<^verbatim>\<open>bigint\<close>
  case, which every caller in the settlement code uses.
\<close>

datatype stroops_input = Stroops_bigint int | Stroops_number js_number | Stroops_string string

text \<open>\<^verbatim>\<open>Number.isSafeInteger\<close>, and \<^verbatim>\<open>BigInt(number)\<close>.\<close>

definition is_safe_integer :: "js_number \<Rightarrow> bool" where
  "is_safe_integer x =
     (case x of
        Fin q \<Rightarrow> of_int \<lfloor>q\<rfloor> = q \<and> \<bar>\<lfloor>q\<rfloor>\<bar> \<le> 2 ^ 53 - 1
      | _ \<Rightarrow> False)"

definition bigint_of_number :: "js_number \<Rightarrow> int res" where
  "bigint_of_number x =
     (case x of
        Fin q \<Rightarrow> if of_int \<lfloor>q\<rfloor> = q then Inr \<lfloor>q\<rfloor> else Inl RangeError
      | _ \<Rightarrow> Inl RangeError)"

definition read_stroops_input :: "stroops_input \<Rightarrow> int res" where
  "read_stroops_input i =
     (case i of
        Stroops_bigint n \<Rightarrow> Inr n
      | Stroops_number x \<Rightarrow>
          if \<not> is_safe_integer x then Inl (PlainError ''Stroop value must be an exact integer'')
          else bigint_of_number x
      | Stroops_string s \<Rightarrow>
          let ds = (case s of c # t \<Rightarrow> if c = CHR ''-'' then t else s | [] \<Rightarrow> s) in
          if ds = [] \<or> \<not> all_digits ds
          then Inl (PlainError ''Stroop value must be a canonical integer string'')
          else bigint_of_string s)"

definition fromStroops :: "int \<Rightarrow> string res" where
  "fromStroops value =
     (if MAX_STROOPS < bigIntAbs value
      then Inl (PlainError ''Stroop value is outside the supported Stellar range'')
      else Inr (lib_fromStroops value))"

definition fromStroops_input :: "stroops_input \<Rightarrow> string res" where
  "fromStroops_input i = res_bind (read_stroops_input i) fromStroops"

definition stroopsToStellarAmount :: "int \<Rightarrow> string" where
  "stroopsToStellarAmount n = lib_stroopsToStellarAmount n"

definition isPositive :: "string \<Rightarrow> bool" where
  "isPositive amount = (case normalizeAmount amount of Inl _ \<Rightarrow> False | Inr _ \<Rightarrow> True)"

definition addAmounts :: "string \<Rightarrow> string \<Rightarrow> string res" where
  "addAmounts left right = lib_addAmounts left right"

definition subtractAmounts :: "string \<Rightarrow> string \<Rightarrow> string res" where
  "subtractAmounts left right = lib_subtractAmounts left right"

definition compareAmounts :: "string \<Rightarrow> string \<Rightarrow> int res" where
  "compareAmounts left right = lib_compareAmounts left right"

text \<open>\<^verbatim>\<open>validateAsset\<close> of this module throws the validator's message.\<close>

definition validateAsset_or_throw ::
  "(string \<Rightarrow> bool) \<Rightarrow> money_config \<Rightarrow> string \<Rightarrow> string option \<Rightarrow> (string \<times> string option) res" where
  "validateAsset_or_throw valid_key cfg code issuer =
     res_bind (validateAsset valid_key cfg code issuer) (\<lambda>r.
       case r of Inl e \<Rightarrow> Inl (PlainError (message e))
       | Inr v \<Rightarrow> Inr (va_code v, va_issuer v))"

section \<open>utils/stellar-amount.ts\<close>

datatype stellar_input = Amount_string string | Amount_bigint int | Amount_number js_number

definition zero_spelling :: "string \<Rightarrow> bool" where
  "zero_spelling s = (s = ''0'' \<or> s = ''0.0'' \<or> s = ''0.0000000'')"

text \<open>\<^verbatim>\<open>parseStellarAmount\<close>, and the \<^verbatim>\<open>string\<close> branch of the two formatters.\<close>

definition parseStellarAmount :: "string \<Rightarrow> int res" where
  "parseStellarAmount amount =
     (if zero_spelling amount then Inr 0
      else case validateAmount amount of
             Inl e \<Rightarrow> Inl (PlainError (message e)) | Inr v \<Rightarrow> Inr (stroops v))"

definition read_stellar_input :: "stellar_input \<Rightarrow> int res" where
  "read_stellar_input a =
     (case a of
        Amount_bigint n \<Rightarrow> Inr n
      | Amount_number x \<Rightarrow>
          if \<not> is_safe_integer x
          then Inl (PlainError ''Number amount must be a safe integer representing stroops'')
          else bigint_of_number x
      | Amount_string s \<Rightarrow> parseStellarAmount s)"

definition in_stellar_range :: "int \<Rightarrow> int res" where
  "in_stellar_range n =
     (if n < 0 \<or> MAX_STROOPS < n then Inl (PlainError ''Amount out of valid Stellar range'')
      else Inr n)"

definition formatStellarAmount :: "stellar_input \<Rightarrow> string res" where
  "formatStellarAmount a =
     res_bind (read_stellar_input a) (\<lambda>n. res_bind (in_stellar_range n) (\<lambda>m.
       Inr (lib_stroopsToStellarAmount m)))"

definition formatStellarAmountHuman :: "stellar_input \<Rightarrow> string res" where
  "formatStellarAmountHuman a =
     res_bind (read_stellar_input a) (\<lambda>n. res_bind (in_stellar_range n) (\<lambda>m.
       Inr (lib_fromStroops m)))"

definition isValidStellarAmount :: "stellar_input \<Rightarrow> bool" where
  "isValidStellarAmount a = (case formatStellarAmount a of Inl _ \<Rightarrow> False | Inr _ \<Rightarrow> True)"

text \<open>The operand reading of the three arithmetic helpers, which does not validate.\<close>

definition operand_stroops :: "stellar_input \<Rightarrow> int res" where
  "operand_stroops a =
     (case a of Amount_bigint n \<Rightarrow> Inr n | Amount_number x \<Rightarrow> bigint_of_number x
      | Amount_string s \<Rightarrow> lib_toStroops s)"

definition addStellarAmounts :: "stellar_input \<Rightarrow> stellar_input \<Rightarrow> string res" where
  "addStellarAmounts a b =
     res_bind (operand_stroops a) (\<lambda>sa. res_bind (operand_stroops b) (\<lambda>sb.
       if MAX_STROOPS < sa + sb then Inl (PlainError ''Sum exceeds maximum Stellar amount'')
       else Inr (lib_fromStroops (sa + sb))))"

definition subtractStellarAmounts :: "stellar_input \<Rightarrow> stellar_input \<Rightarrow> string res" where
  "subtractStellarAmounts a b =
     res_bind (operand_stroops a) (\<lambda>sa. res_bind (operand_stroops b) (\<lambda>sb.
       if sa < sb then Inl (PlainError ''Amount cannot be negative'')
       else Inr (lib_fromStroops (sa - sb))))"

definition compareStellarAmounts :: "stellar_input \<Rightarrow> stellar_input \<Rightarrow> int res" where
  "compareStellarAmounts a b =
     res_bind (operand_stroops a) (\<lambda>sa. res_bind (operand_stroops b) (\<lambda>sb.
       Inr (if sa < sb then -1 else if sb < sa then 1 else 0)))"

section \<open>The signed codec\<close>

lemma bigIntAbs_eq [simp]: "bigIntAbs n = \<bar>n\<bar>"
  by (simp add: bigIntAbs_def)

lemma unsigned_denotes:
  assumes "denotes s n"
  shows "validateUnsignedAmountAllowZero s =
    (if MAX_STROOPS < int n
     then Inl (ValidationError Out_of_range ''Amount exceeds the maximum representable Stellar value'')
     else Inr \<lparr>decimal = lib_fromStroops (int n), stroops = int n\<rparr>)"
proof -
  obtain w f where p: "raw_decimal s" "split_decimal s = (w, f)" "length f \<le> 7" "all_digits w"
      "all_digits f" "w \<noteq> []" "n = dec_val w * 10 ^ 7 + dec_val (pad7 f)"
    using denotes_raw [OF assms] by blast
  have n: "int (dec_val w) * STROOPS_PER_UNIT + int (dec_val (pad7 f)) = int n"
    using p(7) by (simp add: STROOPS_PER_UNIT_def)
  have c: "(if strip_trailing0 (pad7 f) = [] then strip_leading0 w
      else strip_leading0 w @ ''.'' @ strip_trailing0 (pad7 f)) = lib_fromStroops (int n)"
    using canonical_parts [of w f] p by (simp add: print_parts_def Let_def)
  show ?thesis
    unfolding validateUnsignedAmountAllowZero_def Let_def
    using p(1-6) js_trim_raw_decimal [OF p(1)] n c
    by (simp add: strip_leading0_val split: if_splits)
qed

lemma unsigned_not_denotes:
  assumes "\<nexists>n. denotes s n"
  shows "\<exists>e. validateUnsignedAmountAllowZero s = Inl e"
proof (cases "raw_decimal s")
  case True
  obtain w f where wf: "split_decimal s = (w, f)" by force
  then have "\<not> length f \<le> 7" using assms denotes_parts(1) [OF True wf] by blast
  with True wf js_trim_raw_decimal [OF True] show ?thesis
    by (simp add: validateUnsignedAmountAllowZero_def Let_def)
next
  case False
  then show ?thesis by (simp add: validateUnsignedAmountAllowZero_def Let_def)
qed

lemma denotes_hd: "denotes s n \<Longrightarrow> s \<noteq> [] \<and> hd s \<noteq> CHR ''-''"
  by (induction rule: denotes.induct) (auto simp: hd_append neq_Nil_conv)

lemma unsigned_stroops:
  "(\<exists>v. validateUnsignedAmountAllowZero t = Inr v \<and> k = stroops v) \<longleftrightarrow>
   (\<exists>n. denotes t n \<and> int n \<le> MAX_STROOPS \<and> k = int n)"
proof (cases "\<exists>n. denotes t n")
  case True
  then obtain n where n: "denotes t n" by blast
  then have u: "\<And>m. denotes t m \<longleftrightarrow> m = n" using denotes_unique by blast
  show ?thesis unfolding unsigned_denotes [OF n] u by auto
next
  case False
  then show ?thesis using unsigned_not_denotes [of t] by auto
qed

lemma toStroops_shape:
  "toStroops s = Inr z \<longleftrightarrow>
     (if s \<noteq> [] \<and> hd s = CHR ''-''
      then \<exists>v. validateUnsignedAmountAllowZero (tl s) = Inr v \<and> - z = stroops v
      else \<exists>v. validateUnsignedAmountAllowZero s = Inr v \<and> z = stroops v)"
  by (cases s) (auto simp: toStroops_def split: sum.splits)

lemma toStroops_Inr_iff:
  "toStroops s = Inr z \<longleftrightarrow>
     (\<exists>n. int n \<le> MAX_STROOPS \<and>
        (denotes s n \<and> z = int n \<or> (\<exists>t. s = CHR ''-'' # t \<and> denotes t n \<and> z = - int n)))"
proof (cases "s \<noteq> [] \<and> hd s = CHR ''-''")
  case True
  then obtain t where t: "s = CHR ''-'' # t" by (cases s) auto
  have "\<And>n. \<not> denotes s n" using denotes_hd True by blast
  then show ?thesis using t by (auto simp: toStroops_shape unsigned_stroops)
next
  case False
  then show ?thesis unfolding toStroops_shape if_not_P [OF False] unsigned_stroops by auto
qed

lemma toStroops_fromStroops:
  assumes "\<bar>n\<bar> \<le> MAX_STROOPS"
  shows "toStroops (lib_fromStroops n) = Inr n"
proof (cases "0 \<le> n")
  case True
  then have "denotes (lib_fromStroops n) (nat n)" "int (nat n) \<le> MAX_STROOPS" "n = int (nat n)"
    using assms denotes_fromStroops [of "nat n"] by auto
  then show ?thesis unfolding toStroops_Inr_iff by blast
next
  case False
  then have "lib_fromStroops n = CHR ''-'' # lib_fromStroops (int (nat (- n)))"
    using lib_fromStroops_neg [of "nat (- n)"] by simp
  moreover have "denotes (lib_fromStroops (int (nat (- n)))) (nat (- n))"
    by (rule denotes_fromStroops)
  moreover have "int (nat (- n)) \<le> MAX_STROOPS" "n = - int (nat (- n))" using assms False by auto
  ultimately show ?thesis unfolding toStroops_Inr_iff by blast
qed

lemma toStroops_bound: "toStroops s = Inr z \<Longrightarrow> \<bar>z\<bar> \<le> MAX_STROOPS"
  by (auto simp: toStroops_Inr_iff)

section \<open>The contract of a money codec\<close>

text \<open>
  What a client of the money module may rely on: every amount within the bound has a
  spelling, an amount outside it has none, a spelling reads back as the amount it was
  printed from, and nothing outside the bound is ever read.
\<close>

locale amount_codec =
  fixes enc :: "int \<Rightarrow> 'e + string" and dec :: "string \<Rightarrow> 'f + int" and bound :: int
  assumes enc_total: "\<bar>n\<bar> \<le> bound \<Longrightarrow> \<exists>s. enc n = Inr s"
    and enc_range: "enc n = Inr s \<Longrightarrow> \<bar>n\<bar> \<le> bound"
    and dec_enc: "enc n = Inr s \<Longrightarrow> dec s = Inr n"
    and dec_range: "dec s = Inr n \<Longrightarrow> \<bar>n\<bar> \<le> bound"
begin

lemma enc_inj: "enc m = Inr s \<Longrightarrow> enc n = Inr s \<Longrightarrow> m = n"
  using dec_enc [of m s] dec_enc [of n s] by simp

lemma enc_dec: "dec s = Inr n \<Longrightarrow> \<exists>t. enc n = Inr t \<and> dec t = Inr n"
  using dec_range enc_total dec_enc by blast

lemma map_dec_enc: "map_res enc ns = Inr ss \<Longrightarrow> map_res dec ss = Inr ns"
  by (auto simp: map_res_Inr_iff list_all2_conv_all_nth dec_enc)

lemma map_enc_total: "(\<And>n. n \<in> set ns \<Longrightarrow> \<bar>n\<bar> \<le> bound) \<Longrightarrow> \<exists>ss. map_res enc ns = Inr ss"
proof (induction ns)
  case (Cons n ns)
  then obtain s ss where "enc n = Inr s" "map_res enc ns = Inr ss"
    using enc_total by (metis list.set_intros)
  then show ?case by simp
qed simp

text \<open>Rows printed one by one: every printed field reads back as the row's amount.\<close>

lemma print_rows:
  assumes "map_res (\<lambda>r. res_bind (enc (val r)) (\<lambda>s. Inr (mk r s))) rs = Inr out"
    and "\<And>r s. get (mk r s) = s"
  shows "map_res dec (map get out) = Inr (map val rs)"
    and "list_all2 (\<lambda>r x. x = mk r (get x)) rs out"
  using assms by (auto simp: map_res_Inr_iff list_all2_conv_all_nth res_simps)
    (metis (full_types) dec_enc nth_map)+

lemma print_rows_total:
  assumes "\<And>r. r \<in> set rs \<Longrightarrow> \<bar>val r\<bar> \<le> bound"
  shows "\<exists>out. map_res (\<lambda>r. res_bind (enc (val r)) (\<lambda>s. Inr (mk r s))) rs = Inr out"
  using assms
proof (induction rs)
  case (Cons r rs)
  then obtain s out where "enc (val r) = Inr s"
      "map_res (\<lambda>r. res_bind (enc (val r)) (\<lambda>s. Inr (mk r s))) rs = Inr out"
    using enc_total by (metis list.set_intros)
  then show ?case by simp
qed simp

lemma map_enc_range: "map_res enc ns = Inr ss \<Longrightarrow> n \<in> set ns \<Longrightarrow> \<bar>n\<bar> \<le> bound"
  by (auto simp: map_res_Inr_iff list_all2_conv_all_nth in_set_conv_nth dest: enc_range)

end

interpretation codec: amount_codec fromStroops toStroops MAX_STROOPS
proof unfold_locales
  show "\<exists>s. fromStroops n = Inr s" if "\<bar>n\<bar> \<le> MAX_STROOPS" for n
    using that by (simp add: fromStroops_def)
  show "\<bar>n\<bar> \<le> MAX_STROOPS" if "fromStroops n = Inr s" for n s
    using that by (simp add: fromStroops_def split: if_splits)
  show "toStroops s = Inr n" if "fromStroops n = Inr s" for n s
    using that by (auto simp: fromStroops_def toStroops_fromStroops split: if_splits)
qed (rule toStroops_bound)

section \<open>Properties\<close>

text \<open>C27. Signed amounts: \<open>toStroops\<close> reads exactly the denotations within plus or minus 2^63 - 1, with an
  optional minus sign, and \<open>fromStroops\<close> followed by \<open>toStroops\<close> is the identity on that range and
  the range error outside it.\<close>

theorem stroops_codec:
  "(toStroops s = Inr z \<longleftrightarrow>
      (\<exists>n. int n \<le> MAX_STROOPS \<and>
         (denotes s n \<and> z = int n \<or> (\<exists>t. s = CHR ''-'' # t \<and> denotes t n \<and> z = - int n))))
   \<and> res_bind (fromStroops n) toStroops
      = (if \<bar>n\<bar> \<le> MAX_STROOPS then Inr n
         else Inl (PlainError ''Stroop value is outside the supported Stellar range''))"
  using toStroops_Inr_iff toStroops_fromStroops [of n] by (simp add: fromStroops_def)

text \<open>Arithmetic on unsigned amount strings is exact: the sum and the difference print the exact
  stroop results (a negative difference is an error) and the comparison is that of the
  stroop values.\<close>

theorem amount_arithmetic_exact:
  assumes "denotes a m" and "denotes b n"
  shows "(\<exists>s. addAmounts a b = Inr s \<and> denotes s (m + n))
    \<and> (if n \<le> m then \<exists>d. subtractAmounts a b = Inr d \<and> denotes d (m - n)
       else subtractAmounts a b = Inl (PlainError ''Amount cannot be negative''))
    \<and> compareAmounts a b = Inr (if m < n then -1 else if n < m then 1 else 0)"
proof -
  note r = lib_toStroops_denotes [OF assms(1)] lib_toStroops_denotes [OF assms(2)]
  have "denotes (lib_fromStroops (int m + int n)) (m + n)"
    using denotes_fromStroops [of "m + n"] by simp
  moreover have "denotes (lib_fromStroops (int m - int n)) (m - n)" if "n \<le> m"
    using denotes_fromStroops [of "m - n"] that by (simp add: of_nat_diff)
  ultimately show ?thesis
    by (simp add: addAmounts_def lib_addAmounts_def subtractAmounts_def lib_subtractAmounts_def
        compareAmounts_def lib_compareAmounts_def r)
qed

theorem amount_arithmetic_exact_witness:
  "\<exists>s. addAmounts ''0.5'' ''12'' = Inr s \<and> denotes s 125000000"
proof -
  have "all_digits ''0''" "all_digits ''5''" "all_digits ''12''" by code_simp+
  then have "denotes (''0'' @ CHR ''.'' # ''5'') (dec_val ''0'' * 10 ^ 7 + dec_val ''5'' * 10 ^ (7 - length ''5''))"
    and "denotes ''12'' (dec_val ''12'' * 10 ^ 7)"
    by (intro den_frac den_whole; simp)+
  moreover have "dec_val ''0'' * 10 ^ 7 + dec_val ''5'' * 10 ^ (7 - length ''5'') = 5000000"
    "dec_val ''12'' * 10 ^ 7 = 120000000" by code_simp+
  ultimately have "denotes ''0.5'' 5000000" "denotes ''12'' 120000000" by simp_all
  from amount_arithmetic_exact [OF this] show ?thesis by simp
qed

text \<open>A defect of the unsigned arithmetic on negative amounts: the fraction is added to the
  negative whole part, so adding zero to minus one and a half yields minus one half.\<close>

theorem addAmounts_negative_defect:
  "addAmounts ''-1.5'' ''0'' = Inr ''-0.5'' \<and>
   addStellarAmounts (Amount_string ''-1.5'') (Amount_string ''0'') = Inr ''-0.5'' \<and>
   toStroops ''-1.5'' = Inr (-15000000)"
proof -
  have "addAmounts ''-1.5'' ''0'' = Inr ''-0.5''" by code_simp
  moreover have "addStellarAmounts (Amount_string ''-1.5'') (Amount_string ''0'') = Inr ''-0.5''" by code_simp
  moreover have "toStroops ''-1.5'' = Inr (-15000000)" by code_simp
  ultimately show ?thesis by blast
qed

text \<open>The two formatters accept the same inputs, namely those whose stroop value is in the Stellar
  range, and both outputs denote that value; the blockchain format always has exactly
  seven fraction digits.\<close>

theorem formatStellarAmount_exact:
  assumes "read_stellar_input a = Inr n"
  shows "if 0 \<le> n \<and> n \<le> MAX_STROOPS
    then isValidStellarAmount a
      \<and> (\<exists>w f. formatStellarAmount a = Inr (w @ CHR ''.'' # f) \<and> length f = 7 \<and> all_digits w \<and> all_digits f
             \<and> denotes (w @ CHR ''.'' # f) (nat n))
      \<and> (\<exists>h. formatStellarAmountHuman a = Inr h \<and> denotes h (nat n))
    else \<not> isValidStellarAmount a \<and> formatStellarAmountHuman a = Inl (PlainError ''Amount out of valid Stellar range'')"
proof (cases "0 \<le> n \<and> n \<le> MAX_STROOPS")
  case True
  let ?w = "nat_to_dec (nat n div 10 ^ 7)" and ?f = "pad_start0 7 (nat_to_dec (nat n mod 10 ^ 7))"
  have "lib_stroopsToStellarAmount n = ?w @ CHR ''.'' # ?f"
    using True magnitude_digits_nat [of "nat n"] by (simp add: lib_stroopsToStellarAmount_def)
  moreover have "length ?f = 7" by (intro length_pad_start0 length_nat_to_dec_le) auto
  moreover have "denotes (lib_stroopsToStellarAmount n) (nat n)" "denotes (lib_fromStroops n) (nat n)"
    using True denotes_stellarAmount [of "nat n"] denotes_fromStroops [of "nat n"] by simp_all
  ultimately have "\<exists>w f. lib_stroopsToStellarAmount n = w @ CHR ''.'' # f \<and> length f = 7 \<and> all_digits w
      \<and> all_digits f \<and> denotes (w @ CHR ''.'' # f) (nat n)"
    by (intro exI [of _ ?w] exI [of _ ?f]) simp
  with \<open>denotes (lib_fromStroops n) (nat n)\<close> show ?thesis using True assms
    by (auto simp: isValidStellarAmount_def formatStellarAmount_def formatStellarAmountHuman_def
        in_stellar_range_def)
next
  case False
  then show ?thesis using assms
    by (auto simp: isValidStellarAmount_def formatStellarAmount_def formatStellarAmountHuman_def
        in_stellar_range_def)
qed

theorem formatStellarAmount_exact_witness:
  "\<exists>w f. formatStellarAmount (Amount_string ''2.5'') = Inr (w @ CHR ''.'' # f) \<and> length f = 7"
proof -
  have "read_stellar_input (Amount_string ''2.5'') = Inr 25000000" by code_simp
  from formatStellarAmount_exact [OF this] show ?thesis by (auto simp: MAX_STROOPS_def)
qed

end
