(* ===== verification/Apportionment.thy ===== *)
theory Apportionment
  imports Money
begin

text \<open>
  The integer arithmetic of \<^verbatim>\<open>src/src/services/expense-calculation.ts\<close>: rounded division
  and the largest-remainder method, in the two forms the module uses it, splitting a total
  by weights (\<open>allocateByWeights\<close>) and converting a list of amounts at a rate
  (\<open>convertAllocations\<close>).

  Both routines meet one contract, \<open>apportioned\<close>: the results sum to the target exactly,
  every result is the floor of its exact quotient or one more, the extra one only where the
  quotient is not whole, and never for a smaller remainder than one that was passed over.
  The locale \<open>largest_remainder\<close> states that contract and derives from it what the clients
  rely on; both routines interpret it.
\<close>

section \<open>BigInt division\<close>

text \<open>\<^verbatim>\<open>/\<close> and \<^verbatim>\<open>%\<close> on \<^verbatim>\<open>bigint\<close> truncate towards zero.\<close>

definition bigint_div :: "int \<Rightarrow> int \<Rightarrow> int" where
  "bigint_div n d = sgn n * sgn d * (\<bar>n\<bar> div \<bar>d\<bar>)"

definition bigint_mod :: "int \<Rightarrow> int \<Rightarrow> int" where
  "bigint_mod n d = n - d * bigint_div n d"

lemma bigint_div_nonneg: "0 \<le> n \<Longrightarrow> 0 < d \<Longrightarrow> bigint_div n d = n div d"
  by (cases "n = 0") (auto simp: bigint_div_def)

lemma bigint_mod_nonneg: "0 \<le> n \<Longrightarrow> 0 < d \<Longrightarrow> bigint_mod n d = n mod d"
  by (simp add: bigint_mod_def bigint_div_nonneg minus_mult_div_eq_mod)

lemmas bigint_nonneg = bigint_div_nonneg bigint_mod_nonneg

section \<open>Rounded division\<close>

datatype rounding = Down | Up | Half_up

definition divideRounded :: "int \<Rightarrow> int \<Rightarrow> rounding \<Rightarrow> int" where
  "divideRounded numerator denominator r =
     (let quotient = bigint_div numerator denominator;
          remainder = bigint_mod numerator denominator
      in if remainder = 0 then quotient
         else case r of
           Down \<Rightarrow> quotient
         | Up \<Rightarrow> quotient + 1
         | Half_up \<Rightarrow> if denominator \<le> remainder * 2 then quotient + 1 else quotient)"

section \<open>The largest-remainder method\<close>

text \<open>
  The indices by descending remainder, ties in their original order. The comparator of the
  code is a total order on indices, so every sort gives this one list.
\<close>

definition remainder_order :: "int list \<Rightarrow> nat list" where
  "remainder_order remainders = sort_key (\<lambda>i. - (remainders ! i)) [0..<length remainders]"

fun hand_out :: "nat list \<Rightarrow> int list \<Rightarrow> int \<Rightarrow> int list" where
  "hand_out [] amounts remaining = amounts"
| "hand_out (index # order) amounts remaining =
     (if remaining = 0 then amounts
      else hand_out order (amounts[index := amounts ! index + 1]) (remaining - 1))"

definition allocateByWeights :: "int \<Rightarrow> int list \<Rightarrow> (int list \<times> int) res" where
  "allocateByWeights tot weights =
     (let weightSum = sum_list weights in
      if weightSum \<le> 0 then Inl (CalcError ''INVALID_SPLIT'')
      else if \<exists>weight \<in> set weights. weight < 0 then Inl (CalcError ''INVALID_SPLIT'')
      else
        let amounts = map (\<lambda>weight. bigint_div (tot * weight) weightSum) weights;
            remainders = map (\<lambda>weight. bigint_mod (tot * weight) weightSum) weights;
            distributed = tot - sum_list amounts
        in Inr (if 0 < distributed then hand_out (remainder_order remainders) amounts distributed
                else amounts,
                distributed))"

definition RATE_SCALE :: int where "RATE_SCALE = 10000000"

definition assertWithinStroopRange :: "int \<Rightarrow> string \<Rightarrow> unit res" where
  "assertWithinStroopRange amount code =
     (let magnitude = (if amount < 0 then - amount else amount) in
      if MAX_STROOPS < magnitude then Inl (CalcError code) else Inr ())"

definition convertAllocations :: "int list \<Rightarrow> int \<Rightarrow> int list res" where
  "convertAllocations amounts rate =
     (if amounts = [] then Inr []
      else
        let tot = sum_list amounts;
            targetTotal = bigint_div (tot * rate) RATE_SCALE
        in res_bind (assertWithinStroopRange targetTotal ''AMOUNT_OVERFLOW'') (\<lambda>_.
          let numerators = map (\<lambda>amount. amount * rate) amounts;
              converted = map (\<lambda>numerator. bigint_div numerator RATE_SCALE) numerators;
              remainders = map (\<lambda>numerator. bigint_mod numerator RATE_SCALE) numerators;
              residual = targetTotal - sum_list converted
          in Inr (if 0 < residual then hand_out (remainder_order remainders) converted residual
                  else converted)))"

section \<open>Rounding bounds\<close>

lemma divideRounded_bounds:
  assumes "0 \<le> n" "0 < d"
  shows "divideRounded n d Down = n div d"
    and "divideRounded n d Up = - ((- n) div d)"
    and "divideRounded n d Half_up = (2 * n + d) div (2 * d)"
proof -
  note d = div_mult_mod_eq [of n d]
  show "divideRounded n d Down = n div d"
    using assms by (simp add: divideRounded_def bigint_nonneg Let_def)
  show "divideRounded n d Up = - ((- n) div d)"
    using assms by (simp add: divideRounded_def bigint_nonneg Let_def zdiv_zminus1_eq_if)
  have r: "0 \<le> n mod d" "n mod d < d" using assms by simp_all
  have "(2 * n + d) div (2 * d) = n div d + (if d \<le> n mod d * 2 then 1 else 0)"
  proof (rule int_div_pos_eq)
    let ?k = "if d \<le> n mod d * 2 then 1 else (0::int)" and ?q = "n div d"
    have "2 * n = 2 * (?q * d) + 2 * (n mod d)" using d by linarith
    then have n: "n * 2 = 2 * (n mod d) + d * (2 * ?q)" by (simp only: ac_simps)
    show "2 * n + d = 2 * d * (?q + ?k) + (2 * (n mod d) + d - 2 * d * ?k)"
      using n by (simp add: algebra_simps del: div_mult_mod_eq mult_div_mod_eq)
    show "0 \<le> 2 * (n mod d) + d - 2 * d * ?k" "2 * (n mod d) + d - 2 * d * ?k < 2 * d"
      using r by auto
  qed
  then show "divideRounded n d Half_up = (2 * n + d) div (2 * d)"
    using assms r by (auto simp: divideRounded_def bigint_nonneg Let_def)
qed

section \<open>Handing out the tail\<close>

lemma hand_out_length [simp]: "length (hand_out order amounts r) = length amounts"
  by (induction order amounts r rule: hand_out.induct) auto

text \<open>The first \<open>r\<close> indices of the order receive one each.\<close>

lemma hand_out_nth:
  assumes "distinct order" "\<forall>i \<in> set order. i < length amounts" "0 \<le> r" "j < length amounts"
  shows "hand_out order amounts r ! j = amounts ! j + (if j \<in> set (take (nat r) order) then 1 else 0)"
  using assms
proof (induction order amounts r rule: hand_out.induct)
  case (2 i order amounts r)
  show ?case
  proof (cases "r = 0")
    case False
    then have "nat r = Suc (nat (r - 1))" using 2(4) by simp
    then show ?thesis using 2 False by (auto simp: nth_list_update dest: in_set_takeD)
  qed simp
qed simp

lemma sum_list_bump: "i < length xs \<Longrightarrow> sum_list (xs[i := xs ! i + 1]) = sum_list xs + (1 :: int)"
  by (induction xs arbitrary: i) (auto split: nat.splits)

lemma hand_out_sum:
  assumes "\<forall>i \<in> set order. i < length amounts" "0 \<le> r" "r \<le> int (length order)"
  shows "sum_list (hand_out order amounts r) = sum_list amounts + r"
  using assms
proof (induction order amounts r rule: hand_out.induct)
  case (2 i order amounts r)
  have i: "i < length amounts" using 2(2) by simp
  show ?case using 2 sum_list_bump [OF i] by (cases "r = 0") auto
qed simp

lemma remainder_order_set [simp]: "set (remainder_order rs) = {..<length rs}"
  by (auto simp: remainder_order_def)

lemma remainder_order_distinct [simp]: "distinct (remainder_order rs)"
  by (simp add: remainder_order_def)

lemma remainder_order_length [simp]: "length (remainder_order rs) = length rs"
  by (simp add: remainder_order_def)

lemma remainder_order_sorted: "sorted_wrt (\<lambda>i j. rs ! j \<le> rs ! i) (remainder_order rs)"
proof -
  have "sorted (map (\<lambda>i. - (rs ! i)) (remainder_order rs))" by (simp add: remainder_order_def)
  then show ?thesis by (simp add: sorted_map)
qed

text \<open>An index among the first \<open>k\<close> has at least the remainder of one that is not.\<close>

lemma remainder_order_take:
  assumes "i \<in> set (take k (remainder_order rs))" "j < length rs" "j \<notin> set (take k (remainder_order rs))"
  shows "rs ! j \<le> rs ! i"
proof -
  have "j \<in> set (drop k (remainder_order rs))"
    using assms(2,3) remainder_order_set [of rs] by (metis Un_iff append_take_drop_id lessThan_iff set_append)
  moreover have "sorted_wrt (\<lambda>i j. rs ! j \<le> rs ! i) (take k (remainder_order rs) @ drop k (remainder_order rs))"
    using remainder_order_sorted [of rs] by simp
  ultimately show ?thesis using assms(1) unfolding sorted_wrt_append by blast
qed

section \<open>The contract\<close>

definition apportioned :: "int \<Rightarrow> int list \<Rightarrow> int \<Rightarrow> int list \<Rightarrow> bool" where
  "apportioned d ns target out \<longleftrightarrow>
     length out = length ns \<and> sum_list out = target \<and>
     (\<forall>i < length ns. out ! i = ns ! i div d \<or> out ! i = ns ! i div d + 1 \<and> 0 < ns ! i mod d) \<and>
     (\<forall>i < length ns. \<forall>j < length ns.
        out ! i \<noteq> ns ! i div d \<longrightarrow> out ! j = ns ! j div d \<longrightarrow> ns ! j mod d \<le> ns ! i mod d)"

text \<open>The tail is the floored sum of the remainders, so it is smaller than the number of
  entries, and than the number of entries that have a remainder.\<close>

lemma sum_div_mod: "sum_list ns = d * sum_list (map (\<lambda>n. n div d) ns) + sum_list (map (\<lambda>n. n mod d) (ns :: int list))"
  by (induction ns) (simp_all add: algebra_simps)

lemma tail_eq:
  assumes "0 < (d :: int)"
  shows "sum_list ns div d - sum_list (map (\<lambda>n. n div d) ns) = sum_list (map (\<lambda>n. n mod d) ns) div d"
  using assms by (subst sum_div_mod [of ns d]) simp

lemma sum_mod_le:
  assumes "0 < (d :: int)"
  shows "sum_list (map (\<lambda>n. n mod d) ns) \<le> (d - 1) * int (card {i. i < length ns \<and> 0 < ns ! i mod d})"
proof (induction ns rule: rev_induct)
  case (snoc n ns)
  have eq: "{i. i < length (ns @ [n]) \<and> 0 < (ns @ [n]) ! i mod d} =
      {i. i < length ns \<and> 0 < ns ! i mod d} \<union> (if 0 < n mod d then {length ns} else {})"
    by (auto simp: nth_append less_Suc_eq)
  have "n mod d \<le> (if 0 < n mod d then d - 1 else 0)" using assms by (auto simp: not_less)
  with snoc show ?case unfolding eq by (auto simp: card_insert_if algebra_simps)
qed simp

lemma tail_less:
  assumes "0 < (d :: int)" "0 < k" "k = sum_list (map (\<lambda>n. n mod d) ns) div d"
  shows "k < int (card {i. i < length ns \<and> 0 < ns ! i mod d})"
proof -
  let ?c = "int (card {i. i < length ns \<and> 0 < ns ! i mod d})"
  have "k * d \<le> sum_list (map (\<lambda>n. n mod d) ns)"
    unfolding assms(3) using assms(1) by (metis div_mult_mod_eq le_add_same_cancel1 pos_mod_sign)
  also have "\<dots> \<le> (d - 1) * ?c" by (rule sum_mod_le [OF assms(1)])
  finally have "k * d \<le> d * ?c - ?c" by (simp add: algebra_simps)
  moreover have "0 < k * d" using assms by simp
  moreover have "0 \<le> ?c" by simp
  moreover have "k * d < d * c" if "k * d \<le> d * c - c" "0 < k * d" "0 \<le> c" for c
    using that by (cases "c = 0") auto
  ultimately have "k * d < d * ?c" by blast
  then show ?thesis using assms(1) by (simp add: mult.commute)
qed

lemma apportion:
  assumes "0 < d" and "target = sum_list ns div d"
    and "k = target - sum_list (map (\<lambda>n. n div d) ns)"
    and "out = (if 0 < k then hand_out (remainder_order (map (\<lambda>n. n mod d) ns)) (map (\<lambda>n. n div d) ns) k
                else map (\<lambda>n. n div d) ns)"
  shows "apportioned d ns target out" and "0 \<le> k" and "ns \<noteq> [] \<Longrightarrow> k < int (length ns)"
proof -
  let ?rs = "map (\<lambda>n. n mod d) ns" and ?fs = "map (\<lambda>n. n div d) ns"
  let ?pos = "{i. i < length ns \<and> 0 < ns ! i mod d}"
  have k: "k = sum_list ?rs div d" using assms(2,3) tail_eq [OF assms(1)] by simp
  have "0 \<le> sum_list ?rs" using assms(1) by (intro sum_list_nonneg) auto
  then show k0: "0 \<le> k" using k assms(1) by (simp add: pos_imp_zdiv_nonneg_iff)
  have "card ?pos \<le> card {..<length ns}" by (intro card_mono) auto
  then have less: "k < int (card ?pos)" "k < int (length ns)" if "0 < k"
    using tail_less [OF assms(1) that k] by auto
  then show "ns \<noteq> [] \<Longrightarrow> k < int (length ns)" using k0 by (cases "k = 0") auto
  let ?T = "set (take (nat k) (remainder_order ?rs))"
  have out: "out ! i = ns ! i div d + (if i \<in> ?T then 1 else 0)" if "i < length ns" for i
    using that k0 hand_out_nth [of "remainder_order ?rs" ?fs k i] unfolding assms(4) by auto
  have pos: "0 < ns ! i mod d" if "i \<in> ?T" for i
  proof (rule ccontr)
    assume "\<not> 0 < ns ! i mod d"
    moreover have "i < length ns" using that by (auto dest: in_set_takeD)
    ultimately have z: "ns ! i mod d = 0" using assms(1) by (simp add: order_less_le)
    have "?pos \<subseteq> ?T"
    proof
      fix j assume j: "j \<in> ?pos"
      show "j \<in> ?T"
        using remainder_order_take [OF that, of j] j z \<open>i < length ns\<close> by (cases "j \<in> ?T") auto
    qed
    then have "card ?pos \<le> card ?T" by (intro card_mono) auto
    also have "\<dots> \<le> nat k" using card_length [of "take (nat k) (remainder_order ?rs)"] by simp
    finally show False using less that k0 by (cases "k = 0") auto
  qed
  have "sum_list out = target"
    using hand_out_sum [of "remainder_order ?rs" ?fs k] k0 less assms(3) unfolding assms(4)
    by (cases "0 < k") auto
  moreover have "length out = length ns" unfolding assms(4) by simp
  moreover have "ns ! j mod d \<le> ns ! i mod d"
    if "i < length ns" "j < length ns" "out ! i \<noteq> ns ! i div d" "out ! j = ns ! j div d" for i j
    using remainder_order_take [of i "nat k" ?rs j] that out [of i] out [of j] by (auto split: if_splits)
  ultimately show "apportioned d ns target out"
    using out pos by (auto simp: apportioned_def)
qed

text \<open>What every largest-remainder routine gives its clients.\<close>

locale largest_remainder =
  fixes share_out :: "'p \<Rightarrow> int list \<Rightarrow> 'e + int list"
    and den :: "'p \<Rightarrow> int list \<Rightarrow> int" and num :: "'p \<Rightarrow> int list \<Rightarrow> int list"
    and target :: "'p \<Rightarrow> int list \<Rightarrow> int" and valid :: "'p \<Rightarrow> int list \<Rightarrow> bool"
  assumes contract: "valid p ws \<Longrightarrow> share_out p ws = Inr out \<Longrightarrow>
      apportioned (den p ws) (num p ws) (target p ws) out"
    and den_pos: "valid p ws \<Longrightarrow> 0 < den p ws"
begin

lemma exact: "valid p ws \<Longrightarrow> share_out p ws = Inr out \<Longrightarrow>
    sum_list out = target p ws \<and> length out = length (num p ws)"
  using contract by (simp add: apportioned_def)

lemma within_one:
  assumes "valid p ws" "share_out p ws = Inr out" "i < length (num p ws)"
  shows "\<bar>out ! i * den p ws - num p ws ! i\<bar> < den p ws"
proof -
  let ?d = "den p ws" and ?n = "num p ws ! i"
  have d: "0 < ?d" using den_pos assms(1) .
  have n: "?n = ?n div ?d * ?d + ?n mod ?d" "0 \<le> ?n mod ?d" "?n mod ?d < ?d" using d by auto
  from contract [OF assms(1,2)] assms(3)
  consider "out ! i = ?n div ?d" | "out ! i = ?n div ?d + 1" "0 < ?n mod ?d"
    by (auto simp: apportioned_def)
  then show ?thesis
  proof cases
    case 1
    have "out ! i * ?d - ?n = - (?n mod ?d)" unfolding 1 using n(1) by linarith
    then show ?thesis using n by simp
  next
    case 2
    have "out ! i * ?d - ?n = ?d - ?n mod ?d" unfolding 2(1) distrib_right using n(1) by linarith
    then show ?thesis using n 2 by simp
  qed
qed

lemma monotone:
  assumes "valid p ws" "share_out p ws = Inr out" "i < length (num p ws)" "j < length (num p ws)"
    and "num p ws ! j < num p ws ! i"
  shows "out ! j \<le> out ! i"
proof (rule ccontr)
  let ?d = "den p ws" and ?ni = "num p ws ! i" and ?nj = "num p ws ! j"
  assume neg: "\<not> out ! j \<le> out ! i"
  have c: "out ! i = ?ni div ?d \<or> out ! i = ?ni div ?d + 1" "out ! j = ?nj div ?d \<or> out ! j = ?nj div ?d + 1"
      "out ! j \<noteq> ?nj div ?d \<Longrightarrow> out ! i = ?ni div ?d \<Longrightarrow> ?ni mod ?d \<le> ?nj mod ?d"
    using contract [OF assms(1,2)] assms(3,4) by (auto simp: apportioned_def)
  have le: "?nj div ?d \<le> ?ni div ?d" using assms(5) den_pos [OF assms(1)] by (simp add: zdiv_mono1)
  with c(1,2) neg have eq: "?nj div ?d = ?ni div ?d" "out ! j = ?nj div ?d + 1" "out ! i = ?ni div ?d"
    by auto
  have "?nj mod ?d = ?nj - ?ni div ?d * ?d" "?ni mod ?d = ?ni - ?ni div ?d * ?d"
    using eq(1) minus_div_mult_eq_mod [of ?nj ?d] minus_div_mult_eq_mod [of ?ni ?d] by simp_all
  then have "?nj mod ?d < ?ni mod ?d" using assms(5) by linarith
  with c(3) eq show False by simp
qed

lemma equal_weights:
  assumes "valid p ws" "share_out p ws = Inr out" "i < length (num p ws)" "j < length (num p ws)"
    and "num p ws ! j = num p ws ! i"
  shows "\<bar>out ! i - out ! j\<bar> \<le> 1"
proof -
  have "out ! k = num p ws ! k div den p ws \<or> out ! k = num p ws ! k div den p ws + 1"
    if "k < length (num p ws)" for k
    using contract [OF assms(1,2)] that by (auto simp: apportioned_def)
  from this [OF assms(3)] this [OF assms(4)] show ?thesis unfolding assms(5) by auto
qed

lemma nonneg:
  assumes "valid p ws" "share_out p ws = Inr out" "i < length (num p ws)" "0 \<le> num p ws ! i"
  shows "0 \<le> out ! i"
proof -
  have "0 \<le> num p ws ! i div den p ws" using assms den_pos by (simp add: pos_imp_zdiv_nonneg_iff)
  then show ?thesis using contract [OF assms(1,2)] assms(3) by (auto simp: apportioned_def)
qed

end

section \<open>Both routines meet it\<close>

lemma allocateByWeights_apportions:
  assumes "0 \<le> t" "allocateByWeights t ws = Inr (out, k)"
  shows "apportioned (sum_list ws) (map (\<lambda>w. t * w) ws) t out" "0 \<le> k" "k < int (length ws)"
    "0 < sum_list ws" "\<forall>w \<in> set ws. 0 \<le> w"
proof -
  let ?W = "sum_list ws" and ?ns = "map (\<lambda>w. t * w) ws"
  show W: "0 < ?W" and ws: "\<forall>w \<in> set ws. 0 \<le> w"
    using assms(2) by (auto simp: allocateByWeights_def Let_def not_le not_less split: if_splits)
  then have ne: "?ns \<noteq> []" by auto
  have div: "map (\<lambda>w. bigint_div (t * w) ?W) ws = map (\<lambda>n. n div ?W) ?ns"
      "map (\<lambda>w. bigint_mod (t * w) ?W) ws = map (\<lambda>n. n mod ?W) ?ns"
    using W ws assms(1) by (auto simp: bigint_nonneg)
  have sum: "sum_list ?ns = t * ?W" by (simp add: sum_list_const_mult)
  have "t = sum_list ?ns div ?W" using W unfolding sum by simp
  moreover have "k = t - sum_list (map (\<lambda>n. n div ?W) ?ns)"
      "out = (if 0 < k then hand_out (remainder_order (map (\<lambda>n. n mod ?W) ?ns)) (map (\<lambda>n. n div ?W) ?ns) k
        else map (\<lambda>n. n div ?W) ?ns)"
    using assms(2) W ws unfolding allocateByWeights_def Let_def div
    by (auto simp: not_le not_less split: if_splits)
  ultimately show "apportioned ?W ?ns t out" "0 \<le> k" "k < int (length ws)"
    using apportion [OF W, of t ?ns k out] ne by auto
qed

lemma allocateByWeights_returns:
  assumes "0 < sum_list ws" "\<forall>w \<in> set ws. 0 \<le> w"
  shows "\<exists>out k. allocateByWeights t ws = Inr (out, k)"
  using assms by (auto simp: allocateByWeights_def Let_def not_less)

lemma convertAllocations_apportions:
  assumes "\<forall>a \<in> set amounts. 0 \<le> a" "0 \<le> rate" "convertAllocations amounts rate = Inr out"
  shows "apportioned RATE_SCALE (map (\<lambda>a. a * rate) amounts) ((sum_list amounts * rate) div RATE_SCALE) out"
proof (cases "amounts = []")
  case False
  let ?ns = "map (\<lambda>a. a * rate) amounts"
  have S: "0 < RATE_SCALE" by (simp add: RATE_SCALE_def)
  have nn: "0 \<le> sum_list amounts * rate" using assms(1,2) by (simp add: sum_list_nonneg)
  have div: "map (\<lambda>n. bigint_div n RATE_SCALE) ?ns = map (\<lambda>n. n div RATE_SCALE) ?ns"
      "map (\<lambda>n. bigint_mod n RATE_SCALE) ?ns = map (\<lambda>n. n mod RATE_SCALE) ?ns"
      "bigint_div (sum_list amounts * rate) RATE_SCALE = (sum_list amounts * rate) div RATE_SCALE"
    using S assms(1,2) nn by (auto simp: bigint_nonneg)
  have "(sum_list amounts * rate) div RATE_SCALE = sum_list ?ns div RATE_SCALE"
    by (simp add: sum_list_mult_const)
  moreover obtain k where "k = (sum_list amounts * rate) div RATE_SCALE - sum_list (map (\<lambda>n. n div RATE_SCALE) ?ns)"
      "out = (if 0 < k then hand_out (remainder_order (map (\<lambda>n. n mod RATE_SCALE) ?ns)) (map (\<lambda>n. n div RATE_SCALE) ?ns) k
        else map (\<lambda>n. n div RATE_SCALE) ?ns)"
    using assms(3) False unfolding convertAllocations_def Let_def div
    by (auto simp: res_simps split: if_splits)
  ultimately show ?thesis using apportion(1) [OF S] by blast
qed (use assms in \<open>simp add: convertAllocations_def apportioned_def\<close>)

interpretation by_weights: largest_remainder
  "\<lambda>t ws. res_bind (allocateByWeights t ws) (\<lambda>(out, _). Inr out)"
  "\<lambda>t ws. sum_list ws" "\<lambda>t ws. map (\<lambda>w. t * w) ws" "\<lambda>t ws. t"
  "\<lambda>t ws. 0 \<le> t \<and> 0 < sum_list ws"
  by unfold_locales (auto simp: res_simps dest: allocateByWeights_apportions(1))

interpretation by_rate: largest_remainder
  "\<lambda>rate amounts. convertAllocations amounts rate"
  "\<lambda>rate amounts. RATE_SCALE" "\<lambda>rate amounts. map (\<lambda>a. a * rate) amounts"
  "\<lambda>rate amounts. (sum_list amounts * rate) div RATE_SCALE"
  "\<lambda>rate amounts. 0 \<le> rate \<and> (\<forall>a \<in> set amounts. 0 \<le> a)"
proof unfold_locales
  show "0 < RATE_SCALE" by (simp add: RATE_SCALE_def)
qed (auto intro: convertAllocations_apportions)

section \<open>Properties\<close>

text \<open>C15. Splitting by weights always returns for non-negative weights with a positive sum, loses no
  stroop and invents none, leaves a tail smaller than the number of entries, gives everyone
  an amount less than one stroop away from the exact proportion, and never gives a heavier
  entry less than a lighter one.\<close>

theorem allocateByWeights_fair:
  assumes "0 \<le> t" and "\<forall>w \<in> set ws. 0 \<le> w" and "0 < sum_list ws"
  shows "\<exists>out k. allocateByWeights t ws = Inr (out, k)
    \<and> sum_list out = t \<and> length out = length ws \<and> 0 \<le> k \<and> k < int (length ws)
    \<and> (\<forall>i < length ws. 0 \<le> out ! i \<and> \<bar>out ! i * sum_list ws - t * ws ! i\<bar> < sum_list ws)
    \<and> (\<forall>i < length ws. \<forall>j < length ws. ws ! j < ws ! i \<longrightarrow> 0 < t \<longrightarrow> out ! j \<le> out ! i)"
proof -
  obtain out k where a: "allocateByWeights t ws = Inr (out, k)"
    using allocateByWeights_returns [OF assms(3,2)] by blast
  then have o: "res_bind (allocateByWeights t ws) (\<lambda>(out, _). Inr out) = Inr out" by simp
  have v: "0 \<le> t \<and> 0 < sum_list ws" using assms by simp
  have "0 \<le> out ! i \<and> \<bar>out ! i * sum_list ws - t * ws ! i\<bar> < sum_list ws" if "i < length ws" for i
    using by_weights.nonneg [OF v o, of i] by_weights.within_one [OF v o, of i] that assms by simp
  moreover have "out ! j \<le> out ! i" if "i < length ws" "j < length ws" "ws ! j < ws ! i" "0 < t" for i j
    using by_weights.monotone [OF v o, of i j] that by simp
  ultimately show ?thesis
    using a by_weights.exact [OF v o] allocateByWeights_apportions(2,3) [OF assms(1) a] by auto
qed

theorem allocateByWeights_fair_witness:
  "\<exists>out k. allocateByWeights 100 [1, 1, 1] = Inr (out, k) \<and> sum_list out = 100"
  using allocateByWeights_fair [of 100 "[1, 1, 1]"] by auto

text \<open>Converting a list of amounts at a rate keeps the floored converted total exactly, and every
  converted entry is less than one stroop away from its exact conversion.\<close>

theorem convertAllocations_preserves_total:
  assumes "\<forall>a \<in> set amounts. 0 \<le> a" and "0 \<le> rate" and "convertAllocations amounts rate = Inr out"
  shows "length out = length amounts \<and> sum_list out = (sum_list amounts * rate) div RATE_SCALE
    \<and> (\<forall>i < length amounts. 0 \<le> out ! i \<and> \<bar>out ! i * RATE_SCALE - amounts ! i * rate\<bar> < RATE_SCALE)"
proof -
  have v: "0 \<le> rate \<and> (\<forall>a \<in> set amounts. 0 \<le> a)" using assms by simp
  show ?thesis
    using by_rate.exact [OF v assms(3)] by_rate.within_one [OF v assms(3)] by_rate.nonneg [OF v assms(3)] v
    by simp
qed

theorem convertAllocations_preserves_total_witness:
  "\<exists>out. convertAllocations [5, 5, 5] 1000000 = Inr out \<and> sum_list out = 1"
proof -
  have c: "convertAllocations [5, 5, 5] 1000000 = Inr [1, 0, 0]" by code_simp
  show ?thesis using convertAllocations_preserves_total [OF _ _ c] c by (simp add: RATE_SCALE_def)
qed

end
