(* ===== verification/Settlement_Engine.thy ===== *)
theory Settlement_Engine
  imports Money
begin

text \<open>
  \<^verbatim>\<open>src/src/services/settlement.ts\<close>: splitting an expense, net balances of a group (per
  asset), and the greedy settle-up suggestions. Amounts enter and leave as decimal strings
  and are stroops in between. \<^verbatim>\<open>Array.prototype.sort\<close> with the comparator of
  \<^verbatim>\<open>suggestSettlements\<close> (which never answers "equal") leaves the order of ties to the
  implementation, so the sort is a parameter, constrained by the locale \<open>desc_sort\<close>.
\<close>

section \<open>Types\<close>

datatype split_type = Equal | Custom | Percentage

record share_input =
  si_userId :: string
  si_amount :: "string option"
  si_percent :: "js_number option"

record computed_share =
  cs_userId :: string
  cs_shareAmount :: string

record balance_share =
  bs_payerUserId :: string
  bs_userId :: string
  bs_shareAmount :: string
  bs_settled :: bool

record balance_settlement =
  bt_fromUserId :: string
  bt_toUserId :: string
  bt_amount :: string
  bt_confirmed :: bool

record net_balance =
  nb_userId :: string
  nb_net :: string

record suggestion =
  sg_fromUserId :: string
  sg_toUserId :: string
  sg_amount :: string

section \<open>Splitting an expense\<close>

text \<open>The first participant absorbs the rounding remainder.\<close>

definition fixRemainder_stroops :: "(string \<times> int) list \<Rightarrow> int \<Rightarrow> (string \<times> int) list" where
  "fixRemainder_stroops computed tot =
     (let remainder = tot - sum_list (map snd computed) in
      case computed of [] \<Rightarrow> [] | (u, n) # cs \<Rightarrow> (u, n + remainder) # cs)"

definition print_shares :: "(string \<times> int) list \<Rightarrow> computed_share list res" where
  "print_shares cs =
     map_res (\<lambda>(u, n). res_bind (fromStroops n) (\<lambda>s. Inr \<lparr>cs_userId = u, cs_shareAmount = s\<rparr>)) cs"

definition fixRemainder :: "(string \<times> int) list \<Rightarrow> int \<Rightarrow> computed_share list res" where
  "fixRemainder computed tot = print_shares (fixRemainder_stroops computed tot)"

definition custom_stroops :: "share_input \<Rightarrow> (string \<times> int) res" where
  "custom_stroops s =
     (case si_amount s of
        None \<Rightarrow> Inl (EngineError ''INVALID_SPLIT_SUM'')
      | Some a \<Rightarrow> res_bind (toStroops a) (\<lambda>n. Inr (si_userId s, n)))"

text \<open>The running sum of the percentages, in double arithmetic.\<close>

definition percent_total :: "share_input list \<Rightarrow> js_number res" where
  "percent_total shares =
     fold_res (\<lambda>s acc. case si_percent s of
         None \<Rightarrow> Inl (EngineError ''INVALID_SPLIT_PERCENT'')
       | Some p \<Rightarrow> Inr (js_add acc p)) shares (Fin 0)"

definition percent_tolerance :: rat where
  "percent_tolerance = 1152921504606847 / 1152921504606846976" \<comment> \<open>the double \<^verbatim>\<open>0.001\<close>\<close>

definition percent_stroops :: "int \<Rightarrow> share_input \<Rightarrow> (string \<times> int) res" where
  "percent_stroops tot s =
     (let p = (case si_percent s of None \<Rightarrow> Fin 0 | Some p \<Rightarrow> p) in
      res_bind (bigint_of_number (js_round (js_scale 1000 p))) (\<lambda>pctMilli.
        let num = tot * pctMilli
        in Inr (si_userId s, sgn num * (\<bar>num\<bar> div 100000))))"

definition computeShares :: "string \<Rightarrow> split_type \<Rightarrow> share_input list \<Rightarrow> computed_share list res" where
  "computeShares amount splitType shares =
     (if shares = [] then Inl (EngineError ''INVALID_SPLIT_PARTICIPANT'')
      else res_bind (toStroops amount) (\<lambda>tot.
        if tot \<le> 0 then Inl (EngineError ''INVALID_SPLIT_AMOUNT'')
        else case splitType of
          Custom \<Rightarrow>
            res_bind (map_res custom_stroops shares) (\<lambda>computed.
              let sum = sum_list (map snd computed) in
              if sum \<noteq> tot
              then res_bind (fromStroops sum) (\<lambda>_. Inl (EngineError ''INVALID_SPLIT_SUM''))
              else print_shares computed)
        | Percentage \<Rightarrow>
            res_bind (percent_total shares) (\<lambda>pctTotal.
              if js_gt (js_abs (js_sub pctTotal (Fin 100))) percent_tolerance
              then Inl (EngineError ''INVALID_SPLIT_PERCENT'')
              else res_bind (map_res (percent_stroops tot) shares) (\<lambda>computed.
                fixRemainder computed tot))
        | Equal \<Rightarrow>
            (let base = tot div int (length shares) in
             fixRemainder (map (\<lambda>s. (si_userId s, base)) shares) tot)))"

section \<open>Net balances\<close>

type_synonym net_map = "(string \<times> int) list"

text \<open>The balance of a user in a net map; a user not in the map has zero.\<close>

definition net_of :: "net_map \<Rightarrow> string \<Rightarrow> int" where
  "net_of m u = (case map_of m u of None \<Rightarrow> 0 | Some n \<Rightarrow> n)"

definition net_add :: "string \<Rightarrow> int \<Rightarrow> net_map \<Rightarrow> net_map" where
  "net_add u delta m = AList.update u (net_of m u + delta) m"

definition add_share :: "balance_share \<Rightarrow> net_map \<Rightarrow> net_map res" where
  "add_share s m =
     (if bs_settled s then Inr m
      else if bs_userId s = bs_payerUserId s then Inr m
      else res_bind (toStroops (bs_shareAmount s)) (\<lambda>amt.
        Inr (net_add (bs_userId s) (- amt) (net_add (bs_payerUserId s) amt m))))"

definition add_settlement :: "balance_settlement \<Rightarrow> net_map \<Rightarrow> net_map res" where
  "add_settlement st m =
     (if \<not> bt_confirmed st then Inr m
      else res_bind (toStroops (bt_amount st)) (\<lambda>amt.
        Inr (net_add (bt_toUserId st) (- amt) (net_add (bt_fromUserId st) amt m))))"

definition net_stroops :: "balance_share list \<Rightarrow> balance_settlement list \<Rightarrow> net_map res" where
  "net_stroops shares settlements =
     res_bind (fold_res add_share shares []) (\<lambda>m. fold_res add_settlement settlements m)"

definition print_balances :: "net_map \<Rightarrow> net_balance list res" where
  "print_balances m =
     map_res (\<lambda>(u, n). res_bind (fromStroops n) (\<lambda>s. Inr \<lparr>nb_userId = u, nb_net = s\<rparr>)) m"

definition computeNetBalances ::
  "balance_share list \<Rightarrow> balance_settlement list \<Rightarrow> net_balance list res" where
  "computeNetBalances shares settlements = res_bind (net_stroops shares settlements) print_balances"

section \<open>Net balances per asset\<close>

definition balanceAssetKey :: "string \<Rightarrow> string option \<Rightarrow> string" where
  "balanceAssetKey assetCode assetIssuer = to_upper assetCode @ ''::'' @ issuer_or_empty assetIssuer"

type_synonym asset_id = "string \<times> string option"

record asset_group =
  ag_assetCode :: string
  ag_assetIssuer :: "string option"
  ag_shares :: "balance_share list"
  ag_settlements :: "balance_settlement list"

type_synonym group_map = "(string \<times> asset_group) list"

text \<open>\<open>supported\<close> is \<^verbatim>\<open>isSupportedAsset\<close>, which may itself throw.\<close>

definition assertSupportedSettlementAsset ::
  "(string \<Rightarrow> string option \<Rightarrow> bool res) \<Rightarrow> string \<Rightarrow> string option \<Rightarrow> unit res" where
  "assertSupportedSettlementAsset supported code issuer =
     res_bind (supported code issuer) (\<lambda>ok.
       if \<not> ok then Inl (EngineError ''UNSUPPORTED_ASSET'') else Inr ())"

definition groupFor ::
  "(string \<Rightarrow> string option \<Rightarrow> bool res) \<Rightarrow> string \<Rightarrow> string option \<Rightarrow> group_map
     \<Rightarrow> (string \<times> asset_group \<times> group_map) res" where
  "groupFor supported code issuer groups =
     res_bind (assertSupportedSettlementAsset supported code issuer) (\<lambda>_.
       let key = balanceAssetKey code issuer in
       case map_of groups key of
         Some g \<Rightarrow> Inr (key, g, groups)
       | None \<Rightarrow>
           let g = \<lparr>ag_assetCode = code, ag_assetIssuer = issuer, ag_shares = [], ag_settlements = []\<rparr>
           in Inr (key, g, AList.update key g groups))"

definition push_share ::
  "(string \<Rightarrow> string option \<Rightarrow> bool res) \<Rightarrow> asset_id \<times> balance_share \<Rightarrow> group_map \<Rightarrow> group_map res" where
  "push_share supported r groups =
     res_bind (groupFor supported (fst (fst r)) (snd (fst r)) groups) (\<lambda>(key, g, gs).
       Inr (AList.update key (g\<lparr>ag_shares := ag_shares g @ [snd r]\<rparr>) gs))"

definition push_settlement ::
  "(string \<Rightarrow> string option \<Rightarrow> bool res) \<Rightarrow> asset_id \<times> balance_settlement \<Rightarrow> group_map \<Rightarrow> group_map res" where
  "push_settlement supported r groups =
     res_bind (groupFor supported (fst (fst r)) (snd (fst r)) groups) (\<lambda>(key, g, gs).
       Inr (AList.update key (g\<lparr>ag_settlements := ag_settlements g @ [snd r]\<rparr>) gs))"

record asset_net_balances =
  an_assetCode :: string
  an_assetIssuer :: "string option"
  an_balances :: "net_balance list"

definition asset_groups ::
  "(string \<Rightarrow> string option \<Rightarrow> bool res) \<Rightarrow> (asset_id \<times> balance_share) list
     \<Rightarrow> (asset_id \<times> balance_settlement) list \<Rightarrow> group_map res" where
  "asset_groups supported shares settlements =
     res_bind (fold_res (push_share supported) shares [])
       (fold_res (push_settlement supported) settlements)"

definition computeNetBalancesByAsset ::
  "(string \<Rightarrow> string option \<Rightarrow> bool res) \<Rightarrow> (asset_id \<times> balance_share) list
     \<Rightarrow> (asset_id \<times> balance_settlement) list \<Rightarrow> asset_net_balances list res" where
  "computeNetBalancesByAsset supported shares settlements =
     res_bind (asset_groups supported shares settlements) (\<lambda>groups.
     res_bind (map_res (\<lambda>(_, g). res_bind (computeNetBalances (ag_shares g) (ag_settlements g)) (\<lambda>b.
         Inr \<lparr>an_assetCode = ag_assetCode g, an_assetIssuer = ag_assetIssuer g, an_balances = b\<rparr>))
       groups) (\<lambda>sheets. Inr (filter (\<lambda>a. 0 < length (an_balances a)) sheets)))"

section \<open>Settle-up suggestions\<close>

type_synonym party = "string \<times> int"

text \<open>Debtors (with the magnitude of their debt) and creditors, in the order of the balances.\<close>

definition classify_balance :: "net_balance \<Rightarrow> party list \<times> party list \<Rightarrow> (party list \<times> party list) res" where
  "classify_balance b dc =
     res_bind (toStroops (nb_net b)) (\<lambda>n.
       Inr (if n < 0 then (fst dc @ [(nb_userId b, - n)], snd dc)
            else if 0 < n then (fst dc, snd dc @ [(nb_userId b, n)])
            else dc))"

text \<open>The matching loop: \<open>i\<close> and \<open>j\<close> advance past parties whose amount is used up.\<close>

function match_debts :: "party list \<Rightarrow> party list \<Rightarrow> (string \<times> string \<times> int) list" where
  "match_debts [] cs = []"
| "match_debts (d # ds) [] = []"
| "match_debts ((du, da) # ds) ((cu, ca) # cs) =
     (let transfer = (if da < ca then da else ca);
          rest = match_debts (if da - transfer = 0 then ds else (du, da - transfer) # ds)
                             (if ca - transfer = 0 then cs else (cu, ca - transfer) # cs)
      in if 0 < transfer then (du, cu, transfer) # rest else rest)"
  by pat_completeness auto
termination
  by (relation "measure (\<lambda>(ds, cs). length ds + length cs)") (auto simp: Let_def)

definition print_suggestions :: "(string \<times> string \<times> int) list \<Rightarrow> suggestion list res" where
  "print_suggestions ts =
     map_res (\<lambda>(d, c, n). res_bind (fromStroops n) (\<lambda>s.
       Inr \<lparr>sg_fromUserId = d, sg_toUserId = c, sg_amount = s\<rparr>)) ts"

definition suggestSettlements ::
  "(party list \<Rightarrow> party list) \<Rightarrow> net_balance list \<Rightarrow> suggestion list res" where
  "suggestSettlements sort_desc balances =
     res_bind (fold_res classify_balance balances ([], [])) (\<lambda>(debtors, creditors).
       print_suggestions (match_debts (sort_desc debtors) (sort_desc creditors)))"

definition calculateSimplifiedDebts ::
  "(party list \<Rightarrow> party list) \<Rightarrow> net_balance list \<Rightarrow> suggestion list res" where
  "calculateSimplifiedDebts = suggestSettlements"

definition isAllSettled :: "net_balance list \<Rightarrow> bool res" where
  "isAllSettled balances =
     fold_res (\<lambda>b ok. if \<not> ok then Inr False
       else res_bind (toStroops (nb_net b)) (\<lambda>n. Inr (bigIntAbs n = 0))) balances True"

section \<open>Splits are exact\<close>

lemma print_shares_Inr:
  assumes "print_shares cs = Inr out"
  shows "map_res toStroops (map cs_shareAmount out) = Inr (map snd cs)"
    and "map cs_userId out = map fst cs"
proof -
  let ?mk = "\<lambda>r s. \<lparr>cs_userId = fst r, cs_shareAmount = s\<rparr>"
  have p: "map_res (\<lambda>r. res_bind (fromStroops (snd r)) (\<lambda>s. Inr (?mk r s))) cs = Inr out"
    using assms by (simp add: print_shares_def split_def)
  show "map_res toStroops (map cs_shareAmount out) = Inr (map snd cs)"
    by (rule codec.print_rows(1) [OF p]) simp
  have "list_all2 (\<lambda>r x. x = ?mk r (cs_shareAmount x)) cs out"
    by (rule codec.print_rows(2) [OF p]) simp
  then show "map cs_userId out = map fst cs"
    by (induction rule: list_all2_induct) (auto, metis computed_share.select_convs(1))
qed

lemma print_shares_total:
  "(\<And>c. c \<in> set cs \<Longrightarrow> \<bar>snd c\<bar> \<le> MAX_STROOPS) \<Longrightarrow> \<exists>out. print_shares cs = Inr out"
  using codec.print_rows_total [of cs snd "\<lambda>r s. \<lparr>cs_userId = fst r, cs_shareAmount = s\<rparr>"]
  by (simp add: print_shares_def split_def)

lemma fixRemainder_sum: "cs \<noteq> [] \<Longrightarrow> sum_list (map snd (fixRemainder_stroops cs t)) = t"
  by (cases cs) (auto simp: fixRemainder_stroops_def Let_def split: prod.splits)

lemma fixRemainder_users: "map fst (fixRemainder_stroops cs t) = map fst cs"
  by (cases cs) (auto simp: fixRemainder_stroops_def Let_def split: prod.splits)

lemma map_res_fst:
  assumes "map_res f xs = Inr ys" and "\<And>x y. f x = Inr y \<Longrightarrow> fst y = g x"
  shows "map fst ys = map g xs"
  using assms(1) by (induction xs arbitrary: ys) (auto simp: res_simps dest!: assms(2))

lemma custom_stroops_user: "custom_stroops s = Inr y \<Longrightarrow> fst y = si_userId s"
  by (auto simp: custom_stroops_def res_simps split: option.splits)

lemma percent_stroops_user: "percent_stroops t s = Inr y \<Longrightarrow> fst y = si_userId s"
  by (auto simp: percent_stroops_def Let_def res_simps)

text \<open>Every successful split prints one list of stroops that sums to the total.\<close>

lemma computeShares_stroops:
  assumes "computeShares amount st shares = Inr out"
  obtains t ns where "toStroops amount = Inr t" "0 < t" "print_shares ns = Inr out"
    "sum_list (map snd ns) = t" "map fst ns = map si_userId shares"
proof -
  from assms obtain t where t: "toStroops amount = Inr t" "0 < t" and ne: "shares \<noteq> []"
    by (auto simp: computeShares_def res_simps split: if_splits)
  show thesis
  proof (cases st)
    case Equal
    let ?ns = "fixRemainder_stroops (map (\<lambda>s. (si_userId s, t div int (length shares))) shares) t"
    have "print_shares ?ns = Inr out"
      using assms t ne Equal by (simp add: computeShares_def fixRemainder_def Let_def)
    moreover have "map fst ?ns = map si_userId shares" by (simp add: fixRemainder_users)
    ultimately show thesis using that t ne fixRemainder_sum by simp
  next
    case Custom
    then obtain ns where ns: "map_res custom_stroops shares = Inr ns" "sum_list (map snd ns) = t"
        "print_shares ns = Inr out"
      using assms t ne by (auto simp: computeShares_def res_simps Let_def split: if_splits)
    then show thesis using that t map_res_fst [OF ns(1), of si_userId] custom_stroops_user by blast
  next
    case Percentage
    then obtain cs where cs: "map_res (percent_stroops t) shares = Inr cs"
        "print_shares (fixRemainder_stroops cs t) = Inr out"
      using assms t ne by (auto simp: computeShares_def fixRemainder_def res_simps split: if_splits)
    have "cs \<noteq> []" using map_res_length [OF cs(1)] ne by auto
    then show thesis
      using that t cs(2) fixRemainder_sum fixRemainder_users map_res_fst [OF cs(1), of si_userId]
        percent_stroops_user by metis
  qed
qed

section \<open>Net balances sum to zero and follow the ledger\<close>

lemma net_of_add [simp]: "net_of (net_add u d m) v = net_of m v + (if v = u then d else 0)"
  by (simp add: net_of_def net_add_def update_conv')

lemma net_of_Nil [simp]: "net_of [] u = 0"
  by (simp add: net_of_def)

lemma distinct_net_add: "distinct (map fst m) \<Longrightarrow> distinct (map fst (net_add u d m))"
  by (simp add: net_add_def distinct_update)

lemma sum_update:
  "distinct (map fst m) \<Longrightarrow>
     sum_list (map snd (AList.update u x m)) = sum_list (map snd m) - net_of m u + (x :: int)"
proof (induction m)
  case (Cons p m)
  then show ?case
    by (cases p) (auto simp: net_of_def dest: weak_map_of_SomeI split: option.splits)
qed (simp add: net_of_def)

lemma sum_net_add:
  "distinct (map fst m) \<Longrightarrow> sum_list (map snd (net_add u d m)) = sum_list (map snd m) + d"
  by (simp add: net_add_def sum_update)

text \<open>What one row contributes to the balance of a user, in stroops.\<close>

definition stroops_of :: "string \<Rightarrow> int" where
  "stroops_of s = (case toStroops s of Inl _ \<Rightarrow> 0 | Inr n \<Rightarrow> n)"

definition share_effect :: "string \<Rightarrow> balance_share \<Rightarrow> int" where
  "share_effect u s =
     (if bs_settled s \<or> bs_userId s = bs_payerUserId s then 0
      else (if u = bs_payerUserId s then stroops_of (bs_shareAmount s) else 0)
         - (if u = bs_userId s then stroops_of (bs_shareAmount s) else 0))"

definition settlement_effect :: "string \<Rightarrow> balance_settlement \<Rightarrow> int" where
  "settlement_effect u t =
     (if \<not> bt_confirmed t then 0
      else (if u = bt_fromUserId t then stroops_of (bt_amount t) else 0)
         - (if u = bt_toUserId t then stroops_of (bt_amount t) else 0))"

text \<open>The specification: the balance of a user is the sum of what every row contributes.\<close>

definition ledger_net :: "balance_share list \<Rightarrow> balance_settlement list \<Rightarrow> string \<Rightarrow> int" where
  "ledger_net shares settlements u =
     sum_list (map (share_effect u) shares) + sum_list (map (settlement_effect u) settlements)"

lemma add_share_effect: "add_share s m = Inr m' \<Longrightarrow> net_of m' u = net_of m u + share_effect u s"
  by (auto simp: add_share_def share_effect_def stroops_of_def res_simps split: if_splits)

lemma add_settlement_effect:
  "add_settlement t m = Inr m' \<Longrightarrow> net_of m' u = net_of m u + settlement_effect u t"
  by (auto simp: add_settlement_def settlement_effect_def stroops_of_def res_simps split: if_splits)

lemma fold_effect:
  assumes "fold_res f xs m = Inr m'" and "\<And>x m m'. f x m = Inr m' \<Longrightarrow> net_of m' u = net_of m u + eff x"
  shows "net_of m' u = net_of m u + sum_list (map eff xs)"
  using assms(1)
proof (induction xs arbitrary: m)
  case (Cons x xs)
  then obtain k where k: "f x m = Inr k" "fold_res f xs k = Inr m'" by (auto simp: res_simps)
  then show ?case using Cons.IH [of k] assms(2) [OF k(1)] by simp
qed simp

lemma net_stroops_ledger: "net_stroops shares settlements = Inr m \<Longrightarrow> net_of m u = ledger_net shares settlements u"
proof -
  assume "net_stroops shares settlements = Inr m"
  then obtain k where k: "fold_res add_share shares [] = Inr k"
      "fold_res add_settlement settlements k = Inr m"
    by (auto simp: net_stroops_def res_simps)
  have "net_of k u = net_of [] u + sum_list (map (share_effect u) shares)"
    by (rule fold_effect [OF k(1)]) (rule add_share_effect)
  moreover have "net_of m u = net_of k u + sum_list (map (settlement_effect u) settlements)"
    by (rule fold_effect [OF k(2)]) (rule add_settlement_effect)
  ultimately show ?thesis by (simp add: ledger_net_def)
qed

definition balanced_map :: "net_map \<Rightarrow> bool" where
  "balanced_map m \<longleftrightarrow> distinct (map fst m) \<and> sum_list (map snd m) = 0"

lemma add_share_balanced: "add_share s m = Inr m' \<Longrightarrow> balanced_map m \<Longrightarrow> balanced_map m'"
  by (auto simp: add_share_def balanced_map_def res_simps sum_net_add distinct_net_add split: if_splits)

lemma add_settlement_balanced: "add_settlement t m = Inr m' \<Longrightarrow> balanced_map m \<Longrightarrow> balanced_map m'"
  by (auto simp: add_settlement_def balanced_map_def res_simps sum_net_add distinct_net_add split: if_splits)

lemma net_stroops_balanced:
  assumes "net_stroops shares settlements = Inr m"
  shows "balanced_map m"
proof -
  obtain k where k: "fold_res add_share shares [] = Inr k" "fold_res add_settlement settlements k = Inr m"
    using assms by (auto simp: net_stroops_def res_simps)
  have "balanced_map []" by (simp add: balanced_map_def)
  then have "balanced_map k" by (rule fold_res_invariant [OF k(1)]) (rule add_share_balanced)
  then show ?thesis by (rule fold_res_invariant [OF k(2)]) (rule add_settlement_balanced)
qed

lemma print_balances_Inr:
  assumes "print_balances m = Inr out"
  shows "map_res toStroops (map nb_net out) = Inr (map snd m)"
    and "map nb_userId out = map fst m"
proof -
  let ?mk = "\<lambda>r s. \<lparr>nb_userId = fst r, nb_net = s\<rparr>"
  have p: "map_res (\<lambda>r. res_bind (fromStroops (snd r)) (\<lambda>s. Inr (?mk r s))) m = Inr out"
    using assms by (simp add: print_balances_def split_def)
  show "map_res toStroops (map nb_net out) = Inr (map snd m)"
    by (rule codec.print_rows(1) [OF p]) simp
  have "list_all2 (\<lambda>r x. x = ?mk r (nb_net x)) m out"
    by (rule codec.print_rows(2) [OF p]) simp
  then show "map nb_userId out = map fst m"
    by (induction rule: list_all2_induct) (auto, metis net_balance.select_convs(1))
qed

lemma stroops_of_eq: "toStroops s = Inr n \<Longrightarrow> stroops_of s = n"
  by (simp add: stroops_of_def)

lemma map_stroops_of: "map_res toStroops ss = Inr ns \<Longrightarrow> map stroops_of ss = ns"
  by (induction ss arbitrary: ns) (auto simp: res_simps stroops_of_eq)

lemma computeNetBalances_map:
  assumes "computeNetBalances shares settlements = Inr bs"
  obtains m where "net_stroops shares settlements = Inr m" "map nb_userId bs = map fst m"
    "map (stroops_of \<circ> nb_net) bs = map snd m" "map_res toStroops (map nb_net bs) = Inr (map snd m)"
proof -
  from assms obtain m where m: "net_stroops shares settlements = Inr m" "print_balances m = Inr bs"
    by (auto simp: computeNetBalances_def res_simps)
  show thesis
    using that [OF m(1)] print_balances_Inr [OF m(2)] map_stroops_of [OF print_balances_Inr(1) [OF m(2)]]
    by simp
qed

section \<open>The greedy suggestions settle every balance\<close>

text \<open>What a user sends and receives in a list of transfers, and holds in a list of parties.\<close>

definition sent :: "string \<Rightarrow> (string \<times> string \<times> int) list \<Rightarrow> int" where
  "sent u ts = sum_list (map (\<lambda>(d, c, n). if d = u then n else 0) ts)"

definition received :: "string \<Rightarrow> (string \<times> string \<times> int) list \<Rightarrow> int" where
  "received u ts = sum_list (map (\<lambda>(d, c, n). if c = u then n else 0) ts)"

definition holds :: "string \<Rightarrow> party list \<Rightarrow> int" where
  "holds u ps = sum_list (map (\<lambda>(v, n). if v = u then n else 0) ps)"

definition party_total :: "party list \<Rightarrow> int" where
  "party_total ps = sum_list (map snd ps)"

definition positive_parties :: "party list \<Rightarrow> bool" where
  "positive_parties ps = list_all (\<lambda>p. 0 < snd p) ps"

lemmas party_defs = sent_def received_def holds_def party_total_def positive_parties_def

lemma party_total_nonneg: "positive_parties ps \<Longrightarrow> 0 \<le> party_total ps"
  by (induction ps) (auto simp: party_defs)

lemma party_total_pos: "positive_parties ps \<Longrightarrow> ps \<noteq> [] \<Longrightarrow> 0 < party_total ps"
  by (induction ps) (auto simp: party_defs, fastforce)

lemma match_debts_settles:
  "positive_parties ds \<Longrightarrow> positive_parties cs \<Longrightarrow> party_total ds = party_total cs \<Longrightarrow>
     sent u (match_debts ds cs) = holds u ds \<and> received u (match_debts ds cs) = holds u cs"
proof (induction ds cs rule: match_debts.induct)
  case (1 cs)
  then have "cs = []" using party_total_pos [of cs] by (cases cs) (auto simp: party_total_def)
  then show ?case by (simp add: party_defs)
next
  case (2 d ds)
  then show ?case using party_total_pos [of "d # ds"] by (simp add: party_total_def)
next
  case (3 du da ds cu ca cs)
  have pos: "0 < da" "0 < ca" "positive_parties ds" "positive_parties cs"
    using 3 by (auto simp: positive_parties_def)
  consider "da < ca" | "da = ca" | "ca < da" by linarith
  then show ?case
    using 3 pos by cases (auto simp: party_defs Let_def)
qed

lemma match_debts_positive:
  "positive_parties ds \<Longrightarrow> positive_parties cs \<Longrightarrow> (d, c, n) \<in> set (match_debts ds cs) \<Longrightarrow>
     0 < n \<and> d \<in> fst ` set ds \<and> c \<in> fst ` set cs"
proof (induction ds cs rule: match_debts.induct)
  case (3 du da ds cu ca cs)
  consider "da < ca" | "da = ca" | "ca < da" by linarith
  then show ?case using 3 by cases (auto simp: positive_parties_def Let_def split: if_splits)
qed auto

lemma match_debts_le:
  "positive_parties ds \<Longrightarrow> positive_parties cs \<Longrightarrow> list_all (\<lambda>p. snd p \<le> b) cs \<Longrightarrow>
     (d, c, n) \<in> set (match_debts ds cs) \<Longrightarrow> n \<le> b"
proof (induction ds cs rule: match_debts.induct)
  case (3 du da ds cu ca cs)
  consider "da < ca" | "da = ca" | "ca < da" by linarith
  then show ?case using 3
    by cases (auto simp: positive_parties_def Let_def split: if_splits)
qed auto

lemma match_debts_length:
  "positive_parties ds \<Longrightarrow> positive_parties cs \<Longrightarrow> party_total ds = party_total cs \<Longrightarrow> ds \<noteq> [] \<Longrightarrow>
     length (match_debts ds cs) < length ds + length cs"
proof (induction ds cs rule: match_debts.induct)
  case (3 du da ds cu ca cs)
  have pos: "0 < da" "0 < ca" "positive_parties ds" "positive_parties cs"
    using 3 by (auto simp: positive_parties_def)
  consider (lt) "da < ca" | (eq) "da = ca" | (gt) "ca < da" by linarith
  then show ?case
  proof cases
    case lt
    then have "ds \<noteq> []"
      using "3.prems" party_total_nonneg [of cs] pos by (auto simp: party_total_def)
    with lt "3.IH" "3.prems" pos show ?thesis by (auto simp: party_defs Let_def)
  next
    case eq
    then have e: "party_total ds = party_total cs" using "3.prems" by (simp add: party_total_def)
    then have "match_debts ds cs = [] \<or> length (match_debts ds cs) < length ds + length cs"
      using "3.IH" eq pos by (cases "ds = []") (auto simp: Let_def)
    then show ?thesis using eq pos by (auto simp: Let_def)
  next
    case gt
    with "3.IH" "3.prems" pos show ?thesis by (auto simp: party_defs Let_def)
  qed
qed auto

text \<open>The split of a balance sheet into debtors and creditors.\<close>

definition debtors_of :: "party list \<Rightarrow> party list" where
  "debtors_of ps = map (\<lambda>(u, n). (u, - n)) (filter (\<lambda>(u, n). n < 0) ps)"

definition creditors_of :: "party list \<Rightarrow> party list" where
  "creditors_of ps = filter (\<lambda>(u, n). 0 < n) ps"

lemma classify_fold:
  assumes "map_res toStroops (map nb_net bs) = Inr ns"
  shows "fold_res classify_balance bs (ds, cs) =
     Inr (ds @ debtors_of (zip (map nb_userId bs) ns), cs @ creditors_of (zip (map nb_userId bs) ns))"
  using assms
proof (induction bs arbitrary: ns ds cs)
  case (Cons b bs)
  then obtain n ms where n: "toStroops (nb_net b) = Inr n" "map_res toStroops (map nb_net bs) = Inr ms"
      "ns = n # ms"
    by (auto simp: res_simps)
  then show ?case using Cons.IH [OF n(2)]
    by (auto simp: classify_balance_def debtors_of_def creditors_of_def)
qed (auto simp: debtors_of_def creditors_of_def)

lemma debtors_positive [simp]: "positive_parties (debtors_of ps)"
  by (auto simp: positive_parties_def debtors_of_def list_all_iff)

lemma creditors_positive [simp]: "positive_parties (creditors_of ps)"
  by (auto simp: positive_parties_def creditors_of_def list_all_iff)

lemma creditors_minus_debtors:
  "party_total (creditors_of ps) - party_total (debtors_of ps) = sum_list (map snd ps)"
  "holds u (creditors_of ps) - holds u (debtors_of ps) = holds u ps"
  by (induction ps) (auto simp: party_defs creditors_of_def debtors_of_def)

lemma length_debtors_creditors: "length (debtors_of ps) + length (creditors_of ps) \<le> length ps"
  by (induction ps) (auto simp: creditors_of_def debtors_of_def)

subsection \<open>The contract of the sort\<close>

text \<open>
  What the loop needs of \<^verbatim>\<open>sort((a, b) => b.amount > a.amount ? 1 : -1)\<close>: the same parties,
  largest amount first. Ties may come out in any order.
\<close>

locale desc_sort =
  fixes srt :: "party list \<Rightarrow> party list"
  assumes srt_mset: "mset (srt ps) = mset ps"
    and srt_desc: "sorted_wrt (\<lambda>p q. snd q \<le> snd p) (srt ps)"
begin

lemma srt_set [simp]: "set (srt ps) = set ps"
  by (metis srt_mset set_mset_mset)

lemma srt_length [simp]: "length (srt ps) = length ps"
  by (metis srt_mset size_mset)

lemma srt_Nil_iff [simp]: "srt ps = [] \<longleftrightarrow> ps = []"
  by (metis srt_length length_0_conv)

lemma srt_sum: "sum_list (map f (srt ps)) = sum_list (map (f :: party \<Rightarrow> int) ps)"
  by (metis srt_mset mset_map sum_mset_sum_list)

lemma srt_positive [simp]: "positive_parties (srt ps) \<longleftrightarrow> positive_parties ps"
  by (simp add: positive_parties_def list_all_iff)

lemma srt_holds [simp]: "holds u (srt ps) = holds u ps" "party_total (srt ps) = party_total ps"
  by (simp_all add: holds_def party_total_def srt_sum)

lemma matched:
  assumes "positive_parties ds" "positive_parties cs" "party_total ds = party_total cs"
  shows "sent u (match_debts (srt ds) (srt cs)) = holds u ds"
    and "received u (match_debts (srt ds) (srt cs)) = holds u cs"
  using match_debts_settles [of "srt ds" "srt cs" u] assms by simp_all

lemma matched_length:
  assumes "positive_parties ds" "positive_parties cs" "party_total ds = party_total cs"
  shows "length (match_debts (srt ds) (srt cs)) \<le> length ds + length cs - 1"
proof (cases "ds = []")
  case False
  then show ?thesis
    using match_debts_length [of "srt ds" "srt cs"] assms by simp
next
  case True
  then have "srt ds = []" by simp
  then show ?thesis unfolding \<open>srt ds = []\<close> by simp
qed

text \<open>The first transfer pairs a largest debtor with a largest creditor.\<close>

lemma first_match:
  assumes "ds \<noteq> []" "cs \<noteq> []" "positive_parties ds" "positive_parties cs"
  obtains du da cu ca ts where "match_debts (srt ds) (srt cs) = (du, cu, min da ca) # ts"
    "(du, da) \<in> set ds" "(cu, ca) \<in> set cs" "\<And>p. p \<in> set ds \<Longrightarrow> snd p \<le> da"
    "\<And>p. p \<in> set cs \<Longrightarrow> snd p \<le> ca"
proof -
  obtain du da dr where d: "srt ds = (du, da) # dr" using assms by (cases "srt ds") auto
  obtain cu ca cr where c: "srt cs = (cu, ca) # cr" using assms by (cases "srt cs") auto
  have i: "(du, da) \<in> set ds" "(cu, ca) \<in> set cs" using d c by (metis list.set_intros(1) srt_set)+
  then have "0 < da" "0 < ca" using assms by (auto simp: positive_parties_def list_all_iff)
  moreover have "\<And>p. p \<in> set ds \<Longrightarrow> snd p \<le> da" "\<And>p. p \<in> set cs \<Longrightarrow> snd p \<le> ca"
    using srt_desc [of ds] srt_desc [of cs] d c
    by (metis order_refl set_ConsD snd_conv sorted_wrt.simps(2) srt_set)+
  moreover have "\<exists>ts. match_debts (srt ds) (srt cs) = (du, cu, min da ca) # ts"
    using \<open>0 < da\<close> \<open>0 < ca\<close> by (simp add: d c Let_def min_def)
  ultimately show thesis using that i by blast
qed

end

text \<open>Two implementations of the sort: ties kept in order, and ties reversed.\<close>

definition sort_desc_stable :: "party list \<Rightarrow> party list" where
  "sort_desc_stable ps = sort_key (\<lambda>p. - snd p) ps"

definition sort_desc_reversing :: "party list \<Rightarrow> party list" where
  "sort_desc_reversing ps = sort_key (\<lambda>p. - snd p) (rev ps)"

lemma sort_key_desc: "sorted_wrt (\<lambda>p q. snd q \<le> snd p) (sort_key (\<lambda>p. - snd p) (ps :: party list))"
  using sorted_sort_key [of "\<lambda>p. - snd p" ps] by (simp add: sorted_map)

interpretation stable_sort: desc_sort sort_desc_stable
  by unfold_locales (auto simp: sort_desc_stable_def sort_key_desc)

interpretation reversing_sort: desc_sort sort_desc_reversing
  by unfold_locales (auto simp: sort_desc_reversing_def sort_key_desc)

section \<open>From the printed balances to the printed suggestions\<close>

definition sg_transfer :: "suggestion \<Rightarrow> string \<times> string \<times> int" where
  "sg_transfer s = (sg_fromUserId s, sg_toUserId s, stroops_of (sg_amount s))"

definition user_net :: "string \<Rightarrow> net_balance list \<Rightarrow> int" where
  "user_net u bs = sum_list (map (\<lambda>b. if nb_userId b = u then stroops_of (nb_net b) else 0) bs)"

lemma print_suggestions_Inr:
  assumes "print_suggestions ts = Inr out"
  shows "map sg_transfer out = ts"
  using assms
proof (induction ts arbitrary: out)
  case (Cons t ts)
  obtain d c n where t: "t = (d, c, n)" by (cases t)
  with Cons.prems obtain s os where s: "fromStroops n = Inr s" "print_suggestions ts = Inr os"
      "out = \<lparr>sg_fromUserId = d, sg_toUserId = c, sg_amount = s\<rparr> # os"
    by (auto simp: print_suggestions_def res_simps)
  then show ?case
    using Cons.IH codec.dec_enc [OF s(1)] t by (simp add: sg_transfer_def stroops_of_def)
qed (simp add: print_suggestions_def)

lemma print_suggestions_total:
  assumes "\<And>d c n. (d, c, n) \<in> set ts \<Longrightarrow> \<bar>n\<bar> \<le> MAX_STROOPS"
  shows "\<exists>out. print_suggestions ts = Inr out"
  using codec.print_rows_total [of ts "\<lambda>r. snd (snd r)"
      "\<lambda>r s. \<lparr>sg_fromUserId = fst r, sg_toUserId = fst (snd r), sg_amount = s\<rparr>"] assms
  by (simp add: print_suggestions_def split_def) (metis prod.collapse)

lemma holds_user_net:
  assumes "map_res toStroops (map nb_net bs) = Inr ns"
  shows "holds u (zip (map nb_userId bs) ns) = user_net u bs"
  using assms
proof (induction bs arbitrary: ns)
  case (Cons b bs)
  then show ?case by (auto simp: res_simps holds_def user_net_def stroops_of_eq)
qed (simp add: holds_def user_net_def)

lemma map_res_range:
  assumes "map_res toStroops ss = Inr ns" "n \<in> set ns"
  shows "\<bar>n\<bar> \<le> MAX_STROOPS"
  using assms by (auto simp: map_res_Inr_iff list_all2_conv_all_nth in_set_conv_nth dest: toStroops_bound)

text \<open>The suggestions as transfers over the sorted parties; they always print.\<close>

lemma suggestSettlements_transfers:
  assumes srt: "desc_sort srt" and ns: "map_res toStroops (map nb_net bs) = Inr ns"
  defines "ps \<equiv> zip (map nb_userId bs) ns"
  obtains sg where "suggestSettlements srt bs = Inr sg"
    "map sg_transfer sg = match_debts (srt (debtors_of ps)) (srt (creditors_of ps))"
proof -
  let ?ts = "match_debts (srt (debtors_of ps)) (srt (creditors_of ps))"
  have fold: "fold_res classify_balance bs ([], []) = Inr (debtors_of ps, creditors_of ps)"
    using classify_fold [OF ns] by (simp add: ps_def)
  have pos: "positive_parties (srt (debtors_of ps))" "positive_parties (srt (creditors_of ps))"
    by (simp_all add: desc_sort.srt_positive [OF srt])
  have bnd: "list_all (\<lambda>p. snd p \<le> MAX_STROOPS) (srt (creditors_of ps))"
    using map_res_range [OF ns] unfolding list_all_iff desc_sort.srt_set [OF srt]
    by (auto simp: creditors_of_def ps_def dest!: set_zip_rightD) (metis abs_le_D1)
  have "\<bar>n\<bar> \<le> MAX_STROOPS" if "(d, c, n) \<in> set ?ts" for d c n
    using match_debts_le [OF pos bnd that] match_debts_positive [OF pos that] by simp
  then obtain sg where "print_suggestions ?ts = Inr sg" using print_suggestions_total by blast
  with fold show thesis
    using that print_suggestions_Inr by (simp add: suggestSettlements_def)
qed

section \<open>Assets never net against each other\<close>

definition row_key :: "asset_id \<times> 'r \<Rightarrow> string" where
  "row_key r = balanceAssetKey (fst (fst r)) (snd (fst r))"

definition rows_for :: "string \<Rightarrow> (asset_id \<times> 'r) list \<Rightarrow> 'r list" where
  "rows_for k rs = map snd (filter (\<lambda>r. row_key r = k) rs)"

text \<open>The rows a group map holds for a key, and the well-formedness of a group map.\<close>

definition group_rows :: "group_map \<Rightarrow> string \<Rightarrow> balance_share list \<times> balance_settlement list" where
  "group_rows gs k =
     (case map_of gs k of None \<Rightarrow> ([], []) | Some g \<Rightarrow> (ag_shares g, ag_settlements g))"

definition groups_wf :: "group_map \<Rightarrow> bool" where
  "groups_wf gs \<longleftrightarrow> distinct (map fst gs) \<and>
     (\<forall>(k, g) \<in> set gs. k = balanceAssetKey (ag_assetCode g) (ag_assetIssuer g))"

lemma set_update: "set (AList.update k v m) \<subseteq> insert (k, v) (set m)"
  by (induction m) auto

lemma groups_wf_update:
  "groups_wf gs \<Longrightarrow> k = balanceAssetKey (ag_assetCode g) (ag_assetIssuer g) \<Longrightarrow>
     groups_wf (AList.update k g gs)"
  using set_update [of k g gs] unfolding groups_wf_def by (auto simp: distinct_update)

lemma group_rows_update:
  "group_rows (AList.update key g gs) k =
     (if k = key then (ag_shares g, ag_settlements g) else group_rows gs k)"
  by (simp add: group_rows_def update_conv')

lemma groupFor_Inr:
  assumes "groupFor supported code issuer gs = Inr (key, g, gs')" "groups_wf gs"
  shows "key = balanceAssetKey code issuer" "groups_wf gs'"
    "key = balanceAssetKey (ag_assetCode g) (ag_assetIssuer g)"
    "group_rows gs' k = group_rows gs k" "(ag_shares g, ag_settlements g) = group_rows gs key"
proof -
  let ?new = "\<lparr>ag_assetCode = code, ag_assetIssuer = issuer, ag_shares = [], ag_settlements = []\<rparr>"
  let ?key = "balanceAssetKey code issuer"
  have eq: "(case map_of gs ?key of
         Some h \<Rightarrow> Inr (?key, h, gs) | None \<Rightarrow> Inr (?key, ?new, AList.update ?key ?new gs))
       = (Inr (key, g, gs') :: (string \<times> asset_group \<times> group_map) res)"
    using assms(1) unfolding groupFor_def res_bind_eq_Inr Let_def by blast
  then show key: "key = ?key" by (cases "map_of gs ?key") simp_all
  consider (old) "map_of gs key = Some g" "gs' = gs"
    | (new) "map_of gs key = None" "g = ?new" "gs' = AList.update key ?new gs"
    using eq unfolding key by (cases "map_of gs ?key") (simp_all, metis)
  then have "groups_wf gs' \<and> key = balanceAssetKey (ag_assetCode g) (ag_assetIssuer g) \<and>
      group_rows gs' k = group_rows gs k \<and> (ag_shares g, ag_settlements g) = group_rows gs key"
  proof cases
    case old
    then show ?thesis using assms(2) map_of_SomeD [OF old(1)]
      by (auto simp: groups_wf_def group_rows_def)
  next
    case new
    then show ?thesis using assms(2) groups_wf_update [of gs key ?new] key
      by (auto simp: group_rows_update) (simp_all add: group_rows_def)
  qed
  then show "groups_wf gs'" "key = balanceAssetKey (ag_assetCode g) (ag_assetIssuer g)"
    "group_rows gs' k = group_rows gs k" "(ag_shares g, ag_settlements g) = group_rows gs key"
    by auto
qed

lemma push_share_rows:
  assumes "push_share supported r gs = Inr gs'" "groups_wf gs"
  shows "groups_wf gs'"
    "group_rows gs' k = (fst (group_rows gs k) @ rows_for k [r], snd (group_rows gs k))"
proof -
  obtain key g hs where g: "groupFor supported (fst (fst r)) (snd (fst r)) gs = Inr (key, g, hs)"
      "gs' = AList.update key (g\<lparr>ag_shares := ag_shares g @ [snd r]\<rparr>) hs"
    using assms(1) by (auto simp: push_share_def res_simps)
  note f = groupFor_Inr [OF g(1) assms(2)]
  show "groups_wf gs'" unfolding g(2) by (rule groups_wf_update) (use f in auto)
  show "group_rows gs' k = (fst (group_rows gs k) @ rows_for k [r], snd (group_rows gs k))"
    using f(1) f(5) [symmetric] f(4) [of k]
    by (auto simp: g(2) group_rows_update rows_for_def row_key_def)
qed

lemma push_settlement_rows:
  assumes "push_settlement supported r gs = Inr gs'" "groups_wf gs"
  shows "groups_wf gs'"
    "group_rows gs' k = (fst (group_rows gs k), snd (group_rows gs k) @ rows_for k [r])"
proof -
  obtain key g hs where g: "groupFor supported (fst (fst r)) (snd (fst r)) gs = Inr (key, g, hs)"
      "gs' = AList.update key (g\<lparr>ag_settlements := ag_settlements g @ [snd r]\<rparr>) hs"
    using assms(1) by (auto simp: push_settlement_def res_simps)
  note f = groupFor_Inr [OF g(1) assms(2)]
  show "groups_wf gs'" unfolding g(2) by (rule groups_wf_update) (use f in auto)
  show "group_rows gs' k = (fst (group_rows gs k), snd (group_rows gs k) @ rows_for k [r])"
    using f(1) f(5) [symmetric] f(4) [of k]
    by (auto simp: g(2) group_rows_update rows_for_def row_key_def)
qed

lemma rows_for_Cons: "rows_for k (r # rs) = rows_for k [r] @ rows_for k rs"
  by (simp add: rows_for_def)

lemma rows_for_Nil [simp]: "rows_for k [] = []"
  by (simp add: rows_for_def)

lemma fold_push_share:
  "fold_res (push_share supported) rs gs = Inr gs' \<Longrightarrow> groups_wf gs \<Longrightarrow>
     groups_wf gs' \<and>
     group_rows gs' k = (fst (group_rows gs k) @ rows_for k rs, snd (group_rows gs k))"
proof (induction rs arbitrary: gs)
  case (Cons r rs)
  then obtain hs where h: "push_share supported r gs = Inr hs"
      "fold_res (push_share supported) rs hs = Inr gs'" by (auto simp: res_simps)
  show ?case
    using Cons.IH [OF h(2)] push_share_rows [OF h(1) Cons.prems(2)] by (simp add: rows_for_Cons [of k r rs])
qed simp

lemma fold_push_settlement:
  "fold_res (push_settlement supported) rs gs = Inr gs' \<Longrightarrow> groups_wf gs \<Longrightarrow>
     groups_wf gs' \<and>
     group_rows gs' k = (fst (group_rows gs k), snd (group_rows gs k) @ rows_for k rs)"
proof (induction rs arbitrary: gs)
  case (Cons r rs)
  then obtain hs where h: "push_settlement supported r gs = Inr hs"
      "fold_res (push_settlement supported) rs hs = Inr gs'" by (auto simp: res_simps)
  show ?case
    using Cons.IH [OF h(2)] push_settlement_rows [OF h(1) Cons.prems(2)]
    by (simp add: rows_for_Cons [of k r rs])
qed simp

lemma asset_groups_rows:
  assumes "asset_groups supported shares settlements = Inr gs"
  shows "groups_wf gs" "group_rows gs k = (rows_for k shares, rows_for k settlements)"
proof -
  obtain hs where h: "fold_res (push_share supported) shares [] = Inr hs"
      "fold_res (push_settlement supported) settlements hs = Inr gs"
    using assms by (auto simp: asset_groups_def res_simps)
  have e: "groups_wf []" "group_rows [] k = ([], [])" by (simp_all add: groups_wf_def group_rows_def)
  show "groups_wf gs" "group_rows gs k = (rows_for k shares, rows_for k settlements)"
    using fold_push_share [OF h(1) e(1), of k] fold_push_settlement [OF h(2), of k] e by auto
qed

section \<open>Properties\<close>

text \<open>C8. A split that \<open>computeShares\<close> returns, whatever its type, has one share per participant
  in the order given, and the shares add up to the expense amount to the stroop.\<close>

theorem computeShares_exact:
  assumes "computeShares amount st shares = Inr out"
  shows "\<exists>t ns. toStroops amount = Inr t \<and> 0 < t
           \<and> map_res toStroops (map cs_shareAmount out) = Inr ns \<and> sum_list ns = t
           \<and> map cs_userId out = map si_userId shares"
proof -
  from assms obtain t ns where *: "toStroops amount = Inr t" "0 < t" "print_shares ns = Inr out"
      "sum_list (map snd ns) = t" "map fst ns = map si_userId shares"
    by (rule computeShares_stroops)
  then show ?thesis using print_shares_Inr [OF *(3)] by auto
qed

definition demo_shares :: "share_input list" where
  "demo_shares = map (\<lambda>u. \<lparr>si_userId = u, si_amount = None, si_percent = None\<rparr>) [''ada'', ''kola'', ''zo'']"

lemma demo_equal_split:
  "computeShares ''10'' Equal demo_shares =
     Inr [\<lparr>cs_userId = ''ada'', cs_shareAmount = ''3.3333334''\<rparr>,
          \<lparr>cs_userId = ''kola'', cs_shareAmount = ''3.3333333''\<rparr>,
          \<lparr>cs_userId = ''zo'', cs_shareAmount = ''3.3333333''\<rparr>]"
  by code_simp

theorem computeShares_exact_witness:
  "\<exists>t ns. toStroops ''10'' = Inr t \<and> 0 < t
     \<and> map_res toStroops [''3.3333334'', ''3.3333333'', ''3.3333333''] = Inr ns \<and> sum_list ns = t
     \<and> [''ada'', ''kola'', ''zo''] = map si_userId demo_shares"
  using computeShares_exact [OF demo_equal_split] by simp

text \<open>An equal split of a positive amount always succeeds: with \<open>n\<close> participants the first
  receives the quotient plus the whole remainder and every other one the quotient.\<close>

theorem equal_split_values:
  assumes "toStroops amount = Inr t" "0 < t" "shares \<noteq> []"
  shows "\<exists>out. computeShares amount Equal shares = Inr out \<and>
    map_res toStroops (map cs_shareAmount out) =
      Inr ((t div int (length shares) + t mod int (length shares))
           # replicate (length shares - 1) (t div int (length shares)))"
proof -
  obtain s ss where s: "shares = s # ss" using assms(3) by (cases shares) auto
  let ?n = "int (length shares)"
  let ?ns = "fixRemainder_stroops (map (\<lambda>s. (si_userId s, t div ?n)) shares) t"
  have n: "0 < ?n" using assms(3) by simp
  have "t - ?n * (t div ?n) = t mod ?n" by (simp add: minus_mult_div_eq_mod)
  then have ns: "?ns = (si_userId s, t div ?n + t mod ?n) # map (\<lambda>s. (si_userId s, t div ?n)) ss"
    by (simp add: s fixRemainder_stroops_def Let_def comp_def map_replicate_const sum_list_replicate
        algebra_simps)
  have q: "0 \<le> t div ?n" "0 \<le> t mod ?n" using assms(2) n by (simp_all add: pos_imp_zdiv_nonneg_iff)
  have "1 * (t div ?n) \<le> ?n * (t div ?n)" by (rule mult_right_mono) (use n q in linarith)+
  then have b: "t div ?n + t mod ?n \<le> t" using mult_div_mod_eq [of ?n t] by linarith
  have "t \<le> MAX_STROOPS" using toStroops_bound [OF assms(1)] by simp
  then have "\<exists>out. print_shares ?ns = Inr out"
    unfolding ns using b q by (intro print_shares_total) auto
  then obtain out where out: "print_shares ?ns = Inr out" by blast
  then have "computeShares amount Equal shares = Inr out"
    using assms by (simp add: computeShares_def fixRemainder_def Let_def)
  moreover have "map snd ?ns = (t div ?n + t mod ?n) # replicate (length shares - 1) (t div ?n)"
    unfolding ns by (simp add: s comp_def map_replicate_const)
  ultimately show ?thesis using print_shares_Inr(1) [OF out] by auto
qed

theorem equal_split_values_witness:
  "\<exists>out. computeShares ''10'' Equal demo_shares = Inr out \<and>
     map_res toStroops (map cs_shareAmount out) = Inr [33333334, 33333333, 33333333]"
proof -
  have h: "toStroops ''10'' = Inr 100000000" by code_simp
  show ?thesis using equal_split_values [OF h, of demo_shares] by (simp add: demo_shares_def)
qed

text \<open>C4. Net balances: when \<open>computeNetBalances\<close> returns, every listed user's printed net reads back
  as the ledger's sum of what the rows contribute to that user, no user is listed twice, a
  user who is not listed has a zero ledger balance, and the listed balances cancel out.\<close>

theorem computeNetBalances_ledger:
  assumes "computeNetBalances shares settlements = Inr bs"
  shows "(\<forall>b \<in> set bs. toStroops (nb_net b) = Inr (ledger_net shares settlements (nb_userId b)))
    \<and> distinct (map nb_userId bs)
    \<and> (\<forall>u. u \<notin> set (map nb_userId bs) \<longrightarrow> ledger_net shares settlements u = 0)
    \<and> sum_list (map (ledger_net shares settlements \<circ> nb_userId) bs) = 0"
proof -
  obtain m where m: "net_stroops shares settlements = Inr m" "map nb_userId bs = map fst m"
      "map_res toStroops (map nb_net bs) = Inr (map snd m)"
    using assms by (rule computeNetBalances_map)
  have len: "length bs = length m" using m(2) map_eq_imp_length_eq by blast
  have bal: "distinct (map fst m)" "sum_list (map snd m) = 0"
    using net_stroops_balanced [OF m(1)] by (auto simp: balanced_map_def)
  have net: "snd (m ! i) = ledger_net shares settlements (fst (m ! i))" if "i < length m" for i
  proof -
    have "map_of m (fst (m ! i)) = Some (snd (m ! i))"
      using bal(1) that by (metis map_of_eq_Some_iff nth_mem prod.collapse)
    then show ?thesis using net_stroops_ledger [OF m(1), of "fst (m ! i)"] by (simp add: net_of_def)
  qed
  have user: "nb_userId (bs ! i) = fst (m ! i)" if "i < length m" for i
    using m(2) that len by (metis nth_map)
  have "toStroops (nb_net (bs ! i)) = Inr (snd (m ! i))" if "i < length m" for i
    using map_res_nth [OF m(3), of i] that len by simp
  then have "\<forall>b \<in> set bs. toStroops (nb_net b) = Inr (ledger_net shares settlements (nb_userId b))"
    using net user len by (metis in_set_conv_nth)
  moreover have "ledger_net shares settlements u = 0" if "u \<notin> set (map nb_userId bs)" for u
    using net_stroops_ledger [OF m(1), of u] that m(2)
    by (auto simp: net_of_def simp flip: map_of_eq_None_iff split: option.splits)
  moreover have "map (ledger_net shares settlements \<circ> nb_userId) bs = map snd m"
    using net user len by (intro nth_equalityI) auto
  ultimately show ?thesis using bal m(2) by auto
qed

definition demo_ledger_shares :: "balance_share list" where
  "demo_ledger_shares =
     [\<lparr>bs_payerUserId = ''ada'', bs_userId = ''ada'', bs_shareAmount = ''4'', bs_settled = False\<rparr>,
      \<lparr>bs_payerUserId = ''ada'', bs_userId = ''kola'', bs_shareAmount = ''4'', bs_settled = False\<rparr>,
      \<lparr>bs_payerUserId = ''ada'', bs_userId = ''zo'', bs_shareAmount = ''2.5'', bs_settled = False\<rparr>]"

definition demo_ledger_settlements :: "balance_settlement list" where
  "demo_ledger_settlements =
     [\<lparr>bt_fromUserId = ''zo'', bt_toUserId = ''ada'', bt_amount = ''1'', bt_confirmed = True\<rparr>,
      \<lparr>bt_fromUserId = ''kola'', bt_toUserId = ''ada'', bt_amount = ''4'', bt_confirmed = False\<rparr>]"

definition demo_balances :: "net_balance list" where
  "demo_balances =
     [\<lparr>nb_userId = ''ada'', nb_net = ''5.5''\<rparr>, \<lparr>nb_userId = ''kola'', nb_net = ''-4''\<rparr>,
      \<lparr>nb_userId = ''zo'', nb_net = ''-1.5''\<rparr>]"

lemma demo_net: "computeNetBalances demo_ledger_shares demo_ledger_settlements = Inr demo_balances"
  by code_simp

theorem computeNetBalances_ledger_witness:
  "toStroops ''-1.5'' = Inr (ledger_net demo_ledger_shares demo_ledger_settlements ''zo'')"
  using computeNetBalances_ledger [OF demo_net] by (simp add: demo_balances_def)

text \<open>C3. Settle-up: for balances that parse and cancel out, \<open>suggestSettlements\<close> always returns, and
  its transfers are positive, bring every user's balance to exactly zero, and are fewer
  than the listed balances (or none). This holds for every sort that lists the parties
  largest first, however it orders ties.\<close>

theorem suggestSettlements_settles:
  assumes "desc_sort srt" and "map_res toStroops (map nb_net bs) = Inr ns" and "sum_list ns = 0"
  shows "\<exists>sg. suggestSettlements srt bs = Inr sg
    \<and> (\<forall>u. user_net u bs + sent u (map sg_transfer sg) - received u (map sg_transfer sg) = 0)
    \<and> (\<forall>s \<in> set sg. 0 < stroops_of (sg_amount s))
    \<and> length sg \<le> length bs - 1"
proof -
  let ?ps = "zip (map nb_userId bs) ns"
  have len: "length ns = length bs" using map_res_length [OF assms(2)] by simp
  have tot: "party_total (debtors_of ?ps) = party_total (creditors_of ?ps)"
    using creditors_minus_debtors(1) [of ?ps] assms(3) len by simp
  obtain sg where sg: "suggestSettlements srt bs = Inr sg"
      "map sg_transfer sg = match_debts (srt (debtors_of ?ps)) (srt (creditors_of ?ps))"
    using suggestSettlements_transfers [OF assms(1,2)] by blast
  note matched = desc_sort.matched [OF assms(1) debtors_positive creditors_positive tot]
  have "user_net u bs + sent u (map sg_transfer sg) - received u (map sg_transfer sg) = 0" for u
    using matched [of u] creditors_minus_debtors(2) [of u ?ps] holds_user_net [OF assms(2), of u]
    by (simp add: sg(2))
  moreover have "0 < stroops_of (sg_amount s)" if "s \<in> set sg" for s
  proof -
    have "sg_transfer s \<in> set (match_debts (srt (debtors_of ?ps)) (srt (creditors_of ?ps)))"
      using that sg(2) by (metis image_eqI list.set_map)
    then show ?thesis
      using match_debts_positive desc_sort.srt_positive [OF assms(1)] debtors_positive creditors_positive
      unfolding sg_transfer_def by blast
  qed
  moreover have "length sg \<le> length bs - 1"
    using desc_sort.matched_length [OF assms(1) debtors_positive creditors_positive tot]
      length_debtors_creditors [of ?ps] arg_cong [OF sg(2), of length] len by simp
  ultimately show ?thesis using sg(1) by blast
qed

lemma demo_nets: "map_res toStroops (map nb_net demo_balances) = Inr [55000000, -40000000, -15000000]"
  by code_simp

theorem suggestSettlements_settles_witness:
  "\<exists>sg. suggestSettlements sort_desc_stable demo_balances = Inr sg
    \<and> (\<forall>u. user_net u demo_balances + sent u (map sg_transfer sg) - received u (map sg_transfer sg) = 0)
    \<and> (\<forall>s \<in> set sg. 0 < stroops_of (sg_amount s))
    \<and> length sg \<le> length demo_balances - 1"
  using suggestSettlements_settles [OF stable_sort.desc_sort_axioms demo_nets] by simp

text \<open>C30. Balances never cross assets: each sheet \<open>computeNetBalancesByAsset\<close> returns is the net-balance
  sheet of exactly the share and settlement rows of its own asset key, no two sheets have
  the same key, and an asset whose rows leave a non-empty sheet is among them.\<close>

theorem computeNetBalancesByAsset_segregated:
  assumes "computeNetBalancesByAsset supported shares settlements = Inr sheets"
  defines "key \<equiv> \<lambda>a. balanceAssetKey (an_assetCode a) (an_assetIssuer a)"
  shows "(\<forall>a \<in> set sheets. computeNetBalances (rows_for (key a) shares) (rows_for (key a) settlements)
             = Inr (an_balances a) \<and> an_balances a \<noteq> [])
    \<and> distinct (map key sheets)
    \<and> (\<forall>k bs. computeNetBalances (rows_for k shares) (rows_for k settlements) = Inr bs \<longrightarrow> bs \<noteq> []
          \<longrightarrow> k \<in> key ` set sheets)"
proof -
  let ?sheet = "\<lambda>(k, g). res_bind (computeNetBalances (ag_shares g) (ag_settlements g)) (\<lambda>b.
         Inr \<lparr>an_assetCode = ag_assetCode g, an_assetIssuer = ag_assetIssuer g, an_balances = b\<rparr>)"
  obtain gs all where g: "asset_groups supported shares settlements = Inr gs"
      "map_res ?sheet gs = Inr all" "sheets = filter (\<lambda>a. 0 < length (an_balances a)) all"
    using assms(1) by (auto simp: computeNetBalancesByAsset_def res_simps)
  note wf = asset_groups_rows(1) [OF g(1)] and rows = asset_groups_rows(2) [OF g(1)]
  have len: "length all = length gs" using g(2) by (rule map_res_length)
  have at: "key (all ! i) = fst (gs ! i) \<and>
      computeNetBalances (rows_for (fst (gs ! i)) shares) (rows_for (fst (gs ! i)) settlements)
        = Inr (an_balances (all ! i))" if i: "i < length gs" for i
  proof -
    obtain k h where kh: "gs ! i = (k, h)" by force
    then have mem: "(k, h) \<in> set gs" using i by (metis nth_mem)
    then have "map_of gs k = Some h" using wf by (simp add: groups_wf_def)
    then have "(ag_shares h, ag_settlements h) = (rows_for k shares, rows_for k settlements)"
      using rows [of k] by (simp add: group_rows_def)
    moreover have "k = balanceAssetKey (ag_assetCode h) (ag_assetIssuer h)"
      using wf mem by (auto simp: groups_wf_def)
    ultimately show ?thesis
      using map_res_nth [OF g(2) i] kh by (cases "all ! i") (auto simp: res_simps key_def)
  qed
  have keys: "map key all = map fst gs" using at len by (intro nth_equalityI) auto
  then have "distinct (map key all)" using wf by (simp add: groups_wf_def)
  then have dist: "distinct (map key sheets)" unfolding g(3) by (rule distinct_map_filter)
  have sheet: "computeNetBalances (rows_for (key a) shares) (rows_for (key a) settlements)
      = Inr (an_balances a)" if "a \<in> set all" for a
    using that at len by (metis in_set_conv_nth)
  have "k \<in> key ` set sheets"
    if bs: "computeNetBalances (rows_for k shares) (rows_for k settlements) = Inr bs" "bs \<noteq> []" for k bs
  proof -
    have "map_of gs k \<noteq> None"
      using bs rows [of k]
      by (cases "map_of gs k")
        (auto simp: group_rows_def computeNetBalances_def net_stroops_def print_balances_def)
    then have "k \<in> set (map key all)" unfolding keys by (auto simp: map_of_eq_None_iff)
    then obtain a where a: "a \<in> set all" "key a = k" by auto
    then have "a \<in> set sheets" using sheet [OF a(1)] bs g(3) by auto
    with a show ?thesis by blast
  qed
  with dist sheet show ?thesis using g(3) by auto
qed

definition demo_supported :: "string \<Rightarrow> string option \<Rightarrow> bool res" where
  "demo_supported = isSupportedAsset (\<lambda>k. k = ''GISSUER'')
     \<lparr>STABLE_ASSET_ISSUER = ''GISSUER'', STELLAR_NETWORK = Some Public\<rparr>"

definition demo_asset_shares :: "(asset_id \<times> balance_share) list" where
  "demo_asset_shares =
     [((''XLM'', None), \<lparr>bs_payerUserId = ''a'', bs_userId = ''b'', bs_shareAmount = ''3'', bs_settled = False\<rparr>),
      ((''USDC'', Some ''GISSUER''), \<lparr>bs_payerUserId = ''b'', bs_userId = ''a'', bs_shareAmount = ''3'', bs_settled = False\<rparr>)]"

definition demo_sheets :: "asset_net_balances list" where
  "demo_sheets =
     [\<lparr>an_assetCode = ''XLM'', an_assetIssuer = None,
       an_balances = [\<lparr>nb_userId = ''a'', nb_net = ''3''\<rparr>, \<lparr>nb_userId = ''b'', nb_net = ''-3''\<rparr>]\<rparr>,
      \<lparr>an_assetCode = ''USDC'', an_assetIssuer = Some ''GISSUER'',
       an_balances = [\<lparr>nb_userId = ''b'', nb_net = ''3''\<rparr>, \<lparr>nb_userId = ''a'', nb_net = ''-3''\<rparr>]\<rparr>]"

lemma demo_by_asset: "computeNetBalancesByAsset demo_supported demo_asset_shares [] = Inr demo_sheets"
  by code_simp

theorem computeNetBalancesByAsset_segregated_witness:
  "computeNetBalances (rows_for ''USDC::GISSUER'' demo_asset_shares) (rows_for ''USDC::GISSUER'' [])
     = Inr [\<lparr>nb_userId = ''b'', nb_net = ''3''\<rparr>, \<lparr>nb_userId = ''a'', nb_net = ''-3''\<rparr>]"
proof -
  have k: "balanceAssetKey ''USDC'' (Some ''GISSUER'') = ''USDC::GISSUER''" by code_simp
  show ?thesis
    using computeNetBalancesByAsset_segregated [OF demo_by_asset] by (simp add: demo_sheets_def k)
qed


definition skewed_shares :: "share_input list" where
  "skewed_shares =
     [\<lparr>si_userId = ''a'', si_amount = None, si_percent = Some (Fin 0)\<rparr>,
      \<lparr>si_userId = ''b'', si_amount = None, si_percent = Some (Fin (50 + 3 / 4096))\<rparr>,
      \<lparr>si_userId = ''c'', si_amount = None, si_percent = Some (Fin (25 + 3 / 4096))\<rparr>,
      \<lparr>si_userId = ''d'', si_amount = None, si_percent = Some (Fin (25 - 6 / 4096))\<rparr>]"

lemma skewed_total: "percent_total skewed_shares = Inr (Fin 100)"
  by code_simp

lemma skewed_within_tolerance: "\<not> js_gt (js_abs (js_sub (Fin 100) (Fin 100))) percent_tolerance"
  by code_simp

lemma skewed_stroops: "map_res (percent_stroops 10000000000) skewed_shares
    = Inr [(''a'', 0), (''b'', 5000100000), (''c'', 2500100000), (''d'', 2499900000)]"
  by code_simp

text \<open>A defect of the percentage split: percentages are rounded to a thousandth of a percent
  one by one, so percentages that sum to exactly 100 can allocate more than the total, and
  the first participant, at 0 percent, is then charged a negative share.\<close>

theorem percentage_split_negative_share:
  "computeShares ''1000'' Percentage skewed_shares
   = Inr [\<lparr>cs_userId = ''a'', cs_shareAmount = ''-0.01''\<rparr>, \<lparr>cs_userId = ''b'', cs_shareAmount = ''500.01''\<rparr>,
          \<lparr>cs_userId = ''c'', cs_shareAmount = ''250.01''\<rparr>, \<lparr>cs_userId = ''d'', cs_shareAmount = ''249.99''\<rparr>]"
proof -
  have "toStroops ''1000'' = Inr 10000000000" by code_simp
  moreover have "fixRemainder [(''a'', 0), (''b'', 5000100000), (''c'', 2500100000), (''d'', 2499900000)]
      10000000000 = Inr
        [\<lparr>cs_userId = ''a'', cs_shareAmount = ''-0.01''\<rparr>, \<lparr>cs_userId = ''b'', cs_shareAmount = ''500.01''\<rparr>,
         \<lparr>cs_userId = ''c'', cs_shareAmount = ''250.01''\<rparr>, \<lparr>cs_userId = ''d'', cs_shareAmount = ''249.99''\<rparr>]"
    by code_simp
  ultimately show ?thesis
    using skewed_total skewed_within_tolerance skewed_stroops
    by (simp add: computeShares_def skewed_shares_def)
qed

end
