(* ===== verification/Expense_Calculation.thy ===== *)
theory Expense_Calculation
  imports Apportionment Settlement_Engine
begin

text \<open>
  \<^verbatim>\<open>src/src/services/expense-calculation.ts\<close>: exact splits of an expense, currency
  conversion, and the per-asset and normalized breakdown of a group's expenses.

  The model takes well-typed inputs, so the \<^verbatim>\<open>typeof\<close> guards that protect against untyped
  callers are not repeated; a \<^verbatim>\<open>DecimalLike\<close> is the string its \<^verbatim>\<open>toString\<close> yields. An
  error is known by its code; the message texts are left out.

  The lemmas show that every split sums to its total with shares within one stroop of the
  exact proportion, and that in each asset of a breakdown, and in its normalized view, what
  was paid, what is owed and the reported total are the same number.
\<close>

section \<open>Numbers as strings\<close>

text \<open>
  \<^verbatim>\<open>String(number)\<close>: of the decimals with the fewest digits that read back as the number,
  the nearest; \<open>decimal_point x\<close> is the \<open>n\<close> with \<open>10 ^ (n - 1) \<le> x < 10 ^ n\<close>.
\<close>

definition decimal_point :: "rat \<Rightarrow> int" where
  "decimal_point x =
     (if 1 \<le> x then int (length (nat_to_dec (nat \<lfloor>x\<rfloor>)))
      else 1 - int (length (nat_to_dec (nat (\<lceil>1 / x\<rceil> - 1)))))"

definition pow10 :: "int \<Rightarrow> rat" where
  "pow10 e = (if 0 \<le> e then of_int (10 ^ nat e) else 1 / of_int (10 ^ nat (- e)))"

fun shortest_digits :: "nat \<Rightarrow> nat \<Rightarrow> rat \<Rightarrow> int \<Rightarrow> string" where
  "shortest_digits 0 k x n = nat_to_dec (nat (round_half_even (x / pow10 (n - int k))))"
| "shortest_digits (Suc fuel) k x n =
     (let s = round_half_even (x / pow10 (n - int k)) in
      if double_of (of_int s * pow10 (n - int k)) = Fin x then nat_to_dec (nat s)
      else shortest_digits fuel (Suc k) x n)"

definition layout_digits :: "string \<Rightarrow> int \<Rightarrow> string" where
  "layout_digits ds n =
     (let k = int (length ds) in
      if k \<le> n \<and> n \<le> 21 then ds @ replicate (nat (n - k)) CHR ''0''
      else if 0 < n \<and> n \<le> 21 then take (nat n) ds @ ''.'' @ drop (nat n) ds
      else if - 6 < n \<and> n \<le> 0 then ''0.'' @ replicate (nat (- n)) CHR ''0'' @ ds
      else take 1 ds @ (if k = 1 then '''' else ''.'' @ drop 1 ds) @ ''e'' @
           (if 0 < n then ''+'' else ''-'') @ nat_to_dec (nat \<bar>n - 1\<bar>))"

definition js_number_to_string :: "js_number \<Rightarrow> string" where
  "js_number_to_string x =
     (case x of
        NaN \<Rightarrow> ''NaN'' | PosInf \<Rightarrow> ''Infinity'' | NegInf \<Rightarrow> ''-Infinity''
      | Fin q \<Rightarrow>
          if q = 0 then ''0''
          else (if q < 0 then ''-'' else '''') @
               (let a = \<bar>q\<bar>; n = decimal_point a in layout_digits (shortest_digits 16 1 a n) n))"

section \<open>Parsing helpers\<close>

definition PERCENT_SCALE :: int where "PERCENT_SCALE = 1000000"
definition PERCENT_TOTAL :: int where "PERCENT_TOTAL = 100 * PERCENT_SCALE"

definition parseAmount :: "string \<Rightarrow> bool \<Rightarrow> int res" where
  "parseAmount raw allowZero =
     (case toStroops raw of
        Inl _ \<Rightarrow> Inl (CalcError ''INVALID_AMOUNT'')
      | Inr st \<Rightarrow>
          if st < 0 then Inl (CalcError ''INVALID_AMOUNT'')
          else if \<not> allowZero \<and> st = 0 then Inl (CalcError ''INVALID_AMOUNT'')
          else Inr st)"

definition parseRate :: "string \<Rightarrow> int res" where
  "parseRate rate =
     (if \<not> raw_decimal rate then Inl (CalcError ''INVALID_RATE'')
      else
        let (whole, fraction) = split_decimal rate in
        if 7 < length fraction then Inl (CalcError ''INVALID_RATE'')
        else
          let scaled = int (dec_val whole) * RATE_SCALE + int (dec_val (take 7 (fraction @ ''0000000'')))
          in if scaled \<le> 0 then Inl (CalcError ''INVALID_RATE'') else Inr scaled)"

datatype percent_input = Percent_string string | Percent_number js_number

definition percent_text :: "percent_input \<Rightarrow> string" where
  "percent_text p = (case p of Percent_string s \<Rightarrow> s | Percent_number x \<Rightarrow> js_number_to_string x)"

definition parsePercent :: "percent_input option \<Rightarrow> int res" where
  "parsePercent percent =
     (case percent of
        None \<Rightarrow> Inl (CalcError ''INVALID_PERCENT'')
      | Some p \<Rightarrow>
          if (case p of Percent_number (Fin _) \<Rightarrow> False | Percent_number _ \<Rightarrow> True | _ \<Rightarrow> False)
          then Inl (CalcError ''INVALID_PERCENT'')
          else
            let raw = percent_text p in
            if \<not> raw_decimal raw then Inl (CalcError ''INVALID_PERCENT'')
            else
              let (whole, fraction) = split_decimal raw in
              if 6 < length fraction then Inl (CalcError ''INVALID_PERCENT'')
              else Inr (int (dec_val whole) * PERCENT_SCALE
                        + int (dec_val (take 6 (fraction @ ''000000'')))))"

definition formatPercent :: "int \<Rightarrow> string" where
  "formatPercent value =
     (let whole = bigint_div value PERCENT_SCALE;
          fraction = strip_trailing0 (pad_start0 6 (int_to_dec (bigint_mod value PERCENT_SCALE)))
      in if 0 < length fraction then int_to_dec whole @ ''.'' @ fraction else int_to_dec whole)"

type_synonym asset_ref = "string \<times> string option"

text \<open>The registry of \<^verbatim>\<open>services/money.ts\<close> is the argument \<open>validate\<close>: for the deployed service
  \<open>validateAsset_or_throw valid_key cfg\<close>.\<close>

definition normalizeAsset ::
  "(string \<Rightarrow> string option \<Rightarrow> asset_ref res) \<Rightarrow> string \<Rightarrow> string option \<Rightarrow> asset_ref res" where
  "normalizeAsset validate assetCode assetIssuer =
     (if js_trim assetCode = [] then Inl (CalcError ''UNSUPPORTED_ASSET'')
      else case validate assetCode assetIssuer of
             Inl _ \<Rightarrow> Inl (CalcError ''UNSUPPORTED_ASSET'')
           | Inr a \<Rightarrow> Inr a)"

section \<open>Currency conversion\<close>

definition convertStroops :: "int \<Rightarrow> string \<Rightarrow> rounding \<Rightarrow> int res" where
  "convertStroops st rate r =
     res_bind (parseRate rate) (\<lambda>scaledRate.
       let negative = st < 0;
           magnitude = (if negative then - st else st);
           converted = divideRounded (magnitude * scaledRate) RATE_SCALE r
       in res_bind (assertWithinStroopRange converted ''AMOUNT_OVERFLOW'') (\<lambda>_.
            Inr (if negative then - converted else converted)))"

definition convertAmount :: "string \<Rightarrow> string \<Rightarrow> rounding \<Rightarrow> string res" where
  "convertAmount amount rate r =
     res_bind (parseAmount amount True) (\<lambda>st. res_bind (convertStroops st rate r) fromStroops)"

section \<open>Expense splitting\<close>

record split_participant =
  sp_userId :: string
  sp_percent :: "percent_input option"
  sp_amount :: "string option"

record split_share =
  ss_userId :: string
  ss_amount :: string
  ss_percent :: "string option"

record split_result =
  sr_amount :: string
  sr_splitType :: split_type
  sr_shares :: "split_share list"
  sr_remainderStroops :: string

text \<open>The scan for blank and repeated user ids, over participants and over stored shares.\<close>

fun assert_users :: "string list \<Rightarrow> string set \<Rightarrow> unit res" where
  "assert_users [] seen = Inr ()"
| "assert_users (u # us) seen =
     (if js_trim u = [] then Inl (CalcError ''INVALID_PARTICIPANTS'')
      else if u \<in> seen then Inl (CalcError ''DUPLICATE_PARTICIPANT'')
      else assert_users us (insert u seen))"

definition assertParticipants :: "split_participant list \<Rightarrow> unit res" where
  "assertParticipants participants =
     (if participants = [] then Inl (CalcError ''INVALID_PARTICIPANTS'')
      else assert_users (map sp_userId participants) {})"

definition print_split ::
  "(split_participant \<Rightarrow> string option) \<Rightarrow> int \<Rightarrow> split_type \<Rightarrow> split_participant list \<Rightarrow> int list \<Rightarrow> int \<Rightarrow> split_result res" where
  "print_split pct tot t participants amounts remainder =
     res_bind (fromStroops tot) (\<lambda>amount.
     res_bind (map_res (\<lambda>(p, a). res_bind (fromStroops a) (\<lambda>s.
        Inr \<lparr>ss_userId = sp_userId p, ss_amount = s, ss_percent = pct p\<rparr>)) (zip participants amounts)) (\<lambda>shares.
     Inr \<lparr>sr_amount = amount, sr_splitType = t, sr_shares = shares,
          sr_remainderStroops = int_to_dec remainder\<rparr>))"

definition splitExpense_custom :: "int \<Rightarrow> split_participant list \<Rightarrow> split_result res" where
  "splitExpense_custom tot participants =
     res_bind (map_res (\<lambda>p. case sp_amount p of
           None \<Rightarrow> Inl (CalcError ''INVALID_SPLIT'')
         | Some a \<Rightarrow> parseAmount a True) participants) (\<lambda>amounts.
       let sum = sum_list amounts in
       if sum \<noteq> tot
       then res_bind (fromStroops tot) (\<lambda>_. res_bind (fromStroops sum) (\<lambda>_. Inl (CalcError ''INVALID_SPLIT'')))
       else print_split (\<lambda>_. None) tot Custom participants amounts 0)"

definition split_weights :: "split_type \<Rightarrow> split_participant list \<Rightarrow> int list res" where
  "split_weights splitType participants =
     (if splitType = Equal then Inr (map (\<lambda>_. 1) participants)
      else res_bind (map_res (\<lambda>p. parsePercent (sp_percent p)) participants) (\<lambda>weights.
        if sum_list weights \<noteq> PERCENT_TOTAL then Inl (CalcError ''INVALID_PERCENT'') else Inr weights))"

definition splitExpense :: "string \<Rightarrow> split_type \<Rightarrow> split_participant list \<Rightarrow> split_result res" where
  "splitExpense amount splitType participants =
     res_bind (parseAmount amount False) (\<lambda>tot.
     res_bind (assertParticipants participants) (\<lambda>_.
       if splitType = Custom then splitExpense_custom tot participants
       else
         res_bind (split_weights splitType participants) (\<lambda>weights.
         res_bind (allocateByWeights tot weights) (\<lambda>(amounts, remainderStroops).
           print_split (\<lambda>p. if splitType = Percentage then map_option percent_text (sp_percent p) else None)
             tot splitType participants amounts remainderStroops))))"

section \<open>Group expense breakdown\<close>

record expense_share_record =
  es_userId :: string
  es_shareAmount :: string

record expense_record =
  ex_payerUserId :: string
  ex_amount :: "string option"
  ex_assetCode :: string
  ex_assetIssuer :: "string option"
  ex_shares :: "expense_share_record list"

record participant_amounts =
  pa_userId :: string
  pa_paid :: string
  pa_owed :: string
  pa_net :: string

record asset_breakdown =
  ab_asset :: asset_ref
  ab_total :: string
  ab_expenseCount :: nat
  ab_participants :: "participant_amounts list"

record conversion_rate =
  cr_fromAssetCode :: string
  cr_fromAssetIssuer :: "string option"
  cr_rate :: string

record normalized_breakdown =
  nz_asset :: asset_ref
  nz_total :: string
  nz_participants :: "participant_amounts list"
  nz_appliedRates :: "(asset_ref \<times> string) list"

record group_breakdown =
  gb_assets :: "asset_breakdown list"
  gb_normalized :: "normalized_breakdown option"

text \<open>\<^verbatim>\<open>AssetAccumulator\<close>: two maps, the users in first-seen order, and the set of them.\<close>

record asset_accumulator =
  aa_asset :: asset_ref
  aa_paid :: net_map
  aa_owed :: net_map
  aa_order :: "string list"
  aa_seen :: "string set"
  aa_expenseCount :: nat

definition touch :: "string \<Rightarrow> asset_accumulator \<Rightarrow> asset_accumulator" where
  "touch userId acc =
     (if userId \<notin> aa_seen acc
      then acc\<lparr>aa_seen := insert userId (aa_seen acc), aa_order := aa_order acc @ [userId]\<rparr>
      else acc)"

definition addAmount :: "net_map \<Rightarrow> string \<Rightarrow> int \<Rightarrow> net_map" where
  "addAmount m userId amount = net_add userId amount m"

definition sumAmounts :: "int list \<Rightarrow> int" where
  "sumAmounts amounts = foldl (+) 0 amounts"

definition assertNoDuplicateShares :: "expense_share_record list \<Rightarrow> unit res" where
  "assertNoDuplicateShares shares = assert_users (map es_userId shares) {}"

type_synonym rate_table = "(string \<times> string \<times> int) list"

definition ref_key :: "asset_ref \<Rightarrow> string" where
  "ref_key a = balanceAssetKey (fst a) (snd a)"

definition add_rate ::
  "(string \<Rightarrow> string option \<Rightarrow> asset_ref res) \<Rightarrow> conversion_rate \<Rightarrow> rate_table \<Rightarrow> rate_table res" where
  "add_rate validate entry rates =
     res_bind (normalizeAsset validate (cr_fromAssetCode entry) (cr_fromAssetIssuer entry)) (\<lambda>asset.
       let key = ref_key asset in
       if map_of rates key \<noteq> None then Inl (CalcError ''INVALID_RATE'')
       else res_bind (parseRate (cr_rate entry)) (\<lambda>scaled.
         Inr (AList.update key (cr_rate entry, scaled) rates)))"

text \<open>The checks of one expense: its asset, its share amounts, and their sum.\<close>

definition read_expense ::
  "(string \<Rightarrow> string option \<Rightarrow> asset_ref res) \<Rightarrow> expense_record \<Rightarrow> (asset_ref \<times> int list \<times> int) res" where
  "read_expense validate e =
     (if js_trim (ex_payerUserId e) = [] then Inl (CalcError ''INVALID_PARTICIPANTS'')
      else if ex_shares e = [] then Inl (CalcError ''INVALID_PARTICIPANTS'')
      else
        res_bind (assertNoDuplicateShares (ex_shares e)) (\<lambda>_.
        res_bind (normalizeAsset validate (ex_assetCode e) (ex_assetIssuer e)) (\<lambda>asset.
        res_bind (map_res (\<lambda>s. parseAmount (es_shareAmount s) True) (ex_shares e)) (\<lambda>shareStroops.
          let shareTotal = sumAmounts shareStroops in
          if shareTotal \<le> 0 then Inl (CalcError ''INVALID_AMOUNT'')
          else
            case ex_amount e of
              None \<Rightarrow> Inr (asset, shareStroops, shareTotal)
            | Some a \<Rightarrow>
                res_bind (parseAmount a False) (\<lambda>declared.
                  if declared \<noteq> shareTotal
                  then res_bind (fromStroops declared) (\<lambda>_. res_bind (fromStroops shareTotal) (\<lambda>_.
                         Inl (CalcError ''INCONSISTENT_EXPENSE'')))
                  else Inr (asset, shareStroops, shareTotal))))))"

definition new_accumulator :: "asset_ref \<Rightarrow> asset_accumulator" where
  "new_accumulator asset =
     \<lparr>aa_asset = asset, aa_paid = [], aa_owed = [], aa_order = [], aa_seen = {}, aa_expenseCount = 0\<rparr>"

definition add_owed :: "string \<times> int \<Rightarrow> asset_accumulator \<Rightarrow> asset_accumulator" where
  "add_owed = (\<lambda>(userId, amount) acc.
     let acc' = touch userId acc in acc'\<lparr>aa_owed := addAmount (aa_owed acc') userId amount\<rparr>)"

definition accumulate :: "string \<Rightarrow> (string \<times> int) list \<Rightarrow> int \<Rightarrow> asset_accumulator \<Rightarrow> asset_accumulator" where
  "accumulate payer shares shareTotal acc =
     (let acc1 = touch payer acc;
          acc2 = acc1\<lparr>aa_paid := addAmount (aa_paid acc1) payer shareTotal\<rparr>;
          acc3 = acc2\<lparr>aa_expenseCount := aa_expenseCount acc2 + 1\<rparr>
      in fold add_owed shares acc3)"

type_synonym accumulators = "(string \<times> asset_accumulator) list"

definition record_expense ::
  "(string \<Rightarrow> string option \<Rightarrow> asset_ref res) \<Rightarrow> expense_record \<Rightarrow> accumulators \<Rightarrow> accumulators res" where
  "record_expense validate e accs =
     res_bind (read_expense validate e) (\<lambda>(asset, shareStroops, shareTotal).
       let key = ref_key asset;
           acc = (case map_of accs key of Some a \<Rightarrow> a | None \<Rightarrow> new_accumulator asset)
       in Inr (AList.update key
            (accumulate (ex_payerUserId e) (zip (map es_userId (ex_shares e)) shareStroops) shareTotal acc) accs))"

text \<open>One row of a breakdown, per asset and normalized alike.\<close>

definition participant_row :: "net_map \<Rightarrow> net_map \<Rightarrow> string \<Rightarrow> participant_amounts res" where
  "participant_row paidMap owedMap userId =
     (let paid = net_of paidMap userId; owed = net_of owedMap userId in
      res_bind (assertWithinStroopRange paid ''AMOUNT_OVERFLOW'') (\<lambda>_.
      res_bind (assertWithinStroopRange owed ''AMOUNT_OVERFLOW'') (\<lambda>_.
      res_bind (fromStroops paid) (\<lambda>p.
      res_bind (fromStroops owed) (\<lambda>ow.
      res_bind (fromStroops (paid - owed)) (\<lambda>n.
        Inr \<lparr>pa_userId = userId, pa_paid = p, pa_owed = ow, pa_net = n\<rparr>))))))"

definition asset_view :: "asset_accumulator \<Rightarrow> asset_breakdown res" where
  "asset_view acc =
     res_bind (map_res (participant_row (aa_paid acc) (aa_owed acc)) (aa_order acc)) (\<lambda>participants.
       let tot = sumAmounts (map snd (aa_owed acc)) in
       res_bind (assertWithinStroopRange tot ''AMOUNT_OVERFLOW'') (\<lambda>_.
       res_bind (fromStroops tot) (\<lambda>t.
         Inr \<lparr>ab_asset = aa_asset acc, ab_total = t, ab_expenseCount = aa_expenseCount acc,
              ab_participants = participants\<rparr>)))"

text \<open>The running state of the normalization.\<close>

record normal_state =
  ns_paid :: net_map
  ns_owed :: net_map
  ns_order :: "string list"
  ns_seen :: "string set"
  ns_rates :: "(asset_ref \<times> string) list"
  ns_total :: int

definition convert_asset ::
  "rate_table \<Rightarrow> string \<Rightarrow> asset_accumulator \<Rightarrow> (int list \<times> int list \<times> (asset_ref \<times> string) list) res" where
  "convert_asset rates targetKey acc =
     (let key = ref_key (aa_asset acc);
          paidAmounts = map (net_of (aa_paid acc)) (aa_order acc);
          owedAmounts = map (net_of (aa_owed acc)) (aa_order acc)
      in if key = targetKey then Inr (paidAmounts, owedAmounts, [])
         else case map_of rates key of
                None \<Rightarrow> Inl (CalcError ''MISSING_RATE'')
              | Some (rate, rateScaled) \<Rightarrow>
                  res_bind (convertAllocations paidAmounts rateScaled) (\<lambda>convertedPaid.
                  res_bind (convertAllocations owedAmounts rateScaled) (\<lambda>convertedOwed.
                    Inr (convertedPaid, convertedOwed, [(aa_asset acc, rate)]))))"

definition see_user :: "string \<Rightarrow> normal_state \<Rightarrow> normal_state" where
  "see_user u st =
     (if u \<notin> ns_seen st then st\<lparr>ns_seen := insert u (ns_seen st), ns_order := ns_order st @ [u]\<rparr> else st)"

definition add_converted :: "string \<times> int \<times> int \<Rightarrow> normal_state \<Rightarrow> normal_state" where
  "add_converted = (\<lambda>(u, paid, owed) st.
     st\<lparr>ns_paid := addAmount (ns_paid st) u paid, ns_owed := addAmount (ns_owed st) u owed\<rparr>)"

definition normalize_step ::
  "rate_table \<Rightarrow> string \<Rightarrow> asset_accumulator \<Rightarrow> normal_state \<Rightarrow> normal_state res" where
  "normalize_step rates targetKey acc st =
     res_bind (convert_asset rates targetKey acc) (\<lambda>(paid, owed, applied).
       let st1 = fold see_user (aa_order acc) (st\<lparr>ns_rates := ns_rates st @ applied\<rparr>);
           st2 = fold add_converted (zip (aa_order acc) (zip paid owed)) st1
       in Inr (st2\<lparr>ns_total := ns_total st2 + sumAmounts owed\<rparr>))"

definition normalize_view ::
  "rate_table \<Rightarrow> asset_ref \<Rightarrow> asset_accumulator list \<Rightarrow> normalized_breakdown res" where
  "normalize_view rates target accs =
     res_bind (fold_res (normalize_step rates (ref_key target)) accs
       \<lparr>ns_paid = [], ns_owed = [], ns_order = [], ns_seen = {}, ns_rates = [], ns_total = 0\<rparr>) (\<lambda>st.
     res_bind (assertWithinStroopRange (ns_total st) ''AMOUNT_OVERFLOW'') (\<lambda>_.
     res_bind (map_res (participant_row (ns_paid st) (ns_owed st)) (ns_order st)) (\<lambda>participants.
     res_bind (fromStroops (ns_total st)) (\<lambda>t.
       Inr \<lparr>nz_asset = target, nz_total = t, nz_participants = participants,
            nz_appliedRates = ns_rates st\<rparr>))))"

definition calculateGroupExpenseBreakdown ::
  "(string \<Rightarrow> string option \<Rightarrow> asset_ref res) \<Rightarrow> expense_record list \<Rightarrow> (string \<times> string option) option
    \<Rightarrow> conversion_rate list \<Rightarrow> group_breakdown res" where
  "calculateGroupExpenseBreakdown validate expenses targetAsset rateInputs =
     res_bind (fold_res (add_rate validate) rateInputs []) (\<lambda>rates.
     res_bind (fold_res (record_expense validate) expenses []) (\<lambda>accumulators.
     res_bind (map_res asset_view (map snd accumulators)) (\<lambda>assets.
       case targetAsset of
         None \<Rightarrow> Inr \<lparr>gb_assets = assets, gb_normalized = None\<rparr>
       | Some (code, issuer) \<Rightarrow>
           res_bind (normalizeAsset validate code issuer) (\<lambda>target.
           res_bind (normalize_view rates target (map snd accumulators)) (\<lambda>n.
             Inr \<lparr>gb_assets = assets, gb_normalized = Some n\<rparr>)))))"

section \<open>Parsing and printing\<close>

lemma assert_users_Inr:
  "assert_users us seen = Inr () \<longleftrightarrow> distinct us \<and> set us \<inter> seen = {} \<and> (\<forall>u \<in> set us. js_trim u \<noteq> [])"
  by (induction us arbitrary: seen) auto

lemma parseAmount_Inr [res_simps]:
  "parseAmount s z = Inr n \<longleftrightarrow> toStroops s = Inr n \<and> 0 \<le> n \<and> (z \<or> 0 < n)"
  by (auto simp: parseAmount_def split: sum.splits if_splits)

lemma parsePercent_nonneg: "parsePercent p = Inr n \<Longrightarrow> 0 \<le> n"
  by (auto simp: parsePercent_def PERCENT_SCALE_def Let_def split: option.splits if_splits prod.splits)

lemma parseRate_pos: "parseRate s = Inr n \<Longrightarrow> 0 < n"
  by (auto simp: parseRate_def Let_def split: if_splits prod.splits)

text \<open>A rate is read exactly: it is the decimal's value in units of ten millionths.\<close>

lemma parseRate_denotes: "denotes s n \<Longrightarrow> 0 < n \<Longrightarrow> parseRate s = Inr (int n)"
  by (drule denotes_raw) (auto simp: parseRate_def RATE_SCALE_def Let_def pad7_def)

lemma range_Inr [res_simps]: "assertWithinStroopRange n c = Inr u \<longleftrightarrow> \<bar>n\<bar> \<le> MAX_STROOPS"
  by (auto simp: assertWithinStroopRange_def Let_def)

lemma sumAmounts_eq [simp]: "sumAmounts xs = sum_list xs"
  by (simp add: sumAmounts_def fold_plus_sum_list_rev foldl_conv_fold add.commute)

lemma print_split_Inr:
  assumes "print_split pct t st ps amounts k = Inr r" "length amounts = length ps"
  shows "toStroops (sr_amount r) = Inr t"
    "map ss_userId (sr_shares r) = map sp_userId ps"
    "map_res toStroops (map ss_amount (sr_shares r)) = Inr amounts"
    "sr_remainderStroops r = int_to_dec k"
proof -
  let ?mk = "\<lambda>(p, a) s. \<lparr>ss_userId = sp_userId p, ss_amount = s, ss_percent = pct p\<rparr>"
  obtain am shares where r: "fromStroops t = Inr am"
      "map_res (\<lambda>r. res_bind (fromStroops (snd r)) (\<lambda>s. Inr (?mk r s))) (zip ps amounts) = Inr shares"
      "r = \<lparr>sr_amount = am, sr_splitType = st, sr_shares = shares, sr_remainderStroops = int_to_dec k\<rparr>"
    using assms(1) by (auto simp: print_split_def res_simps case_prod_unfold)
  show "toStroops (sr_amount r) = Inr t" "sr_remainderStroops r = int_to_dec k"
    using r codec.dec_enc by simp_all
  have get: "ss_amount (?mk r s) = s" for r s by (cases r) simp
  note rows = codec.print_rows [OF r(2), where get = ss_amount, OF get]
  show "map_res toStroops (map ss_amount (sr_shares r)) = Inr amounts"
    using rows(1) assms(2) r(3) by simp
  have "list_all2 (\<lambda>r x. ss_userId x = (sp_userId \<circ> fst) r) (zip ps amounts) shares"
    using rows(2) by (rule list_all2_mono) (metis (mono_tags, lifting) case_prod_unfold comp_apply split_share.select_convs(1))
  then have "map ss_userId shares = map (sp_userId \<circ> fst) (zip ps amounts)"
    unfolding list_all2_eq_map .
  then show "map ss_userId (sr_shares r) = map sp_userId ps"
    using r(3) assms(2) by (metis map_fst_zip map_map split_result.select_convs(3))
qed

lemma print_split_total:
  assumes "\<forall>a \<in> set amounts. \<bar>a\<bar> \<le> MAX_STROOPS" "\<bar>t\<bar> \<le> MAX_STROOPS"
  shows "\<exists>r. print_split pct t st ps amounts k = Inr r"
proof -
  let ?mk = "\<lambda>(p, a) s. \<lparr>ss_userId = sp_userId p, ss_amount = s, ss_percent = pct p\<rparr>"
  have "\<exists>out. map_res (\<lambda>r. res_bind (fromStroops (snd r)) (\<lambda>s. Inr (?mk r s))) (zip ps amounts) = Inr out"
    using assms(1) by (intro codec.print_rows_total) (auto dest: set_zip_rightD)
  moreover obtain am where "fromStroops t = Inr am" using codec.enc_total [OF assms(2)] by blast
  ultimately show ?thesis by (auto simp: print_split_def case_prod_unfold)
qed

section \<open>Splits\<close>

lemma split_weights_Inr:
  assumes "split_weights t ps = Inr ws" "ps \<noteq> []"
  shows "length ws = length ps" "\<forall>w \<in> set ws. 0 \<le> w" "0 < sum_list ws"
    "t \<noteq> Equal \<Longrightarrow> sum_list ws = PERCENT_TOTAL" "t = Equal \<Longrightarrow> ws = replicate (length ps) 1"
  using assms
  by (auto simp: split_weights_def res_simps map_res_Inr_iff list_all2_conv_all_nth in_set_conv_nth
      PERCENT_TOTAL_def PERCENT_SCALE_def sum_list_replicate map_replicate_const
      dest!: parsePercent_nonneg split: if_splits)

text \<open>Every successful split is a list of non-negative stroop amounts with the total as its
  sum, one per participant; a weighted one is the largest-remainder allocation.\<close>

lemma splitExpense_stroops:
  assumes "splitExpense amount t ps = Inr r"
  obtains tot amounts where "toStroops amount = Inr tot" "0 < tot" "toStroops (sr_amount r) = Inr tot"
    "map ss_userId (sr_shares r) = map sp_userId ps" "distinct (map sp_userId ps)"
    "map_res toStroops (map ss_amount (sr_shares r)) = Inr amounts" "length amounts = length ps"
    "sum_list amounts = tot" "\<forall>a \<in> set amounts. 0 \<le> a"
    "t \<noteq> Custom \<Longrightarrow> \<exists>ws k. split_weights t ps = Inr ws \<and> allocateByWeights tot ws = Inr (amounts, k)
       \<and> sr_remainderStroops r = int_to_dec k"
proof -
  obtain tot where tot: "toStroops amount = Inr tot" "0 < tot" and part: "assertParticipants ps = Inr ()"
      and r: "(if t = Custom then splitExpense_custom tot ps
       else res_bind (split_weights t ps) (\<lambda>weights.
         res_bind (allocateByWeights tot weights) (\<lambda>(amounts, k).
           print_split (\<lambda>p. if t = Percentage then map_option percent_text (sp_percent p) else None)
             tot t ps amounts k))) = Inr r"
    using assms by (auto simp: splitExpense_def res_simps)
  have ps: "ps \<noteq> []" "distinct (map sp_userId ps)"
    using part by (auto simp: assertParticipants_def assert_users_Inr split: if_splits)
  show thesis
  proof (cases "t = Custom")
    case True
    then obtain amounts where a: "map_res (\<lambda>p. case sp_amount p of
           None \<Rightarrow> Inl (CalcError ''INVALID_SPLIT'') | Some a \<Rightarrow> parseAmount a True) ps = Inr amounts"
        "sum_list amounts = tot" "print_split (\<lambda>_. None) tot Custom ps amounts 0 = Inr r"
      using r by (auto simp: splitExpense_custom_def res_simps Let_def split: if_splits)
    have "0 \<le> amounts ! i" if "i < length ps" for i
      using map_res_nth [OF a(1) that] by (auto simp: res_simps split: option.splits)
    then have "\<forall>a \<in> set amounts. 0 \<le> a"
      using map_res_length [OF a(1)] by (auto simp: in_set_conv_nth)
    with a tot ps True print_split_Inr [OF a(3) map_res_length [OF a(1)]] map_res_length [OF a(1)]
    show thesis by (intro that) simp_all
  next
    case False
    then obtain ws amounts k where w: "split_weights t ps = Inr ws"
        "allocateByWeights tot ws = Inr (amounts, k)"
        "print_split (\<lambda>p. if t = Percentage then map_option percent_text (sp_percent p) else None)
             tot t ps amounts k = Inr r"
      using r by (auto simp: res_simps)
    note ws = split_weights_Inr [OF w(1) ps(1)]
    have out: "res_bind (allocateByWeights tot ws) (\<lambda>(out, _). Inr out) = Inr amounts" using w(2) by simp
    have v: "0 \<le> tot \<and> 0 < sum_list ws" using tot ws by simp
    have len: "length amounts = length ps" "sum_list amounts = tot"
      using by_weights.exact [OF v out] ws(1) by simp_all
    have "0 \<le> amounts ! i" if "i < length ps" for i
      using by_weights.nonneg [OF v out, of i] ws(1,2) that v by simp
    then have "\<forall>a \<in> set amounts. 0 \<le> a" using len by (auto simp: in_set_conv_nth)
    with len tot ps w print_split_Inr [OF w(3) len(1)] show thesis by (intro that) auto
  qed
qed

section \<open>The maps of a breakdown\<close>

text \<open>A map of non-negative amounts whose users are all in the first-seen order.\<close>

definition covers :: "string list \<Rightarrow> string set \<Rightarrow> net_map \<Rightarrow> bool" where
  "covers order seen m \<longleftrightarrow>
     distinct order \<and> set order = seen \<and> distinct (map fst m) \<and> fst ` set m \<subseteq> seen \<and> (\<forall>u. 0 \<le> net_of m u)"

lemma net_of_absent: "u \<notin> fst ` set m \<Longrightarrow> net_of m u = 0"
  by (auto simp: net_of_def map_of_eq_None_iff split: option.splits dest: map_of_SomeD)
    (metis fst_conv image_eqI map_of_SomeD)

lemma net_of_sum:
  assumes "distinct us" "distinct (map fst m)" "fst ` set m \<subseteq> set us"
  shows "sum_list (map (net_of m) us) = sum_list (map snd m)"
  using assms(2,3)
proof (induction m)
  case (Cons p m)
  obtain k v where p: "p = (k, v)" by force
  have k: "k \<in> set us" "net_of m k = 0" using Cons.prems p by (auto simp: net_of_absent)
  have "map (net_of (p # m)) us = map (\<lambda>u. net_of m u + (if u = k then v else 0)) us"
    using k(2) by (simp add: p net_of_def)
  then have "sum_list (map (net_of (p # m)) us) =
      sum_list (map (net_of m) us) + sum_list (map (\<lambda>u. if u = k then v else 0) us)"
    by (simp only: sum_list_addf)
  also have "sum_list (map (\<lambda>u. if u = k then v else 0) us) = v"
    using assms(1) k(1) by (simp add: sum_list_distinct_conv_sum_set)
  finally show ?case using Cons by (simp add: p)
next
  case Nil
  have "map (net_of []) us = map (\<lambda>_. 0) us" by simp
  then show ?case by (metis list.simps(8) sum_list.Nil sum_list_0)
qed

lemma covers_total: "covers us s m \<Longrightarrow> sum_list (map (net_of m) us) = sum_list (map snd m)"
  by (rule net_of_sum) (auto simp: covers_def)

lemma covers_Nil [simp]: "covers [] {} []"
  by (simp add: covers_def)

lemma covers_add: "covers us s m \<Longrightarrow> u \<in> s \<Longrightarrow> 0 \<le> d \<Longrightarrow> covers us s (addAmount m u d)"
  by (auto simp: covers_def addAmount_def distinct_net_add) (auto simp: net_add_def dest!: subsetD [OF set_update])

lemma covers_see: "covers us s m \<Longrightarrow> u \<notin> s \<Longrightarrow> covers (us @ [u]) (insert u s) m"
  by (auto simp: covers_def)

lemma sum_addAmount: "covers us s m \<Longrightarrow> sum_list (map snd (addAmount m u d)) = sum_list (map snd m) + d"
  by (simp add: covers_def addAmount_def sum_net_add)

text \<open>The invariant of an accumulator, and the printed view it gives.\<close>

definition books_ok :: "string list \<Rightarrow> string set \<Rightarrow> net_map \<Rightarrow> net_map \<Rightarrow> int \<Rightarrow> bool" where
  "books_ok order seen paid owed due \<longleftrightarrow>
     covers order seen paid \<and> covers order seen owed \<and> sum_list (map snd paid) = sum_list (map snd owed) + due"

definition balanced_view :: "string \<Rightarrow> participant_amounts list \<Rightarrow> bool" where
  "balanced_view tot rows \<longleftrightarrow>
     (\<exists>ps ows ns. map_res toStroops (map pa_paid rows) = Inr ps \<and> map_res toStroops (map pa_owed rows) = Inr ows
        \<and> map_res toStroops (map pa_net rows) = Inr ns \<and> ns = map2 (-) ps ows
        \<and> toStroops tot = Inr (sum_list ps) \<and> sum_list ows = sum_list ps \<and> sum_list ns = 0
        \<and> distinct (map pa_userId rows))"

lemma participant_row_Inr:
  "participant_row paid owed u = Inr r \<Longrightarrow>
     pa_userId r = u \<and> toStroops (pa_paid r) = Inr (net_of paid u) \<and> toStroops (pa_owed r) = Inr (net_of owed u)
     \<and> toStroops (pa_net r) = Inr (net_of paid u - net_of owed u)"
  by (auto simp: participant_row_def Let_def res_simps dest: codec.dec_enc)

lemma participant_rows:
  assumes "map_res (participant_row paid owed) us = Inr rows"
  shows "map pa_userId rows = us"
    "map_res toStroops (map pa_paid rows) = Inr (map (net_of paid) us)"
    "map_res toStroops (map pa_owed rows) = Inr (map (net_of owed) us)"
    "map_res toStroops (map pa_net rows) = Inr (map (\<lambda>u. net_of paid u - net_of owed u) us)"
proof -
  have l: "length rows = length us" using assms by (rule map_res_length)
  have r: "i < length us \<Longrightarrow> participant_row paid owed (us ! i) = Inr (rows ! i)" for i
    using map_res_nth [OF assms] by simp
  show "map pa_userId rows = us"
    using l participant_row_Inr [OF r] by (simp add: list_eq_iff_nth_eq)
  show "map_res toStroops (map pa_paid rows) = Inr (map (net_of paid) us)"
    "map_res toStroops (map pa_owed rows) = Inr (map (net_of owed) us)"
    "map_res toStroops (map pa_net rows) = Inr (map (\<lambda>u. net_of paid u - net_of owed u) us)"
    using l participant_row_Inr [OF r] by (simp_all add: map_res_Inr_iff list_all2_conv_all_nth)
qed

lemma books_view:
  assumes "books_ok us s paid owed 0" "map_res (participant_row paid owed) us = Inr rows"
    "toStroops tot = Inr (sum_list (map snd owed))"
  shows "balanced_view tot rows"
proof -
  note rows = participant_rows [OF assms(2)]
  have b: "covers us s paid" "covers us s owed" "sum_list (map snd paid) = sum_list (map snd owed)"
    using assms(1) by (auto simp: books_ok_def)
  have sums: "sum_list (map (net_of paid) us) = sum_list (map snd owed)"
    "sum_list (map (net_of owed) us) = sum_list (map snd owed)"
    using covers_total [OF b(1)] covers_total [OF b(2)] b(3) by simp_all
  then have "sum_list (map (\<lambda>u. net_of paid u - net_of owed u) us) = 0" by (simp add: sum_list_subtractf)
  moreover have "map (\<lambda>u. net_of paid u - net_of owed u) us = map2 (-) (map (net_of paid) us) (map (net_of owed) us)"
    by (simp add: zip_map_map zip_same_conv_map comp_def)
  ultimately show ?thesis
    unfolding balanced_view_def using rows sums assms(3) b(1) by (auto simp: covers_def)
qed

lemma books_see:
  "books_ok us s paid owed d \<Longrightarrow> u \<notin> s \<Longrightarrow> books_ok (us @ [u]) (insert u s) paid owed d"
  by (auto simp: books_ok_def covers_see)

lemma books_pay:
  "books_ok us s paid owed d \<Longrightarrow> u \<in> s \<Longrightarrow> 0 \<le> x \<Longrightarrow> books_ok us s (addAmount paid u x) owed (d + x)"
  by (auto simp: books_ok_def covers_add sum_addAmount)

lemma books_owe:
  "books_ok us s paid owed d \<Longrightarrow> u \<in> s \<Longrightarrow> 0 \<le> x \<Longrightarrow> books_ok us s paid (addAmount owed u x) (d - x)"
  by (auto simp: books_ok_def covers_add sum_addAmount)

lemmas books_steps = books_see books_pay books_owe

section \<open>Accumulating expenses\<close>

definition acc_ok :: "int \<Rightarrow> asset_accumulator \<Rightarrow> bool" where
  "acc_ok due acc \<longleftrightarrow> books_ok (aa_order acc) (aa_seen acc) (aa_paid acc) (aa_owed acc) due"

lemma touch_simps [simp]:
  "aa_paid (touch u acc) = aa_paid acc" "aa_owed (touch u acc) = aa_owed acc"
  "aa_asset (touch u acc) = aa_asset acc" "u \<in> aa_seen (touch u acc)"
  by (simp_all add: touch_def)

lemma touch_ok: "acc_ok d acc \<Longrightarrow> acc_ok d (touch u acc)"
  by (simp add: acc_ok_def touch_def books_see)

lemma add_owed_ok: "acc_ok d acc \<Longrightarrow> 0 \<le> x \<Longrightarrow> acc_ok (d - x) (add_owed (u, x) acc)"
  using touch_ok [of d acc u] by (simp add: acc_ok_def add_owed_def Let_def) (rule books_owe [of _ _ _ "aa_owed acc"], simp_all)

lemma fold_owed_ok:
  "acc_ok d acc \<Longrightarrow> \<forall>x \<in> snd ` set shares. 0 \<le> x \<Longrightarrow> acc_ok (d - sum_list (map snd shares)) (fold add_owed shares acc)"
proof (induction shares arbitrary: d acc)
  case (Cons p shares)
  then show ?case using add_owed_ok [of d acc "snd p" "fst p"] Cons.IH [of "d - snd p"]
    by (simp add: algebra_simps)
qed simp

lemma add_owed_simps [simp]:
  "aa_asset (add_owed p acc) = aa_asset acc" "aa_paid (add_owed p acc) = aa_paid acc"
  "net_of (aa_owed (add_owed p acc)) u = net_of (aa_owed acc) u + (if u = fst p then snd p else 0)"
  by (cases p; simp add: add_owed_def Let_def addAmount_def)+

lemma fold_owed_simps [simp]:
  "aa_asset (fold add_owed shares acc) = aa_asset acc" "aa_paid (fold add_owed shares acc) = aa_paid acc"
  "net_of (aa_owed (fold add_owed shares acc)) u =
     net_of (aa_owed acc) u + sum_list (map (\<lambda>p. if u = fst p then snd p else 0) shares)"
  by (induction shares arbitrary: acc) simp_all

lemma accumulate_ok:
  assumes "acc_ok 0 acc" "\<forall>x \<in> snd ` set shares. 0 \<le> x" "t = sum_list (map snd shares)"
  shows "acc_ok 0 (accumulate payer shares t acc)"
proof -
  let ?a = "(touch payer acc)\<lparr>aa_paid := addAmount (aa_paid acc) payer t,
    aa_expenseCount := aa_expenseCount (touch payer acc) + 1\<rparr>"
  have "0 \<le> t" unfolding assms(3) by (rule sum_list_nonneg) (use assms(2) in auto)
  then have "acc_ok t ?a"
    using touch_ok [OF assms(1), of payer] books_pay [of _ _ "aa_paid acc" _ 0 payer t]
    by (simp add: acc_ok_def)
  then show ?thesis using fold_owed_ok [of t ?a shares] assms by (simp add: accumulate_def Let_def)
qed

lemma accumulate_simps [simp]:
  "aa_asset (accumulate payer shares t acc) = aa_asset acc"
  "net_of (aa_paid (accumulate payer shares t acc)) u = net_of (aa_paid acc) u + (if u = payer then t else 0)"
  "net_of (aa_owed (accumulate payer shares t acc)) u =
     net_of (aa_owed acc) u + sum_list (map (\<lambda>p. if u = fst p then snd p else 0) shares)"
  by (simp_all add: accumulate_def Let_def addAmount_def)

lemma new_accumulator_ok [simp]: "acc_ok 0 (new_accumulator a)" "aa_asset (new_accumulator a) = a"
  "aa_paid (new_accumulator a) = []" "aa_owed (new_accumulator a) = []"
  by (simp_all add: acc_ok_def books_ok_def new_accumulator_def)

lemma read_expense_Inr:
  assumes "read_expense validate e = Inr (asset, ss, t)"
  shows "t = sum_list ss" "0 < t" "\<forall>x \<in> set ss. 0 \<le> x" "length ss = length (ex_shares e)"
    "distinct (map es_userId (ex_shares e))"
proof -
  have m: "map_res (\<lambda>s. parseAmount (es_shareAmount s) True) (ex_shares e) = Inr ss"
    and "t = sum_list ss" "0 < t" "assertNoDuplicateShares (ex_shares e) = Inr ()"
    using assms by (auto simp: read_expense_def res_simps Let_def split: if_splits option.splits)
  then show "t = sum_list ss" "0 < t" "distinct (map es_userId (ex_shares e))"
    by (auto simp: assertNoDuplicateShares_def assert_users_Inr)
  show "length ss = length (ex_shares e)" using map_res_length [OF m] .
  then show "\<forall>x \<in> set ss. 0 \<le> x"
    using map_res_nth [OF m] by (auto simp: in_set_conv_nth res_simps)
qed

text \<open>What an expense contributes to a user in an asset.\<close>

definition expense_paid :: "(string \<Rightarrow> string option \<Rightarrow> asset_ref res) \<Rightarrow> string \<Rightarrow> string \<Rightarrow> expense_record \<Rightarrow> int" where
  "expense_paid validate key u e =
     (case read_expense validate e of
        Inr (asset, ss, t) \<Rightarrow> if ref_key asset = key \<and> u = ex_payerUserId e then t else 0
      | Inl _ \<Rightarrow> 0)"

definition expense_owed :: "(string \<Rightarrow> string option \<Rightarrow> asset_ref res) \<Rightarrow> string \<Rightarrow> string \<Rightarrow> expense_record \<Rightarrow> int" where
  "expense_owed validate key u e =
     (case read_expense validate e of
        Inr (asset, ss, t) \<Rightarrow>
          if ref_key asset = key
          then sum_list (map (\<lambda>p. if u = fst p then snd p else 0) (zip (map es_userId (ex_shares e)) ss)) else 0
      | Inl _ \<Rightarrow> 0)"

definition acc_at :: "accumulators \<Rightarrow> string \<Rightarrow> string \<Rightarrow> int \<times> int" where
  "acc_at accs key u =
     (case map_of accs key of None \<Rightarrow> (0, 0) | Some a \<Rightarrow> (net_of (aa_paid a) u, net_of (aa_owed a) u))"

definition accs_ok :: "accumulators \<Rightarrow> bool" where
  "accs_ok accs \<longleftrightarrow> distinct (map fst accs) \<and> (\<forall>(k, a) \<in> set accs. acc_ok 0 a \<and> ref_key (aa_asset a) = k)"

lemma record_expense_Inr:
  assumes "record_expense validate e accs = Inr accs'" "accs_ok accs"
  shows "accs_ok accs'"
    "acc_at accs' key u = (fst (acc_at accs key u) + expense_paid validate key u e,
                           snd (acc_at accs key u) + expense_owed validate key u e)"
proof -
  obtain asset ss t where r: "read_expense validate e = Inr (asset, ss, t)"
    using assms(1) by (auto simp: record_expense_def res_simps)
  define acc where "acc = (case map_of accs (ref_key asset) of Some a \<Rightarrow> a | None \<Rightarrow> new_accumulator asset)"
  let ?new = "accumulate (ex_payerUserId e) (zip (map es_userId (ex_shares e)) ss) t acc"
  have a': "accs' = AList.update (ref_key asset) ?new accs"
    using assms(1) r by (simp add: record_expense_def Let_def acc_def)
  note e = read_expense_Inr [OF r]
  have acc: "acc_ok 0 acc" "ref_key (aa_asset acc) = ref_key asset"
    using assms(2) unfolding acc_def accs_ok_def by (auto split: option.splits dest!: map_of_SomeD)
  have "acc_ok 0 ?new"
    using e by (intro accumulate_ok acc) (auto dest: set_zip_rightD)
  then show "accs_ok accs'"
    using assms(2) acc(2) unfolding a' accs_ok_def
    by (auto simp: distinct_update dest!: subsetD [OF set_update])
  show "acc_at accs' key u = (fst (acc_at accs key u) + expense_paid validate key u e,
      snd (acc_at accs key u) + expense_owed validate key u e)"
    unfolding a' acc_at_def expense_paid_def expense_owed_def r
    by (auto simp: update_conv' acc_def split: option.splits)
qed

lemma record_expenses:
  assumes "fold_res (record_expense validate) es accs = Inr accs'" "accs_ok accs"
  shows "accs_ok accs' \<and>
    acc_at accs' key u = (fst (acc_at accs key u) + sum_list (map (expense_paid validate key u) es),
                          snd (acc_at accs key u) + sum_list (map (expense_owed validate key u) es))"
  using assms
proof (induction es arbitrary: accs)
  case (Cons e es)
  then obtain a where a: "record_expense validate e accs = Inr a"
      "fold_res (record_expense validate) es a = Inr accs'"
    by (auto simp: res_simps)
  show ?case
    using Cons.IH [OF a(2) record_expense_Inr(1) [OF a(1) Cons.prems(2)]]
      record_expense_Inr(2) [OF a(1) Cons.prems(2), of key u] by simp
qed simp

section \<open>Views\<close>

lemma asset_view_Inr:
  assumes "asset_view acc = Inr b" "acc_ok 0 acc"
  shows "balanced_view (ab_total b) (ab_participants b)" "ab_asset b = aa_asset acc"
    "\<forall>r \<in> set (ab_participants b). toStroops (pa_paid r) = Inr (net_of (aa_paid acc) (pa_userId r))
        \<and> toStroops (pa_owed r) = Inr (net_of (aa_owed acc) (pa_userId r))"
proof -
  obtain rows t where r: "map_res (participant_row (aa_paid acc) (aa_owed acc)) (aa_order acc) = Inr rows"
      "fromStroops (sum_list (map snd (aa_owed acc))) = Inr t"
      "b = \<lparr>ab_asset = aa_asset acc, ab_total = t, ab_expenseCount = aa_expenseCount acc, ab_participants = rows\<rparr>"
    using assms(1) by (auto simp: asset_view_def Let_def res_simps)
  then show "balanced_view (ab_total b) (ab_participants b)" "ab_asset b = aa_asset acc"
    using books_view [OF assms(2) [unfolded acc_ok_def] r(1) codec.dec_enc [OF r(2)]] by simp_all
  have "toStroops (pa_paid x) = Inr (net_of (aa_paid acc) (pa_userId x))
      \<and> toStroops (pa_owed x) = Inr (net_of (aa_owed acc) (pa_userId x))" if "x \<in> set rows" for x
    using that map_res_nth [OF r(1)] map_res_length [OF r(1)] participant_row_Inr
    by (metis in_set_conv_nth)
  then show "\<forall>r \<in> set (ab_participants b). toStroops (pa_paid r) = Inr (net_of (aa_paid acc) (pa_userId r))
        \<and> toStroops (pa_owed r) = Inr (net_of (aa_owed acc) (pa_userId r))"
    using r(3) by simp
qed

lemma add_rate_pos:
  assumes "fold_res (add_rate validate) es rates = Inr rates'" "\<forall>(k, r, n) \<in> set rates. 0 < n"
  shows "\<forall>(k, r, n) \<in> set rates'. 0 < n"
  using assms
  by (rule fold_res_invariant)
    (auto simp: add_rate_def Let_def res_simps dest!: parseRate_pos subsetD [OF set_update] split: if_splits)

text \<open>Converting both columns of an accumulator keeps them equal in total.\<close>

lemma convert_asset_Inr:
  assumes "convert_asset rates key acc = Inr (ps, ows, ap)" "acc_ok 0 acc" "\<forall>(k, r, n) \<in> set rates. 0 < n"
  shows "length ps = length (aa_order acc)" "length ows = length (aa_order acc)"
    "sum_list ps = sum_list ows" "\<forall>x \<in> set ps. 0 \<le> x" "\<forall>x \<in> set ows. 0 \<le> x"
proof -
  let ?p = "map (net_of (aa_paid acc)) (aa_order acc)" and ?o = "map (net_of (aa_owed acc)) (aa_order acc)"
  have cov: "covers (aa_order acc) (aa_seen acc) (aa_paid acc)" "covers (aa_order acc) (aa_seen acc) (aa_owed acc)"
    and "sum_list (map snd (aa_paid acc)) = sum_list (map snd (aa_owed acc))"
    using assms(2) by (auto simp: acc_ok_def books_ok_def)
  then have sum: "sum_list ?p = sum_list ?o" using covers_total by metis
  have nn: "\<forall>x \<in> set ?p. 0 \<le> x" "\<forall>x \<in> set ?o. 0 \<le> x" using cov by (auto simp: covers_def)
  have "length ps = length (aa_order acc) \<and> length ows = length (aa_order acc) \<and> sum_list ps = sum_list ows
      \<and> (\<forall>x \<in> set ps. 0 \<le> x) \<and> (\<forall>x \<in> set ows. 0 \<le> x)"
  proof (cases "ref_key (aa_asset acc) = key")
    case True
    then show ?thesis using assms(1) sum nn by (auto simp: convert_asset_def Let_def)
  next
    case False
    then obtain r n where c: "map_of rates (ref_key (aa_asset acc)) = Some (r, n)"
        "convertAllocations ?p n = Inr ps" "convertAllocations ?o n = Inr ows"
      using assms(1) by (auto simp: convert_asset_def Let_def res_simps split: option.splits)
    have n: "0 \<le> n" using assms(3) map_of_SomeD [OF c(1)] by auto
    have "0 \<le> xs ! i" if "convertAllocations ys n = Inr xs" "\<forall>y \<in> set ys. 0 \<le> y" "i < length ys" for xs ys i
      using by_rate.nonneg [of n ys xs i] that n by simp
    then show ?thesis
      using by_rate.exact [OF _ c(2)] by_rate.exact [OF _ c(3)] n nn sum c(2,3)
      by (auto simp: in_set_conv_nth)
  qed
  then show "length ps = length (aa_order acc)" "length ows = length (aa_order acc)"
    "sum_list ps = sum_list ows" "\<forall>x \<in> set ps. 0 \<le> x" "\<forall>x \<in> set ows. 0 \<le> x" by blast+
qed

definition normal_ok :: "int \<Rightarrow> normal_state \<Rightarrow> bool" where
  "normal_ok d st \<longleftrightarrow> books_ok (ns_order st) (ns_seen st) (ns_paid st) (ns_owed st) d"

lemma fold_see_user:
  assumes "normal_ok d st"
  shows "normal_ok d (fold see_user us st) \<and> ns_seen (fold see_user us st) = ns_seen st \<union> set us
    \<and> ns_total (fold see_user us st) = ns_total st \<and> ns_owed (fold see_user us st) = ns_owed st"
  using assms
proof (induction us arbitrary: st)
  case (Cons u us)
  have "normal_ok d (see_user u st)" using Cons.prems by (simp add: see_user_def normal_ok_def books_see)
  from Cons.IH [OF this] show ?case by (auto simp: see_user_def)
qed simp

lemma fold_add_converted:
  assumes "normal_ok d st" "\<forall>(u, p, w) \<in> set xs. u \<in> ns_seen st \<and> 0 \<le> p \<and> 0 \<le> w"
  shows "normal_ok (d + sum_list (map (fst \<circ> snd) xs) - sum_list (map (snd \<circ> snd) xs)) (fold add_converted xs st)
    \<and> ns_total (fold add_converted xs st) = ns_total st
    \<and> sum_list (map snd (ns_owed (fold add_converted xs st))) = sum_list (map snd (ns_owed st)) + sum_list (map (snd \<circ> snd) xs)"
  using assms
proof (induction xs arbitrary: d st)
  case (Cons x xs)
  obtain u p w where x: "x = (u, p, w)" by (cases x)
  have st: "books_ok (ns_order st) (ns_seen st) (ns_paid st) (ns_owed st) d" "u \<in> ns_seen st" "0 \<le> p" "0 \<le> w"
    using Cons.prems by (auto simp: normal_ok_def x)
  have "normal_ok (d + p - w) (add_converted x st)"
    using books_owe [OF books_pay [OF st(1-3)] st(2,4)] by (simp add: normal_ok_def add_converted_def x)
  moreover have "sum_list (map snd (ns_owed (add_converted x st))) = sum_list (map snd (ns_owed st)) + w"
    using st(1) sum_addAmount by (auto simp: add_converted_def x books_ok_def)
  moreover have "ns_total (add_converted x st) = ns_total st" "ns_seen (add_converted x st) = ns_seen st"
    by (simp_all add: add_converted_def x)
  ultimately show ?case using Cons.IH [of "d + p - w" "add_converted x st"] Cons.prems(2)
    by (simp add: x algebra_simps)
qed simp

lemma normalize_step_ok:
  assumes "normalize_step rates key acc st = Inr st'" "acc_ok 0 acc" "\<forall>(k, r, n) \<in> set rates. 0 < n"
    "normal_ok 0 st" "ns_total st = sum_list (map snd (ns_owed st))"
  shows "normal_ok 0 st' \<and> ns_total st' = sum_list (map snd (ns_owed st'))"
proof -
  obtain ps ows ap where c: "convert_asset rates key acc = Inr (ps, ows, ap)"
    using assms(1) by (auto simp: normalize_step_def res_simps)
  note conv = convert_asset_Inr [OF c assms(2,3)]
  let ?st = "st\<lparr>ns_rates := ns_rates st @ ap\<rparr>" and ?xs = "zip (aa_order acc) (zip ps ows)"
  let ?st1 = "fold see_user (aa_order acc) ?st"
  have "normal_ok 0 ?st" using assms(4) by (simp add: normal_ok_def)
  note st1 = fold_see_user [OF this, of "aa_order acc"]
  have xs: "map (fst \<circ> snd) ?xs = ps" "map (snd \<circ> snd) ?xs = ows" using conv(1,2) by (simp_all flip: map_map)
  have "\<forall>(u, p, w) \<in> set ?xs. u \<in> ns_seen ?st1 \<and> 0 \<le> p \<and> 0 \<le> w"
    using st1 conv(4,5) by (auto dest: set_zip_leftD set_zip_rightD)
  from fold_add_converted [OF conjunct1 [OF st1] this, unfolded xs]
  show ?thesis using assms(1,5) st1 conv(3) c by (auto simp: normalize_step_def Let_def normal_ok_def)
qed

lemma normalize_balanced:
  assumes "normalize_view rates target accs = Inr n" "\<forall>a \<in> set accs. acc_ok 0 a" "\<forall>(k, r, n) \<in> set rates. 0 < n"
  shows "balanced_view (nz_total n) (nz_participants n)" "nz_asset n = target"
proof -
  let ?init = "\<lparr>ns_paid = [], ns_owed = [], ns_order = [], ns_seen = {}, ns_rates = [], ns_total = 0\<rparr>"
  obtain st rows t where r: "fold_res (normalize_step rates (ref_key target)) accs ?init = Inr st"
      "map_res (participant_row (ns_paid st) (ns_owed st)) (ns_order st) = Inr rows"
      "fromStroops (ns_total st) = Inr t"
      "n = \<lparr>nz_asset = target, nz_total = t, nz_participants = rows, nz_appliedRates = ns_rates st\<rparr>"
    using assms(1) by (auto simp: normalize_view_def res_simps)
  have "normal_ok 0 st \<and> ns_total st = sum_list (map snd (ns_owed st))"
    using r(1)
  proof (rule fold_res_invariant)
    show "normal_ok 0 ?init \<and> ns_total ?init = sum_list (map snd (ns_owed ?init))"
      by (simp add: normal_ok_def books_ok_def)
  qed (use assms(2,3) normalize_step_ok in blast)
  then show "balanced_view (nz_total n) (nz_participants n)" "nz_asset n = target"
    using books_view [OF _ r(2)] codec.dec_enc [OF r(3)] r(4) by (auto simp: normal_ok_def)
qed

lemma breakdown_parts:
  assumes "calculateGroupExpenseBreakdown validate es target rates = Inr b"
  obtains rt accs assets where "fold_res (add_rate validate) rates [] = Inr rt"
    "fold_res (record_expense validate) es [] = Inr accs" "map_res asset_view (map snd accs) = Inr assets"
    "gb_assets b = assets"
    "\<forall>n. gb_normalized b = Some n \<longrightarrow> (\<exists>t. normalize_view rt t (map snd accs) = Inr n)"
proof -
  obtain rt accs assets where r: "fold_res (add_rate validate) rates [] = Inr rt"
    "fold_res (record_expense validate) es [] = Inr accs" "map_res asset_view (map snd accs) = Inr assets"
    using assms by (auto simp: calculateGroupExpenseBreakdown_def res_simps)
  then have "gb_assets b = assets \<and> (\<forall>n. gb_normalized b = Some n \<longrightarrow> (\<exists>t. normalize_view rt t (map snd accs) = Inr n))"
    using assms by (cases target) (auto simp: calculateGroupExpenseBreakdown_def res_simps, blast)
  with r that show thesis by blast
qed

section \<open>Properties\<close>

text \<open>C7. A split never creates or destroys value: when \<open>splitExpense\<close> returns, its shares belong to the
  distinct participants in order, none is negative, and read back as stroops they sum to
  exactly the expense total, which is positive.\<close>

theorem splitExpense_exact:
  assumes "splitExpense amount t ps = Inr r"
  shows "\<exists>tot amounts. toStroops amount = Inr tot \<and> 0 < tot \<and> toStroops (sr_amount r) = Inr tot
    \<and> map ss_userId (sr_shares r) = map sp_userId ps \<and> distinct (map sp_userId ps)
    \<and> map_res toStroops (map ss_amount (sr_shares r)) = Inr amounts
    \<and> sum_list amounts = tot \<and> (\<forall>a \<in> set amounts. 0 \<le> a)"
  using splitExpense_stroops [OF assms] by metis

definition demo_party :: "string \<Rightarrow> string \<Rightarrow> split_participant" where
  "demo_party u p = \<lparr>sp_userId = u, sp_percent = Some (Percent_string p), sp_amount = None\<rparr>"

definition demo_parties :: "split_participant list" where
  "demo_parties = [demo_party ''ada'' ''33.333334'', demo_party ''kola'' ''33.333333'', demo_party ''zo'' ''33.333333'']"

definition demo_split :: split_result where
  "demo_split = \<lparr>sr_amount = ''0.0000002'', sr_splitType = Percentage,
     sr_shares = [\<lparr>ss_userId = ''ada'', ss_amount = ''0.0000001'', ss_percent = Some ''33.333334''\<rparr>,
                  \<lparr>ss_userId = ''kola'', ss_amount = ''0.0000001'', ss_percent = Some ''33.333333''\<rparr>,
                  \<lparr>ss_userId = ''zo'', ss_amount = ''0'', ss_percent = Some ''33.333333''\<rparr>],
     sr_remainderStroops = ''2''\<rparr>"

lemma demo_split: "splitExpense ''0.0000002'' Percentage demo_parties = Inr demo_split"
  by code_simp

theorem splitExpense_exact_witness:
  "\<exists>tot amounts. toStroops ''0.0000002'' = Inr tot \<and>
     map_res toStroops (map ss_amount (sr_shares demo_split)) = Inr amounts \<and> sum_list amounts = tot"
  using splitExpense_exact [OF demo_split] by blast

text \<open>C29. A weighted split is fair: each share is less than one stroop from the exact proportion of
  its weight, equal weights get shares at most one stroop apart, and the reported tail is
  smaller than the number of participants.\<close>

theorem splitExpense_fair:
  assumes "splitExpense amount t ps = Inr r" and "t \<noteq> Custom"
  shows "\<exists>tot ws amounts k. toStroops amount = Inr tot \<and> split_weights t ps = Inr ws
    \<and> map_res toStroops (map ss_amount (sr_shares r)) = Inr amounts
    \<and> (\<forall>i < length ps. \<bar>amounts ! i * sum_list ws - tot * ws ! i\<bar> < sum_list ws)
    \<and> (\<forall>i < length ps. \<forall>j < length ps. ws ! i = ws ! j \<longrightarrow> \<bar>amounts ! i - amounts ! j\<bar> \<le> 1)
    \<and> sr_remainderStroops r = int_to_dec k \<and> 0 \<le> k \<and> k < int (length ps)"
proof -
  obtain tot amounts where a: "toStroops amount = Inr tot" "0 < tot"
      "map_res toStroops (map ss_amount (sr_shares r)) = Inr amounts" "length amounts = length ps"
      "t \<noteq> Custom \<Longrightarrow> \<exists>ws k. split_weights t ps = Inr ws \<and> allocateByWeights tot ws = Inr (amounts, k)
         \<and> sr_remainderStroops r = int_to_dec k"
    using splitExpense_stroops [OF assms(1)] by metis
  obtain ws k where w: "split_weights t ps = Inr ws" "allocateByWeights tot ws = Inr (amounts, k)"
      "sr_remainderStroops r = int_to_dec k"
    using a(5) assms(2) by blast
  have o: "res_bind (allocateByWeights tot ws) (\<lambda>(out, _). Inr out) = Inr amounts" using w(2) by simp
  have al: "0 \<le> k" "k < int (length ws)" "0 < sum_list ws"
    using allocateByWeights_apportions [OF _ w(2)] a(2) by auto
  then have v: "0 \<le> tot \<and> 0 < sum_list ws" using a(2) by simp
  have len: "length ws = length ps" using by_weights.exact [OF v o] a(4) by simp
  show ?thesis
    using a w al len by_weights.within_one [OF v o] by_weights.equal_weights [OF v o]
    by (intro exI [of _ tot] exI [of _ ws] exI [of _ amounts] exI [of _ k]) auto
qed

theorem splitExpense_fair_witness:
  "\<exists>ws amounts. split_weights Percentage demo_parties = Inr ws \<and>
     map_res toStroops (map ss_amount (sr_shares demo_split)) = Inr amounts \<and>
     \<bar>amounts ! 0 * sum_list ws - 2 * ws ! 0\<bar> < sum_list ws"
proof -
  have "toStroops ''0.0000002'' = Inr 2" by code_simp
  then show ?thesis using splitExpense_fair [OF demo_split] by (auto simp: demo_parties_def)
qed

text \<open>An equal split never fails on good input: for a positive amount and distinct, non-blank
  participants it always returns.\<close>

theorem splitExpense_equal_returns:
  assumes "toStroops amount = Inr tot" and "0 < tot" and "ps \<noteq> []"
    and "distinct (map sp_userId ps)" and "\<forall>p \<in> set ps. js_trim (sp_userId p) \<noteq> []"
  shows "\<exists>r. splitExpense amount Equal ps = Inr r"
proof -
  let ?ws = "map (\<lambda>_. 1 :: int) ps"
  have ws: "0 < sum_list ?ws" "\<forall>w \<in> set ?ws. 0 \<le> w"
    using assms(3) by (auto simp: map_replicate_const sum_list_replicate)
  obtain out k where a: "allocateByWeights tot ?ws = Inr (out, k)"
    using allocateByWeights_returns [OF ws] by blast
  then have o: "res_bind (allocateByWeights tot ?ws) (\<lambda>(out, _). Inr out) = Inr out" by simp
  have v: "0 \<le> tot \<and> 0 < sum_list ?ws" using assms(2) ws by simp
  have "0 \<le> out ! i" if "i < length out" for i
    using by_weights.nonneg [OF v o, of i] by_weights.exact [OF v o] that assms(2) by simp
  then have nn: "\<forall>x \<in> set out. 0 \<le> x" by (auto simp: in_set_conv_nth)
  then have "\<forall>x \<in> set out. x \<le> tot"
    using by_weights.exact [OF v o] member_le_sum_list by metis
  moreover have t: "tot \<le> MAX_STROOPS" using toStroops_bound [OF assms(1)] by simp
  ultimately have "\<forall>x \<in> set out. \<bar>x\<bar> \<le> MAX_STROOPS" using nn by fastforce
  then have "\<exists>r. print_split (\<lambda>p. None) tot Equal ps out k = Inr r"
    using t assms(2) by (intro print_split_total) auto
  moreover have "parseAmount amount False = Inr tot" using assms(1,2) by (simp add: res_simps)
  moreover have "assertParticipants ps = Inr ()"
    using assms(3-5) by (auto simp: assertParticipants_def assert_users_Inr)
  ultimately show ?thesis using a by (simp add: splitExpense_def split_weights_def)
qed

theorem splitExpense_equal_returns_witness:
  "\<exists>r. splitExpense ''10'' Equal demo_parties = Inr r"
proof -
  have a: "toStroops ''10'' = Inr 100000000" by code_simp
  have t: "js_trim ''ada'' = ''ada''" "js_trim ''kola'' = ''kola''" "js_trim ''zo'' = ''zo''" by code_simp+
  show ?thesis
    by (rule splitExpense_equal_returns [OF a]) (simp_all add: demo_parties_def demo_party_def t)
qed

text \<open>Conversion rounds as asked: for an amount and a rate in ten millionths, the converted
  magnitude is the floor, the ceiling or the nearest integer (halves up) of the exact
  product, the sign is that of the amount, and the result stays within the stroop range.\<close>

theorem convertStroops_rounds:
  assumes "parseRate rate = Inr k" and "convertStroops st rate r = Inr c"
  shows "c = sgn st * (case r of Down \<Rightarrow> (\<bar>st\<bar> * k) div RATE_SCALE
                      | Up \<Rightarrow> - ((- (\<bar>st\<bar> * k)) div RATE_SCALE)
                      | Half_up \<Rightarrow> (2 * (\<bar>st\<bar> * k) + RATE_SCALE) div (2 * RATE_SCALE))
    \<and> \<bar>c\<bar> \<le> MAX_STROOPS"
proof -
  have k: "0 < k" using parseRate_pos [OF assms(1)] .
  have S: "0 < RATE_SCALE" by (simp add: RATE_SCALE_def)
  have n: "0 \<le> \<bar>st\<bar> * k" using k by simp
  have m: "(if st < 0 then - st else st) = \<bar>st\<bar>" by simp
  have c: "c = (if st < 0 then - divideRounded (\<bar>st\<bar> * k) RATE_SCALE r else divideRounded (\<bar>st\<bar> * k) RATE_SCALE r)"
    and b: "\<bar>divideRounded (\<bar>st\<bar> * k) RATE_SCALE r\<bar> \<le> MAX_STROOPS"
    using assms by (auto simp: convertStroops_def Let_def res_simps m)
  have z: "divideRounded (\<bar>st\<bar> * k) RATE_SCALE r = 0" if "st = 0"
    using that by (simp add: divideRounded_def bigint_div_def bigint_mod_def)
  have "c = sgn st * divideRounded (\<bar>st\<bar> * k) RATE_SCALE r" using c z by (cases "st = 0") (auto simp: sgn_if)
  moreover have "\<bar>c\<bar> \<le> MAX_STROOPS" using c b by (auto split: if_splits)
  ultimately show ?thesis using divideRounded_bounds [OF n S] by (cases r) simp_all
qed

theorem convertStroops_rounds_witness:
  "\<exists>c. convertStroops (-25) ''0.1'' Half_up = Inr c \<and>
     c = sgn (-25) * ((2 * (25 * 1000000) + RATE_SCALE) div (2 * RATE_SCALE))"
proof -
  have k: "parseRate ''0.1'' = Inr 1000000" by code_simp
  have c: "convertStroops (-25) ''0.1'' Half_up = Inr (-3)" by code_simp
  show ?thesis using convertStroops_rounds [OF k c] c by simp
qed

text \<open>C16. The books of a breakdown balance: in every asset, and in the normalized view, the paid
  amounts, the owed amounts and the reported total are the same number of stroops, each net
  is paid minus owed, the nets sum to zero, and no user or asset is listed twice.\<close>

theorem breakdown_balanced:
  assumes "calculateGroupExpenseBreakdown validate es target rates = Inr b"
  shows "(\<forall>a \<in> set (gb_assets b). balanced_view (ab_total a) (ab_participants a))
    \<and> distinct (map (ref_key \<circ> ab_asset) (gb_assets b))
    \<and> (\<forall>n. gb_normalized b = Some n \<longrightarrow> balanced_view (nz_total n) (nz_participants n))"
proof -
  obtain rt accs assets where r: "fold_res (add_rate validate) rates [] = Inr rt"
      "fold_res (record_expense validate) es [] = Inr accs" "map_res asset_view (map snd accs) = Inr assets"
      "gb_assets b = assets"
    and n: "\<forall>n. gb_normalized b = Some n \<longrightarrow> (\<exists>t. normalize_view rt t (map snd accs) = Inr n)"
    using breakdown_parts [OF assms] .
  have ok: "accs_ok accs" using record_expenses [OF r(2)] by (simp add: accs_ok_def)
  then have accs: "\<forall>a \<in> set (map snd accs). acc_ok 0 a" by (auto simp: accs_ok_def)
  have len: "length assets = length accs" using map_res_length [OF r(3)] by simp
  have at: "asset_view (snd (accs ! i)) = Inr (assets ! i)" if "i < length accs" for i
    using map_res_nth [OF r(3), of i] that by simp
  have view: "balanced_view (ab_total (assets ! i)) (ab_participants (assets ! i))
      \<and> ref_key (ab_asset (assets ! i)) = fst (accs ! i)" if "i < length accs" for i
  proof -
    have "accs ! i \<in> set accs" using that by simp
    then have "acc_ok 0 (snd (accs ! i))" "ref_key (aa_asset (snd (accs ! i))) = fst (accs ! i)"
      using ok by (auto simp: accs_ok_def case_prod_beta)
    then show ?thesis using asset_view_Inr(1,2) [OF at [OF that]] by simp
  qed
  then have "map (ref_key \<circ> ab_asset) assets = map fst accs" using len by (intro nth_equalityI) auto
  then have "distinct (map (ref_key \<circ> ab_asset) assets)" using ok by (simp add: accs_ok_def)
  moreover have "\<forall>(k, r, n) \<in> set rt. 0 < n" using add_rate_pos [OF r(1)] by simp
  ultimately show ?thesis
    using view len r(4) n normalize_balanced(1) [OF _ accs] by (metis in_set_conv_nth)
qed

definition demo_validate :: "string \<Rightarrow> string option \<Rightarrow> asset_ref res" where
  "demo_validate = validateAsset_or_throw (\<lambda>k. k = demo_issuer) demo_money_config"

definition demo_expenses :: "expense_record list" where
  "demo_expenses =
     [\<lparr>ex_payerUserId = ''ada'', ex_amount = Some ''3'', ex_assetCode = ''XLM'', ex_assetIssuer = None,
       ex_shares = [\<lparr>es_userId = ''ada'', es_shareAmount = ''1''\<rparr>, \<lparr>es_userId = ''kola'', es_shareAmount = ''2''\<rparr>]\<rparr>,
      \<lparr>ex_payerUserId = ''kola'', ex_amount = None, ex_assetCode = ''usdc'', ex_assetIssuer = None,
       ex_shares = [\<lparr>es_userId = ''ada'', es_shareAmount = ''0.5''\<rparr>]\<rparr>]"

definition demo_rates :: "conversion_rate list" where
  "demo_rates = [\<lparr>cr_fromAssetCode = ''XLM'', cr_fromAssetIssuer = None, cr_rate = ''0.25''\<rparr>]"

definition demo_breakdown :: group_breakdown where
  "demo_breakdown =
     \<lparr>gb_assets =
        [\<lparr>ab_asset = (''XLM'', None), ab_total = ''3'', ab_expenseCount = 1,
          ab_participants = [\<lparr>pa_userId = ''ada'', pa_paid = ''3'', pa_owed = ''1'', pa_net = ''2''\<rparr>,
                             \<lparr>pa_userId = ''kola'', pa_paid = ''0'', pa_owed = ''2'', pa_net = ''-2''\<rparr>]\<rparr>,
         \<lparr>ab_asset = (''USDC'', Some demo_issuer), ab_total = ''0.5'', ab_expenseCount = 1,
          ab_participants = [\<lparr>pa_userId = ''kola'', pa_paid = ''0.5'', pa_owed = ''0'', pa_net = ''0.5''\<rparr>,
                             \<lparr>pa_userId = ''ada'', pa_paid = ''0'', pa_owed = ''0.5'', pa_net = ''-0.5''\<rparr>]\<rparr>],
      gb_normalized = Some
        \<lparr>nz_asset = (''USDC'', Some demo_issuer), nz_total = ''1.25'',
         nz_participants = [\<lparr>pa_userId = ''ada'', pa_paid = ''0.75'', pa_owed = ''0.75'', pa_net = ''0''\<rparr>,
                            \<lparr>pa_userId = ''kola'', pa_paid = ''0.5'', pa_owed = ''0.5'', pa_net = ''0''\<rparr>],
         nz_appliedRates = [((''XLM'', None), ''0.25'')]\<rparr>\<rparr>"

lemma demo_breakdown: "calculateGroupExpenseBreakdown demo_validate demo_expenses (Some (''USDC'', None)) demo_rates
    = Inr demo_breakdown"
  by code_simp

theorem breakdown_balanced_witness:
  "balanced_view (nz_total (the (gb_normalized demo_breakdown))) (nz_participants (the (gb_normalized demo_breakdown)))"
  using breakdown_balanced [OF demo_breakdown] by (simp add: demo_breakdown_def)

text \<open>C17. A breakdown is faithful to the expenses: in every asset a participant's paid amount is the
  sum of the share totals of the expenses that participant fronted in that asset, and the
  owed amount is the sum of that participant's shares in it.\<close>

theorem breakdown_ledger:
  assumes "calculateGroupExpenseBreakdown validate es target rates = Inr b"
    and "a \<in> set (gb_assets b)" and "p \<in> set (ab_participants a)"
  shows "toStroops (pa_paid p) = Inr (sum_list (map (expense_paid validate (ref_key (ab_asset a)) (pa_userId p)) es))
    \<and> toStroops (pa_owed p) = Inr (sum_list (map (expense_owed validate (ref_key (ab_asset a)) (pa_userId p)) es))"
proof -
  obtain accs assets where r: "fold_res (record_expense validate) es [] = Inr accs"
      "map_res asset_view (map snd accs) = Inr assets" "gb_assets b = assets"
    using breakdown_parts [OF assms(1)] .
  obtain i where i: "i < length accs" "a = assets ! i"
    using assms(2) r(3) map_res_length [OF r(2)] by (metis in_set_conv_nth length_map)
  let ?k = "fst (accs ! i)" and ?acc = "snd (accs ! i)"
  have ok: "accs_ok accs" and at: "acc_at accs key u = (sum_list (map (expense_paid validate key u) es),
      sum_list (map (expense_owed validate key u) es))" for key u
    using record_expenses [OF r(1), of key u] by (simp_all add: accs_ok_def acc_at_def)
  have v: "asset_view ?acc = Inr a" using map_res_nth [OF r(2), of i] i by simp
  have mem: "(?k, ?acc) \<in> set accs" using i(1) by simp
  then have acc: "acc_ok 0 ?acc" "ref_key (aa_asset ?acc) = ?k" "map_of accs ?k = Some ?acc"
    using ok by (auto simp: accs_ok_def)
  show ?thesis
    using asset_view_Inr(2,3) [OF v acc(1)] assms(3) acc(2,3) at [of ?k "pa_userId p"] by (simp add: acc_at_def)
qed

theorem breakdown_ledger_witness:
  "toStroops ''3'' = Inr (sum_list (map (expense_paid demo_validate (ref_key (''XLM'', None)) ''ada'') demo_expenses))"
  using breakdown_ledger [OF demo_breakdown, of "gb_assets demo_breakdown ! 0" "ab_participants (gb_assets demo_breakdown ! 0) ! 0"]
  by (simp add: demo_breakdown_def)

end
