(* ===== verification/Tables.thy ===== *)
theory Tables
  imports Mergepay_Prelude
begin

text \<open>
  Database tables as the services use them through Prisma: rows by primary key,
  \<^verbatim>\<open>findUnique\<close>, \<^verbatim>\<open>update\<close> by key, and \<^verbatim>\<open>updateMany\<close>, whose result is the number of rows that
  matched its condition. The locale \<open>row_claim\<close> is the contract of a conditional update used
  as a claim (the refresh-token rotation and the takeover of an abandoned idempotency key):
  the written row no longer meets the condition, so of any number of claimants one wins.

  The locale \<open>status_machine\<close> is the contract the three status services share: whatever the
  interleaving of their reads and writes, a row moves along the documented transition map
  and its recorded history is the path it took.
\<close>

section \<open>Tables\<close>

type_synonym 'r table = "(string \<times> 'r) list"

text \<open>The operations work for any type of key, such as the three parts of an idempotency key.\<close>

definition find_row :: "'k \<Rightarrow> ('k \<times> 'r) list \<Rightarrow> 'r option" where
  "find_row k t = map_of t k"

definition update_where :: "('k \<Rightarrow> 'r \<Rightarrow> bool) \<Rightarrow> ('r \<Rightarrow> 'r) \<Rightarrow> ('k \<times> 'r) list \<Rightarrow> nat \<times> ('k \<times> 'r) list" where
  "update_where P f t =
     (length (filter (\<lambda>(i, r). P i r) t), map (\<lambda>(i, r). (i, if P i r then f r else r)) t)"

definition update_row :: "'k \<Rightarrow> ('r \<Rightarrow> 'r) \<Rightarrow> ('k \<times> 'r) list \<Rightarrow> ('k \<times> 'r) list" where
  "update_row k f t = snd (update_where (\<lambda>i _. i = k) f t)"

definition keyed :: "('k \<times> 'r) list \<Rightarrow> bool" where
  "keyed t \<longleftrightarrow> distinct (map fst t)"

lemma find_update_where [table_simps]:
  "find_row k (snd (update_where P f t)) = map_option (\<lambda>r. if P k r then f r else r) (find_row k t)"
  by (induction t) (auto simp: update_where_def find_row_def)

lemma find_update_row [table_simps]:
  "find_row j (update_row k f t) = (if j = k then map_option f (find_row k t) else find_row j t)"
  by (auto simp: update_row_def table_simps option.map_ident)

lemma keyed_update_where [simp]: "keyed (snd (update_where P f t)) = keyed t"
proof -
  have "map fst (snd (update_where P f t)) = map fst t" by (simp add: update_where_def case_prod_unfold)
  then show ?thesis by (simp add: keyed_def)
qed

lemma keyed_update_row [simp]: "keyed (update_row k f t) = keyed t"
  by (simp add: update_row_def)

text \<open>An update guarded by the key matches one row or none.\<close>

lemma count_update_where:
  assumes "keyed t"
  shows "fst (update_where (\<lambda>i r. i = k \<and> G r) f t) =
    (case find_row k t of Some r \<Rightarrow> if G r then 1 else 0 | None \<Rightarrow> 0)"
  using assms
proof (induction t)
  case (Cons p t)
  obtain i r where p: "p = (i, r)" by force
  have none: "filter (\<lambda>(i, r). i = k \<and> G r) t = []" if "k \<notin> fst ` set t"
    using that by (force simp: filter_empty_conv)
  show ?case
  proof (cases "i = k")
    case True
    then have "k \<notin> fst ` set t" using Cons.prems p by (auto simp: keyed_def)
    then show ?thesis using none True by (simp add: update_where_def find_row_def p)
  next
    case False
    then show ?thesis using Cons by (simp add: update_where_def find_row_def p keyed_def)
  qed
qed (simp add: update_where_def find_row_def)

section \<open>Claims\<close>

text \<open>Claimants one after the other, each a conditional update of the same row; the counts
  tell who won.\<close>

fun claims :: "('r \<Rightarrow> bool) \<Rightarrow> ('c \<Rightarrow> 'r \<Rightarrow> 'r) \<Rightarrow> 'k \<Rightarrow> 'c list \<Rightarrow> ('k \<times> 'r) list \<Rightarrow> nat list" where
  "claims guard mark k [] t = []"
| "claims guard mark k (c # cs) t =
     (let (n, t') = update_where (\<lambda>i r. i = k \<and> guard r) (mark c) t in n # claims guard mark k cs t')"

locale row_claim =
  fixes guard :: "'r \<Rightarrow> bool" and mark :: "'c \<Rightarrow> 'r \<Rightarrow> 'r"
  assumes mark_blocks: "guard r \<Longrightarrow> \<not> guard (mark c r)"
begin

lemma no_more:
  "keyed t \<Longrightarrow> (\<forall>r. find_row k t = Some r \<longrightarrow> \<not> guard r) \<Longrightarrow> sum_list (claims guard mark k cs t) = 0"
proof (induction cs arbitrary: t)
  case (Cons c cs)
  let ?u = "update_where (\<lambda>i r. i = k \<and> guard r) (mark c) t"
  have "fst ?u = 0" using Cons.prems by (simp add: count_update_where split: option.splits)
  moreover have "\<forall>r. find_row k (snd ?u) = Some r \<longrightarrow> \<not> guard r"
    using Cons.prems by (auto simp: table_simps)
  moreover have "sum_list (claims guard mark k cs (snd ?u)) = 0"
    using Cons.prems(1) calculation(2) by (intro Cons.IH) simp_all
  ultimately show ?case by (simp add: case_prod_beta)
qed simp

lemma at_most_one:
  "keyed t \<Longrightarrow> sum_list (claims guard mark k cs t) \<le> 1"
proof (induction cs arbitrary: t)
  case (Cons c cs)
  let ?u = "update_where (\<lambda>i r. i = k \<and> guard r) (mark c) t"
  show ?case
  proof (cases "find_row k t")
    case None
    then have "fst ?u = 0" using Cons.prems by (simp add: count_update_where)
    then show ?thesis using Cons by (simp add: case_prod_beta)
  next
    case (Some r)
    show ?thesis
    proof (cases "guard r")
      case True
      then have "\<forall>r. find_row k (snd ?u) = Some r \<longrightarrow> \<not> guard r"
        using Some mark_blocks by (auto simp: table_simps)
      then have "sum_list (claims guard mark k cs (snd ?u)) = 0"
        using Cons.prems by (intro no_more) simp_all
      moreover have "fst ?u \<le> 1" using Cons.prems by (simp add: count_update_where split: option.splits)
      ultimately show ?thesis by (simp add: case_prod_beta del: sum_list_eq_0_iff)
    next
      case False
      then have "sum_list (claims guard mark k (c # cs) t) = 0"
        using Cons.prems Some by (intro no_more) simp_all
      then show ?thesis by (simp only: zero_le)
    qed
  qed
qed simp

text \<open>The first claimant wins whenever the row is there and open.\<close>

lemma first_wins:
  "keyed t \<Longrightarrow> find_row k t = Some r \<Longrightarrow> guard r \<Longrightarrow> claims guard mark k (c # cs) t ! 0 = 1"
  by (simp add: case_prod_beta count_update_where)

end

section \<open>Status machines\<close>

fun path_of :: "('s \<Rightarrow> 's \<Rightarrow> bool) \<Rightarrow> 's \<Rightarrow> 's list \<Rightarrow> bool" where
  "path_of allowed s [] = True"
| "path_of allowed s (t # ts) = (allowed s t \<and> path_of allowed t ts)"

lemma path_of_snoc: "path_of allowed s (p @ [t]) \<longleftrightarrow> path_of allowed s p \<and> allowed (last (s # p)) t"
  by (induction p arbitrary: s) auto

lemma path_of_final: "path_of allowed s p \<Longrightarrow> \<forall>t. \<not> allowed s t \<Longrightarrow> p = []"
  by (cases p) auto

text \<open>\<^verbatim>\<open>ALLOWED[from]?.includes(to) ?? false\<close> over a transition map.\<close>

lemma transition_lookup:
  assumes "distinct (map fst m)"
  shows "(case map_of m s of Some tos \<Rightarrow> t \<in> set tos | None \<Rightarrow> False)
    \<longleftrightarrow> (\<exists>tos. (s, tos) \<in> set m \<and> t \<in> set tos)"
proof
  assume "case map_of m s of Some tos \<Rightarrow> t \<in> set tos | None \<Rightarrow> False"
  then show "\<exists>tos. (s, tos) \<in> set m \<and> t \<in> set tos"
    by (auto split: option.splits dest: map_of_SomeD)
next
  assume "\<exists>tos. (s, tos) \<in> set m \<and> t \<in> set tos"
  then show "case map_of m s of Some tos \<Rightarrow> t \<in> set tos | None \<Rightarrow> False"
    using assms by (auto dest: map_of_is_SomeI)
qed

locale status_machine =
  fixes allowed :: "'s \<Rightarrow> 's \<Rightarrow> bool" and step :: "'st \<Rightarrow> 'st \<Rightarrow> bool"
    and status :: "'st \<Rightarrow> 'i \<Rightarrow> 's option" and history :: "'st \<Rightarrow> 'i \<Rightarrow> 's list" and inv :: "'st \<Rightarrow> bool"
  assumes step_inv: "step a b \<Longrightarrow> inv a \<Longrightarrow> inv b"
    and step_change: "step a b \<Longrightarrow> inv a \<Longrightarrow>
      status b i = status a i \<and> history b i = history a i \<or>
      (\<exists>s t. status a i = Some s \<and> status b i = Some t \<and> allowed s t \<and> history b i = history a i @ [t])"
begin

lemma steps_inv: "step\<^sup>*\<^sup>* a b \<Longrightarrow> inv a \<Longrightarrow> inv b"
  by (induction rule: rtranclp_induct) (auto intro: step_inv)

lemma follows_map:
  assumes "step\<^sup>*\<^sup>* a b" "inv a" "status a i = Some s"
  shows "\<exists>p. path_of allowed s p \<and> status b i = Some (last (s # p)) \<and> history b i = history a i @ p"
  using assms(1)
proof (induction rule: rtranclp_induct)
  case base
  show ?case using assms(3) by (intro exI [of _ "[]"]) simp
next
  case (step b c)
  then obtain p where p: "path_of allowed s p" "status b i = Some (last (s # p))" "history b i = history a i @ p"
    by blast
  have "inv b" using step.hyps(1) assms(2) by (rule steps_inv)
  from step_change [OF step.hyps(2) this, of i]
  show ?case
  proof
    assume "status c i = status b i \<and> history c i = history b i"
    with p show ?thesis by auto
  next
    assume "\<exists>s t. status b i = Some s \<and> status c i = Some t \<and> allowed s t \<and> history c i = history b i @ [t]"
    then obtain t where t: "status c i = Some t" "allowed (last (s # p)) t" "history c i = history b i @ [t]"
      using p(2) by auto
    with p have "path_of allowed s (p @ [t])" by (simp add: path_of_snoc)
    with p t show ?thesis by (intro exI [of _ "p @ [t]"]) simp
  qed
qed

lemma final_forever:
  assumes "step\<^sup>*\<^sup>* a b" "inv a" "status a i = Some s" "\<forall>t. \<not> allowed s t"
  shows "status b i = Some s \<and> history b i = history a i"
  using follows_map [OF assms(1-3)] path_of_final assms(4) by (metis append_Nil2 last_ConsL)

end

end
