(* ===== verification/Audit_Log.thy ===== *)
theory Audit_Log
  imports Tables
begin

text \<open>
  \<^verbatim>\<open>src/src/services/audit.ts\<close>, \<^verbatim>\<open>src/src/lib/audit-logger.ts\<close> and
  \<^verbatim>\<open>src/src/services/status-history.ts\<close>: the durable audit rows, the redaction of their
  metadata, and the status history. Tables that only grow are lists, oldest row first.
  The Pino sink itself is not modelled; \<open>audit_line\<close> is the record handed to it.

  The lemmas show that redaction reaches every depth of the metadata and that a history
  never repeats its last status.
\<close>

section \<open>Metadata\<close>

text \<open>A metadata value: JSON, or an opaque value (a date, a class instance) that passes through.\<close>

datatype json =
    JNull | JBool bool | JNum js_number | JStr string
  | JArr "json list" | JObj "(string \<times> json) list" | JOpaque string

definition AUDIT_REDACTED_KEYS :: "string list" where
  "AUDIT_REDACTED_KEYS =
     [''privatekey'', ''secretkey'', ''seed'', ''mnemonic'', ''signedxdr'', ''transactionxdr'', ''xdr'',
      ''token'', ''accesstoken'', ''refreshtoken'', ''sessiontoken'', ''idtoken'', ''jwt'', ''authorization'',
      ''cookie'', ''password'', ''secret'', ''clientsecret'', ''apikey'', ''credentials'', ''credential'']"

definition AUDIT_REDACTED :: string where "AUDIT_REDACTED = ''[REDACTED]''"

fun sanitizeAuditMetadata :: "json \<Rightarrow> json" where
  "sanitizeAuditMetadata (JArr vs) = JArr (map sanitizeAuditMetadata vs)"
| "sanitizeAuditMetadata (JObj fs) =
     JObj (map (\<lambda>(key, item).
       (key, if to_lower key \<in> set AUDIT_REDACTED_KEYS then JStr AUDIT_REDACTED
             else sanitizeAuditMetadata item)) fs)"
| "sanitizeAuditMetadata v = v"

section \<open>Audit rows\<close>

record audit_params =
  ap_userId :: "string option"
  ap_groupId :: "string option"
  ap_action :: string
  ap_entityType :: string
  ap_entityId :: string
  ap_outcome :: "string option"
  ap_actorType :: "string option"
  ap_actorPublicKey :: "string option"
  ap_metadata :: "(string \<times> json) list"

record audit_row =
  au_userId :: "string option"
  au_groupId :: "string option"
  au_action :: string
  au_entityType :: string
  au_entityId :: string
  au_metadata :: "(string \<times> json) list"

definition fields_of :: "json \<Rightarrow> (string \<times> json) list" where
  "fields_of v = (case v of JObj fs \<Rightarrow> fs | _ \<Rightarrow> [])"

text \<open>\<^verbatim>\<open>...(value ? { key: value } : {})\<close> in an object literal.\<close>

definition spread_field :: "string \<Rightarrow> string option \<Rightarrow> (string \<times> json) list \<Rightarrow> (string \<times> json) list" where
  "spread_field key v obj =
     (case v of Some x \<Rightarrow> if x = [] then obj else AList.update key (JStr x) obj | None \<Rightarrow> obj)"

definition auditData :: "audit_params \<Rightarrow> audit_row" where
  "auditData p =
     \<lparr>au_userId = ap_userId p, au_groupId = ap_groupId p, au_action = ap_action p,
      au_entityType = ap_entityType p, au_entityId = ap_entityId p,
      au_metadata =
        spread_field ''actorPublicKey'' (ap_actorPublicKey p)
          (spread_field ''actorType'' (ap_actorType p)
            (spread_field ''outcome'' (ap_outcome p)
              (fields_of (sanitizeAuditMetadata (JObj (ap_metadata p))))))\<rparr>"

definition auditTx :: "audit_params \<Rightarrow> audit_row list \<Rightarrow> audit_row list" where
  "auditTx p rows = rows @ [auditData p]"

text \<open>\<^verbatim>\<open>logActionTx\<close>: the same write with the issue's parameter names.\<close>

record log_action_params =
  la_actorId :: "string option"
  la_actorPublicKey :: "string option"
  la_actorType :: "string option"
  la_groupId :: "string option"
  la_action :: string
  la_resourceType :: string
  la_resourceId :: string
  la_outcome :: "string option"
  la_metadata :: "(string \<times> json) list"

definition toAuditParams :: "log_action_params \<Rightarrow> audit_params" where
  "toAuditParams p =
     \<lparr>ap_userId = la_actorId p, ap_groupId = la_groupId p, ap_action = la_action p,
      ap_entityType = la_resourceType p, ap_entityId = la_resourceId p, ap_outcome = la_outcome p,
      ap_actorType = la_actorType p, ap_actorPublicKey = la_actorPublicKey p,
      ap_metadata = la_metadata p\<rparr>"

definition logActionTx :: "log_action_params \<Rightarrow> audit_row list \<Rightarrow> audit_row list" where
  "logActionTx p rows = auditTx (toAuditParams p) rows"

text \<open>The line \<^verbatim>\<open>emitAuditEvent\<close> hands to the logger: actor, outcome and redacted metadata.\<close>

record audit_line =
  ln_actorType :: string
  ln_actorId :: "string option"
  ln_action :: string
  ln_target :: "string \<times> string"
  ln_groupId :: "string option"
  ln_outcome :: string
  ln_metadata :: json

definition ends_with :: "string \<Rightarrow> string \<Rightarrow> bool" where
  "ends_with s suf = suffix suf s"

definition emitAuditEvent :: "audit_params \<Rightarrow> audit_line" where
  "emitAuditEvent p =
     (let user = (case ap_userId p of Some u \<Rightarrow> u \<noteq> [] | None \<Rightarrow> False);
          actorType = (case ap_actorType p of Some t \<Rightarrow> t | None \<Rightarrow> if user then ''user'' else ''system'');
          failureByActionName = ends_with (ap_action p) ''.failed'' \<or> ends_with (ap_action p) ''_failed''
            \<or> str_includes (ap_action p) ''validation_failed''
      in \<lparr>ln_actorType = actorType,
          ln_actorId = (if actorType = ''user'' \<and> user then ap_userId p else None),
          ln_action = ap_action p,
          ln_target = (ap_entityType p, ap_entityId p),
          ln_groupId = ap_groupId p,
          ln_outcome = (case ap_outcome p of Some r \<Rightarrow> r | None \<Rightarrow> if failureByActionName then ''failure'' else ''success''),
          ln_metadata = sanitizeAuditMetadata (JObj (ap_metadata p))\<rparr>)"

section \<open>Status history\<close>

record history_row =
  hi_entityType :: string
  hi_entityId :: string
  hi_status :: string
  hi_reason :: "string option"
  hi_source :: "string option"

definition history_of :: "string \<Rightarrow> string \<Rightarrow> history_row list \<Rightarrow> history_row list" where
  "history_of ty i rows = filter (\<lambda>h. hi_entityType h = ty \<and> hi_entityId h = i) rows"

definition recordStatusTransitionInTransaction :: "history_row \<Rightarrow> history_row list \<Rightarrow> history_row list" where
  "recordStatusTransitionInTransaction h rows =
     (let own = history_of (hi_entityType h) (hi_entityId h) rows in
      if own \<noteq> [] \<and> hi_status (last own) = hi_status h then rows else rows @ [h])"

definition statuses_of :: "string \<Rightarrow> string \<Rightarrow> history_row list \<Rightarrow> string list" where
  "statuses_of ty i rows = map hi_status (history_of ty i rows)"

section \<open>Redaction\<close>

text \<open>No object inside a value has a sensitive key with anything but the placeholder.\<close>

fun redacted :: "json \<Rightarrow> bool" where
  "redacted (JArr vs) = (\<forall>v \<in> set vs. redacted v)"
| "redacted (JObj fs) =
     (\<forall>(key, item) \<in> set fs.
        (to_lower key \<in> set AUDIT_REDACTED_KEYS \<longrightarrow> item = JStr AUDIT_REDACTED) \<and> redacted item)"
| "redacted v = True"

lemma sanitize_redacted: "redacted (sanitizeAuditMetadata v)"
  by (induction v rule: sanitizeAuditMetadata.induct) (auto split: if_splits)

lemma sanitize_id: "redacted v \<Longrightarrow> sanitizeAuditMetadata v = v"
proof (induction v rule: sanitizeAuditMetadata.induct)
  case (1 vs)
  then show ?case by (simp add: map_idI)
next
  case (2 fs)
  then show ?case by (auto intro!: map_idI)
qed simp_all

lemma spread_field_redacted:
  assumes "redacted (JObj obj)" "to_lower key \<notin> set AUDIT_REDACTED_KEYS"
  shows "redacted (JObj (spread_field key v obj))"
proof -
  have "set (AList.update key x obj) \<subseteq> insert (key, x) (set obj)" for x
    by (induction obj) auto
  then show ?thesis using assms by (fastforce simp: spread_field_def split: option.splits)
qed


section \<open>Histories\<close>

lemma statuses_record:
  assumes "hi_entityType h = ty" "hi_entityId h = i"
  shows "statuses_of ty i (recordStatusTransitionInTransaction h rows) =
    (if statuses_of ty i rows \<noteq> [] \<and> last (statuses_of ty i rows) = hi_status h then statuses_of ty i rows
     else statuses_of ty i rows @ [hi_status h])"
  using assms by (auto simp: statuses_of_def recordStatusTransitionInTransaction_def Let_def history_of_def last_map)

lemma statuses_record_other:
  "(hi_entityType h, hi_entityId h) \<noteq> (ty, i) \<Longrightarrow>
     statuses_of ty i (recordStatusTransitionInTransaction h rows) = statuses_of ty i rows"
  by (auto simp: statuses_of_def recordStatusTransitionInTransaction_def Let_def history_of_def)

end
