(* ===== verification/Anchor_Status.thy ===== *)
theory Anchor_Status
  imports Audit_Log
begin

text \<open>
  \<^verbatim>\<open>src/src/services/sep24-types.ts\<close>, \<^verbatim>\<open>anchor-status.ts\<close>, \<^verbatim>\<open>withdrawal-status.ts\<close> and the status
  mapping of \<^verbatim>\<open>anchor.ts\<close>: the SEP-24 lifecycle, and the two guarded state machines that follow
  it. As for settlements, a call reads its row and later writes it under the condition that
  the status is still the one it read; the step relations interleave the two phases of any
  number of calls, and both machines interpret the locale \<open>status_machine\<close>.
\<close>

section \<open>SEP-24 statuses\<close>

definition SEP24_INITIAL_STATUSES :: "string list" where
  "SEP24_INITIAL_STATUSES = [''incomplete'']"

definition SEP24_INTERMEDIATE_STATUSES :: "string list" where
  "SEP24_INTERMEDIATE_STATUSES =
     [''pending_user_transfer_start'', ''pending_user'', ''pending_transaction_info_update'', ''pending_receiver'',
      ''pending_sender'', ''pending_stellar'', ''pending_trust'', ''pending_anchor'']"

definition SEP24_TERMINAL_STATUSES :: "string list" where
  "SEP24_TERMINAL_STATUSES =
     [''completed'', ''error'', ''refunded'', ''expired'', ''no_market'', ''too_small'', ''too_large'']"

definition SEP24_TRANSACTION_STATUSES :: "string list" where
  "SEP24_TRANSACTION_STATUSES =
     [''incomplete'', ''pending_user_transfer_start'', ''pending_user'', ''pending_transaction_info_update'',
      ''pending_receiver'', ''pending_sender'', ''pending_stellar'', ''pending_trust'', ''pending_anchor'',
      ''completed'', ''error'', ''refunded'', ''expired'', ''no_market'', ''too_small'', ''too_large'']"

definition SEP24_LEGACY_STATUSES :: "string list" where
  "SEP24_LEGACY_STATUSES = [''pending_user_transfer_complete'', ''pending_external'']"

datatype sep24_category = Initial | Intermediate | Terminal

definition SEP24_STATUS_CATEGORY :: "(string \<times> sep24_category) list" where
  "SEP24_STATUS_CATEGORY =
     [(''incomplete'', Initial), (''pending_user_transfer_start'', Intermediate), (''pending_user'', Intermediate),
      (''pending_transaction_info_update'', Intermediate), (''pending_receiver'', Intermediate),
      (''pending_sender'', Intermediate), (''pending_stellar'', Intermediate), (''pending_trust'', Intermediate),
      (''pending_anchor'', Intermediate), (''completed'', Terminal), (''error'', Terminal), (''refunded'', Terminal),
      (''expired'', Terminal), (''no_market'', Terminal), (''too_small'', Terminal), (''too_large'', Terminal)]"

definition isSep24TransactionStatus :: "string \<Rightarrow> bool" where
  "isSep24TransactionStatus raw =
     (raw \<noteq> [] \<and> to_lower (js_trim raw) \<in> set SEP24_TRANSACTION_STATUSES)"

definition isRecognisedSep24Status :: "string \<Rightarrow> bool" where
  "isRecognisedSep24Status raw =
     (raw \<noteq> [] \<and> (to_lower (js_trim raw) \<in> set SEP24_TRANSACTION_STATUSES
                \<or> to_lower (js_trim raw) \<in> set SEP24_LEGACY_STATUSES))"

definition isTerminalSep24Status :: "string \<Rightarrow> bool" where
  "isTerminalSep24Status status = (status \<in> set SEP24_TERMINAL_STATUSES)"

definition isIntermediateSep24Status :: "string \<Rightarrow> bool" where
  "isIntermediateSep24Status status = (status \<in> set SEP24_INTERMEDIATE_STATUSES)"

definition isInitialSep24Status :: "string \<Rightarrow> bool" where
  "isInitialSep24Status status = (status \<in> set SEP24_INITIAL_STATUSES)"

record sep24_state =
  s24_kind :: string
  s24_status :: string
  s24_category :: "sep24_category option"
  s24_terminal :: bool

definition sep24TransactionState :: "string \<Rightarrow> string \<Rightarrow> sep24_state" where
  "sep24TransactionState kind status =
     \<lparr>s24_kind = kind, s24_status = status, s24_category = map_of SEP24_STATUS_CATEGORY status,
      s24_terminal = isTerminalSep24Status status\<rparr>"

definition mapAnchorStatus :: "string \<Rightarrow> string" where
  "mapAnchorStatus raw =
     (let normalized = (if raw \<noteq> [] then to_lower (js_trim raw) else [])
      in if isSep24TransactionStatus normalized then normalized else ''pending_anchor'')"

text \<open>\<^verbatim>\<open>isTerminalAnchorStatus\<close> of \<^verbatim>\<open>anchor.ts\<close>, and the one of \<^verbatim>\<open>anchor-status.ts\<close>.\<close>

definition isTerminalAnchorStatus_anchor :: "string \<Rightarrow> bool" where
  "isTerminalAnchorStatus_anchor status = (status = ''completed'' \<or> status = ''error'' \<or> status = ''refunded'')"

definition isTerminalAnchorStatus :: "string \<Rightarrow> bool" where
  "isTerminalAnchorStatus status = isTerminalSep24Status status"

section \<open>The two transition maps\<close>

definition anchor_tail :: "string list" where
  "anchor_tail = [''error'', ''refunded'', ''completed'', ''expired'', ''no_market'', ''too_small'', ''too_large'']"

definition ANCHOR_TRANSITIONS :: "(string \<times> string list) list" where
  "ANCHOR_TRANSITIONS =
     [(''incomplete'',
        [''pending_user_transfer_start'', ''pending_user'', ''pending_transaction_info_update'', ''pending_receiver'',
         ''pending_sender'', ''pending_stellar'', ''pending_trust'', ''pending_anchor'', ''error'', ''expired'',
         ''no_market'', ''too_small'', ''too_large'']),
      (''pending_user_transfer_start'',
        [''pending_user'', ''pending_transaction_info_update'', ''pending_receiver'', ''pending_sender'',
         ''pending_stellar'', ''pending_trust'', ''pending_anchor''] @ anchor_tail),
      (''pending_user'',
        [''pending_transaction_info_update'', ''pending_receiver'', ''pending_sender'', ''pending_stellar'',
         ''pending_trust'', ''pending_anchor''] @ anchor_tail),
      (''pending_transaction_info_update'',
        [''pending_user'', ''pending_receiver'', ''pending_sender'', ''pending_stellar'', ''pending_trust'',
         ''pending_anchor''] @ anchor_tail),
      (''pending_receiver'',
        [''pending_user'', ''pending_transaction_info_update'', ''pending_sender'', ''pending_stellar'',
         ''pending_trust'', ''pending_anchor''] @ anchor_tail),
      (''pending_sender'',
        [''pending_user'', ''pending_transaction_info_update'', ''pending_receiver'', ''pending_stellar'',
         ''pending_trust'', ''pending_anchor''] @ anchor_tail),
      (''pending_stellar'',
        [''pending_user'', ''pending_transaction_info_update'', ''pending_receiver'', ''pending_sender'',
         ''pending_trust'', ''pending_anchor''] @ anchor_tail),
      (''pending_trust'',
        [''pending_user'', ''pending_transaction_info_update'', ''pending_receiver'', ''pending_sender'',
         ''pending_stellar'', ''pending_anchor''] @ anchor_tail),
      (''pending_anchor'',
        [''pending_user'', ''pending_transaction_info_update'', ''pending_receiver'', ''pending_sender'',
         ''pending_stellar'', ''pending_trust''] @ anchor_tail),
      (''completed'', []), (''error'', [''refunded'']), (''refunded'', []), (''expired'', []),
      (''no_market'', []), (''too_small'', []), (''too_large'', [])]"

definition canTransitionAnchorStatus :: "string \<Rightarrow> string \<Rightarrow> bool" where
  "canTransitionAnchorStatus from to =
     (case map_of ANCHOR_TRANSITIONS from of Some tos \<Rightarrow> to \<in> set tos | None \<Rightarrow> False)"

definition WITHDRAWAL_STATUSES :: "string list" where
  "WITHDRAWAL_STATUSES = [''pending'', ''processing'', ''completed'', ''failed'', ''expired'', ''refunded'']"

definition WITHDRAWAL_TRANSITIONS :: "(string \<times> string list) list" where
  "WITHDRAWAL_TRANSITIONS =
     [(''pending'', [''processing'', ''failed'', ''expired'']),
      (''processing'', [''completed'', ''failed'', ''expired'', ''refunded'']),
      (''completed'', []), (''failed'', []), (''expired'', []), (''refunded'', [])]"

definition isTerminalWithdrawalStatus :: "string \<Rightarrow> bool" where
  "isTerminalWithdrawalStatus status =
     (status = ''completed'' \<or> status = ''failed'' \<or> status = ''expired'' \<or> status = ''refunded'')"

definition canTransitionWithdrawalStatus :: "string \<Rightarrow> string \<Rightarrow> bool" where
  "canTransitionWithdrawalStatus from to =
     (case map_of WITHDRAWAL_TRANSITIONS from of Some tos \<Rightarrow> to \<in> set tos | None \<Rightarrow> False)"

definition mapAnchorStatusToWithdrawalStatus :: "string \<Rightarrow> string" where
  "mapAnchorStatusToWithdrawalStatus s =
     (if s = ''completed'' then ''completed''
      else if s = ''refunded'' then ''refunded''
      else if s = ''expired'' then ''expired''
      else if s \<in> {''error'', ''no_market'', ''too_small'', ''too_large''} then ''failed''
      else ''processing'')"

section \<open>Rows and calls\<close>

text \<open>A withdrawal or an anchor session: its owner, its status, and its other columns.\<close>

record tracked_row =
  tr_userId :: string
  tr_status :: string
  tr_cols :: "(string \<times> json) list"

record tracked_db =
  tb_rows :: "tracked_row table"
  tb_audit :: "audit_row list"
  tb_history :: "history_row list"

record tracked_call =
  tc_id :: string
  tc_nextStatus :: string
  tc_source :: string
  tc_extraData :: "(string \<times> json) list option"
  tc_ownerUserId :: "string option"
  tc_expectedCurrentStatus :: "string option"
  tc_rawStatus :: "string option"
  tc_reason :: "string option"

definition set_columns :: "(string \<times> json) list option \<Rightarrow> tracked_row \<Rightarrow> tracked_row" where
  "set_columns extra r =
     (case extra of None \<Rightarrow> r
      | Some xs \<Rightarrow> r\<lparr>tr_cols := fold (\<lambda>(c, v). AList.update c v) xs (tr_cols r)\<rparr>)"

definition persist_extra :: "tracked_call \<Rightarrow> tracked_db \<Rightarrow> tracked_db" where
  "persist_extra p db = db\<lparr>tb_rows := update_row (tc_id p) (set_columns (tc_extraData p)) (tb_rows db)\<rparr>"

datatype read_result = Ignored | Extra_only | Go tracked_row string

text \<open>The checks both services start with: the row exists and belongs to the caller.\<close>

definition owned_row :: "tracked_call \<Rightarrow> tracked_db \<Rightarrow> tracked_row res" where
  "owned_row p db =
     (case find_row (tc_id p) (tb_rows db) of
        None \<Rightarrow> Inl (AppError 404 ''NOT_FOUND'')
      | Some r \<Rightarrow>
          if (case tc_ownerUserId p of Some u \<Rightarrow> tr_userId r \<noteq> u | None \<Rightarrow> False)
          then Inl (AppError 403 ''FORBIDDEN'') else Inr r)"

definition withdrawal_read :: "tracked_call \<Rightarrow> tracked_db \<Rightarrow> read_result res" where
  "withdrawal_read p db =
     res_bind (owned_row p db) (\<lambda>withdrawal.
       let current = tr_status withdrawal;
           target = (if tc_nextStatus p \<in> set WITHDRAWAL_STATUSES then tc_nextStatus p else ''processing'')
       in if target = current then Inr (if tc_extraData p \<noteq> None then Extra_only else Ignored)
          else if \<not> canTransitionWithdrawalStatus current target then Inr Ignored
          else if target = ''completed'' \<and> tc_source p = ''user'' then Inr Ignored
          else Inr (Go withdrawal target))"

definition anchor_read :: "tracked_call \<Rightarrow> tracked_db \<Rightarrow> read_result res" where
  "anchor_read p db =
     res_bind (owned_row p db) (\<lambda>session.
       if tc_nextStatus p \<notin> set SEP24_TRANSACTION_STATUSES then Inr Ignored
       else
         let current = tr_status session; target = tc_nextStatus p
         in if target = current then Inr (if tc_extraData p \<noteq> None then Extra_only else Ignored)
            else if \<not> canTransitionAnchorStatus current target then Inr Ignored
            else if (case tc_expectedCurrentStatus p of Some e \<Rightarrow> e \<noteq> current | None \<Rightarrow> False) then Inr Ignored
            else Inr (Go session target))"

text \<open>The guarded write both services make: the status must still be the one read.\<close>

definition guarded_update :: "tracked_call \<Rightarrow> string \<Rightarrow> string \<Rightarrow> tracked_db \<Rightarrow> nat \<times> tracked_row table" where
  "guarded_update p current target db =
     update_where (\<lambda>i r. i = tc_id p \<and> tr_status r = current)
       (\<lambda>r. (set_columns (tc_extraData p) r)\<lparr>tr_status := target\<rparr>) (tb_rows db)"

definition actor_type :: "string \<Rightarrow> string" where
  "actor_type source = (if source = ''user'' then ''user'' else if source = ''poll'' then ''worker'' else ''system'')"

definition tracked_audit :: "string \<Rightarrow> string \<Rightarrow> tracked_call \<Rightarrow> tracked_row \<Rightarrow> string \<Rightarrow> (string \<times> json) list \<Rightarrow> audit_params" where
  "tracked_audit action entity p r target extra =
     \<lparr>ap_userId = Some (tr_userId r), ap_groupId = None, ap_action = action, ap_entityType = entity,
      ap_entityId = tc_id p, ap_outcome = None, ap_actorType = Some (actor_type (tc_source p)),
      ap_actorPublicKey = None,
      ap_metadata = [(''from'', JStr (tr_status r)), (''to'', JStr target), (''source'', JStr (tc_source p))] @ extra\<rparr>"

definition withdrawal_write :: "tracked_call \<Rightarrow> tracked_row \<Rightarrow> string \<Rightarrow> tracked_db \<Rightarrow> bool \<times> tracked_db" where
  "withdrawal_write p withdrawal target db =
     (let (count, rows) = guarded_update p (tr_status withdrawal) target db in
      if count = 0 then (False, db)
      else (True, db\<lparr>tb_rows := rows,
             tb_audit := auditTx (tracked_audit ''withdrawal.status_changed'' ''withdrawal'' p withdrawal target []) (tb_audit db)\<rparr>))"

definition anchor_write :: "tracked_call \<Rightarrow> tracked_row \<Rightarrow> string \<Rightarrow> tracked_db \<Rightarrow> bool \<times> tracked_db" where
  "anchor_write p session target db =
     (let (count, rows) = guarded_update p (tr_status session) target db in
      if count = 0 then (False, db)
      else (True, db\<lparr>tb_rows := rows,
             tb_history := tb_history db @ [\<lparr>hi_entityType = ''anchor_session'', hi_entityId = tc_id p,
                hi_status = target, hi_reason = tc_reason p, hi_source = Some (tc_source p)\<rparr>],
             tb_audit := auditTx (tracked_audit ''anchor_session.status_changed'' ''anchor_session'' p session target
                (case tc_rawStatus p of Some r \<Rightarrow> [(''rawStatus'', JStr r)] | None \<Rightarrow> [])) (tb_audit db)\<rparr>))"

definition finish ::
  "(tracked_call \<Rightarrow> tracked_row \<Rightarrow> string \<Rightarrow> tracked_db \<Rightarrow> bool \<times> tracked_db) \<Rightarrow> tracked_call \<Rightarrow> read_result
    \<Rightarrow> tracked_db \<Rightarrow> bool \<times> tracked_db" where
  "finish write p outcome db =
     (case outcome of Ignored \<Rightarrow> (False, db) | Extra_only \<Rightarrow> (False, persist_extra p db)
      | Go r target \<Rightarrow> write p r target db)"

definition applyWithdrawalTransition :: "tracked_call \<Rightarrow> tracked_db \<Rightarrow> (bool \<times> tracked_db) res" where
  "applyWithdrawalTransition p db =
     res_bind (withdrawal_read p db) (\<lambda>outcome. Inr (finish withdrawal_write p outcome db))"

definition applyAnchorSessionTransition :: "tracked_call \<Rightarrow> tracked_db \<Rightarrow> (bool \<times> tracked_db) res" where
  "applyAnchorSessionTransition p db =
     res_bind (anchor_read p db) (\<lambda>outcome. Inr (finish anchor_write p outcome db))"

section \<open>Interleaved calls\<close>

type_synonym tracked_state = "tracked_db \<times> (tracked_call \<times> tracked_row \<times> string) list"

inductive withdrawal_step :: "tracked_state \<Rightarrow> tracked_state \<Rightarrow> bool" where
  w_read: "withdrawal_read p db = Inr (Go r t) \<Longrightarrow> withdrawal_step (db, calls) (db, calls @ [(p, r, t)])"
| w_extra: "withdrawal_read p db = Inr Extra_only \<Longrightarrow> withdrawal_step (db, calls) (persist_extra p db, calls)"
| w_write: "withdrawal_step (db, before @ (p, r, t) # after) (snd (withdrawal_write p r t db), before @ after)"

inductive anchor_step :: "tracked_state \<Rightarrow> tracked_state \<Rightarrow> bool" where
  a_read: "anchor_read p db = Inr (Go r t) \<Longrightarrow> anchor_step (db, calls) (db, calls @ [(p, r, t)])"
| a_extra: "anchor_read p db = Inr Extra_only \<Longrightarrow> anchor_step (db, calls) (persist_extra p db, calls)"
| a_write: "anchor_step (db, before @ (p, r, t) # after) (snd (anchor_write p r t db), before @ after)"

definition tracked_status :: "tracked_state \<Rightarrow> string \<Rightarrow> string option" where
  "tracked_status st i = map_option tr_status (find_row i (tb_rows (fst st)))"

text \<open>The history of a withdrawal is its audit trail; that of a session its history rows.\<close>

definition audited_target :: "audit_row \<Rightarrow> string" where
  "audited_target a = (case map_of (au_metadata a) ''to'' of Some (JStr s) \<Rightarrow> s | _ \<Rightarrow> [])"

definition withdrawal_history :: "tracked_state \<Rightarrow> string \<Rightarrow> string list" where
  "withdrawal_history st i =
     map audited_target (filter (\<lambda>a. au_action a = ''withdrawal.status_changed'' \<and> au_entityId a = i) (tb_audit (fst st)))"

definition session_history :: "tracked_state \<Rightarrow> string \<Rightarrow> string list" where
  "session_history st i = statuses_of ''anchor_session'' i (tb_history (fst st))"

text \<open>Every call in flight aims at a status its map lists from the one it read, and a user's
  call never aims at completion.\<close>

definition withdrawal_inv :: "tracked_state \<Rightarrow> bool" where
  "withdrawal_inv st \<longleftrightarrow> keyed (tb_rows (fst st)) \<and>
     (\<forall>(p, r, t) \<in> set (snd st). canTransitionWithdrawalStatus (tr_status r) t
        \<and> \<not> (t = ''completed'' \<and> tc_source p = ''user''))"

definition session_inv :: "tracked_state \<Rightarrow> bool" where
  "session_inv st \<longleftrightarrow> keyed (tb_rows (fst st)) \<and>
     (\<forall>(p, r, t) \<in> set (snd st). canTransitionAnchorStatus (tr_status r) t)"

section \<open>Laws of the guarded write\<close>

lemma set_columns_status [simp]: "tr_status (set_columns x r) = tr_status r"
  by (simp add: set_columns_def split: option.splits)

lemma guarded_update_find:
  "find_row i (snd (guarded_update p cur t db)) =
     map_option (\<lambda>r. if i = tc_id p \<and> tr_status r = cur then (set_columns (tc_extraData p) r)\<lparr>tr_status := t\<rparr> else r)
       (find_row i (tb_rows db))"
  by (simp add: guarded_update_def table_simps)

lemma guarded_update_count:
  "keyed (tb_rows db) \<Longrightarrow> fst (guarded_update p cur t db) =
     (case find_row (tc_id p) (tb_rows db) of Some r \<Rightarrow> if tr_status r = cur then 1 else 0 | None \<Rightarrow> 0)"
  by (simp add: guarded_update_def count_update_where)

lemma guarded_update_keyed [simp]: "keyed (snd (guarded_update p cur t db)) = keyed (tb_rows db)"
  by (simp add: guarded_update_def)

text \<open>The status of every row after a guarded write that matched, and after one that did not.\<close>

lemma guarded_status:
  assumes "keyed (tb_rows db)"
  shows "if fst (guarded_update p cur t db) = 0 then tracked_status (db, c) (tc_id p) \<noteq> Some cur
    else tracked_status (db, c) (tc_id p) = Some cur \<and>
         (\<forall>i. map_option tr_status (find_row i (snd (guarded_update p cur t db))) =
            (if i = tc_id p then Some t else tracked_status (db, c) i))"
proof (cases "find_row (tc_id p) (tb_rows db)")
  case None
  then show ?thesis using guarded_update_count [OF assms, of p cur t] by (simp add: tracked_status_def)
next
  case (Some r)
  have "map_option tr_status (find_row i (snd (guarded_update p cur t db))) =
      (if i = tc_id p then Some t else tracked_status (db, c) i)" if "tr_status r = cur" for i
    using Some that by (cases "find_row i (tb_rows db)") (auto simp: guarded_update_find tracked_status_def)
  then show ?thesis using Some guarded_update_count [OF assms, of p cur t] by (auto simp: tracked_status_def)
qed

lemma persist_extra_find:
  "map_option tr_status (find_row i (tb_rows (persist_extra p db))) = map_option tr_status (find_row i (tb_rows db))"
  by (auto simp: persist_extra_def table_simps option.map_comp comp_def)

lemma persist_extra_keeps:
  "tracked_status (persist_extra p db, c) i = tracked_status (db, c') i"
  "tb_audit (persist_extra p db) = tb_audit db" "tb_history (persist_extra p db) = tb_history db"
  "keyed (tb_rows (persist_extra p db)) = keyed (tb_rows db)"
  by (auto simp: tracked_status_def persist_extra_def table_simps option.map_comp comp_def)

lemma tracked_audit_target:
  "au_action (auditData (tracked_audit a e p r t extra)) = a"
  "au_entityId (auditData (tracked_audit a e p r t extra)) = tc_id p"
  "audited_target (auditData (tracked_audit a e p r t [])) = t"
proof -
  have "to_lower ''from'' \<notin> set AUDIT_REDACTED_KEYS" "to_lower ''to'' \<notin> set AUDIT_REDACTED_KEYS"
    "to_lower ''source'' \<notin> set AUDIT_REDACTED_KEYS" by code_simp+
  then show "audited_target (auditData (tracked_audit a e p r t [])) = t"
    by (auto simp: audited_target_def auditData_def tracked_audit_def fields_of_def spread_field_def)
qed (simp_all add: auditData_def tracked_audit_def)

section \<open>Both machines meet the contract\<close>

lemma anchor_map_distinct: "distinct (map fst ANCHOR_TRANSITIONS)"
  by code_simp

lemma withdrawal_map_distinct: "distinct (map fst WITHDRAWAL_TRANSITIONS)"
  by code_simp

lemma canTransitionAnchor_iff:
  "canTransitionAnchorStatus s t \<longleftrightarrow> (\<exists>tos. (s, tos) \<in> set ANCHOR_TRANSITIONS \<and> t \<in> set tos)"
  unfolding canTransitionAnchorStatus_def by (rule transition_lookup [OF anchor_map_distinct])

lemma canTransitionWithdrawal_iff:
  "canTransitionWithdrawalStatus s t \<longleftrightarrow> (\<exists>tos. (s, tos) \<in> set WITHDRAWAL_TRANSITIONS \<and> t \<in> set tos)"
  unfolding canTransitionWithdrawalStatus_def by (rule transition_lookup [OF withdrawal_map_distinct])

lemma withdrawal_terminal_no_exit: "isTerminalWithdrawalStatus s \<Longrightarrow> \<not> canTransitionWithdrawalStatus s t"
proof -
  have "\<forall>(s, tos) \<in> set WITHDRAWAL_TRANSITIONS. isTerminalWithdrawalStatus s \<longrightarrow> tos = []" by code_simp
  then show "isTerminalWithdrawalStatus s \<Longrightarrow> ?thesis" unfolding canTransitionWithdrawal_iff by force
qed

lemma anchor_terminal_exit: "isTerminalSep24Status s \<Longrightarrow> canTransitionAnchorStatus s t \<Longrightarrow> s = ''error'' \<and> t = ''refunded''"
proof -
  have "\<forall>(s, tos) \<in> set ANCHOR_TRANSITIONS. isTerminalSep24Status s \<longrightarrow> tos = [] \<or> s = ''error'' \<and> tos = [''refunded'']"
    by code_simp
  then show "isTerminalSep24Status s \<Longrightarrow> canTransitionAnchorStatus s t \<Longrightarrow> ?thesis"
    unfolding canTransitionAnchor_iff by force
qed

lemma withdrawal_read_Go:
  "withdrawal_read p db = Inr (Go r t) \<Longrightarrow>
     canTransitionWithdrawalStatus (tr_status r) t \<and> \<not> (t = ''completed'' \<and> tc_source p = ''user'')"
  by (auto simp: withdrawal_read_def Let_def res_simps split: if_splits)

lemma anchor_read_Go: "anchor_read p db = Inr (Go r t) \<Longrightarrow> canTransitionAnchorStatus (tr_status r) t"
  by (auto simp: anchor_read_def Let_def res_simps split: if_splits)

lemma tracked_calls_irrelevant: "tracked_status (db, c) = tracked_status (db, c')"
  by (simp add: tracked_status_def fun_eq_iff)

lemma withdrawal_write_step:
  assumes "keyed (tb_rows db)" "canTransitionWithdrawalStatus (tr_status r) t"
    and db': "db' = snd (withdrawal_write p r t db)"
  shows "tracked_status (db', c) i = tracked_status (db, c') i \<and> withdrawal_history (db', c) i = withdrawal_history (db, c') i
    \<or> (\<exists>s t. tracked_status (db, c') i = Some s \<and> tracked_status (db', c) i = Some t
        \<and> canTransitionWithdrawalStatus s t \<and> withdrawal_history (db', c) i = withdrawal_history (db, c') i @ [t])"
proof -
  let ?u = "guarded_update p (tr_status r) t db"
  note g = guarded_status [OF assms(1), of p "tr_status r" t c']
  show ?thesis
  proof (cases "fst ?u = 0")
    case True
    then have "db' = db" using db' by (simp add: withdrawal_write_def case_prod_beta)
    then show ?thesis using tracked_calls_irrelevant by (simp add: withdrawal_history_def) metis
  next
    case False
    then have d: "tb_rows db' = snd ?u"
        "tb_audit db' = tb_audit db @ [auditData (tracked_audit ''withdrawal.status_changed'' ''withdrawal'' p r t [])]"
      using db' by (simp_all add: withdrawal_write_def case_prod_beta auditTx_def)
    have "withdrawal_history (db', c) i = withdrawal_history (db, c') i @ (if i = tc_id p then [t] else [])"
      by (simp add: withdrawal_history_def d tracked_audit_target)
    moreover have "tracked_status (db', c) i = (if i = tc_id p then Some t else tracked_status (db, c') i)"
      using g False by (simp add: tracked_status_def d)
    ultimately show ?thesis using g False assms(2) by auto
  qed
qed

lemma anchor_write_step:
  assumes "keyed (tb_rows db)" "canTransitionAnchorStatus (tr_status r) t"
    and db': "db' = snd (anchor_write p r t db)"
  shows "tracked_status (db', c) i = tracked_status (db, c') i \<and> session_history (db', c) i = session_history (db, c') i
    \<or> (\<exists>s t. tracked_status (db, c') i = Some s \<and> tracked_status (db', c) i = Some t
        \<and> canTransitionAnchorStatus s t \<and> session_history (db', c) i = session_history (db, c') i @ [t])"
proof -
  let ?u = "guarded_update p (tr_status r) t db"
  note g = guarded_status [OF assms(1), of p "tr_status r" t c']
  show ?thesis
  proof (cases "fst ?u = 0")
    case True
    then have "db' = db" using db' by (simp add: anchor_write_def case_prod_beta)
    then show ?thesis using tracked_calls_irrelevant by (simp add: session_history_def) metis
  next
    case False
    then have d: "tb_rows db' = snd ?u"
        "tb_history db' = tb_history db @ [\<lparr>hi_entityType = ''anchor_session'', hi_entityId = tc_id p,
                hi_status = t, hi_reason = tc_reason p, hi_source = Some (tc_source p)\<rparr>]"
      using db' by (simp_all add: anchor_write_def case_prod_beta)
    have "session_history (db', c) i = session_history (db, c') i @ (if i = tc_id p then [t] else [])"
      by (simp add: session_history_def statuses_of_def history_of_def d)
    moreover have "tracked_status (db', c) i = (if i = tc_id p then Some t else tracked_status (db, c') i)"
      using g False by (simp add: tracked_status_def d)
    ultimately show ?thesis using g False assms(2) by auto
  qed
qed

lemma withdrawal_write_keyed [simp]: "keyed (tb_rows (snd (withdrawal_write p r t db))) = keyed (tb_rows db)"
  by (simp add: withdrawal_write_def case_prod_beta)

lemma anchor_write_keyed [simp]: "keyed (tb_rows (snd (anchor_write p r t db))) = keyed (tb_rows db)"
  by (simp add: anchor_write_def case_prod_beta)

interpretation withdrawals: status_machine canTransitionWithdrawalStatus withdrawal_step
  tracked_status withdrawal_history withdrawal_inv
proof unfold_locales
  fix a b i
  assume st: "withdrawal_step a b" and inv: "withdrawal_inv a"
  show "withdrawal_inv b"
    using st inv by cases (auto simp: withdrawal_inv_def persist_extra_keeps dest: withdrawal_read_Go)
  show "tracked_status b i = tracked_status a i \<and> withdrawal_history b i = withdrawal_history a i \<or>
      (\<exists>s t. tracked_status a i = Some s \<and> tracked_status b i = Some t \<and>
        canTransitionWithdrawalStatus s t \<and> withdrawal_history b i = withdrawal_history a i @ [t])"
    using st
  proof cases
    case (w_write db before p r t after)
    then show ?thesis using inv withdrawal_write_step [of db r t _ p] by (simp add: withdrawal_inv_def)
  qed (simp_all add: persist_extra_keeps(1) withdrawal_history_def persist_extra_keeps(2) tracked_status_def persist_extra_find)
qed

interpretation sessions: status_machine canTransitionAnchorStatus anchor_step
  tracked_status session_history session_inv
proof unfold_locales
  fix a b i
  assume st: "anchor_step a b" and inv: "session_inv a"
  show "session_inv b"
    using st inv by cases (auto simp: session_inv_def persist_extra_keeps dest: anchor_read_Go)
  show "tracked_status b i = tracked_status a i \<and> session_history b i = session_history a i \<or>
      (\<exists>s t. tracked_status a i = Some s \<and> tracked_status b i = Some t \<and>
        canTransitionAnchorStatus s t \<and> session_history b i = session_history a i @ [t])"
    using st
  proof cases
    case (a_write db before p r t after)
    then show ?thesis using inv anchor_write_step [of db r t _ p] by (simp add: session_inv_def)
  qed (simp_all add: persist_extra_keeps(1) session_history_def persist_extra_keeps(3) tracked_status_def persist_extra_find)
qed

section \<open>Properties\<close>

definition demo_tracked :: "string \<Rightarrow> tracked_row" where
  "demo_tracked st = \<lparr>tr_userId = ''ada'', tr_status = st, tr_cols = []\<rparr>"

definition demo_tracked_db :: "string \<Rightarrow> tracked_db" where
  "demo_tracked_db st = \<lparr>tb_rows = [(''w1'', demo_tracked st)], tb_audit = [], tb_history = []\<rparr>"

definition demo_call :: "string \<Rightarrow> string \<Rightarrow> tracked_call" where
  "demo_call next source = \<lparr>tc_id = ''w1'', tc_nextStatus = next, tc_source = source, tc_extraData = None,
     tc_ownerUserId = None, tc_expectedCurrentStatus = None, tc_rawStatus = None, tc_reason = None\<rparr>"



text \<open>Only the anchor completes a withdrawal: whatever the interleaving, the step in which a withdrawal
  becomes completed is one whose source is not the user, and it writes the audit row that says so.\<close>

theorem withdrawal_completed_by_anchor:
  assumes "withdrawal_step a b" and "withdrawal_inv a"
    and "tracked_status a i \<noteq> Some ''completed''" and "tracked_status b i = Some ''completed''"
  shows "\<exists>p r. tc_source p \<noteq> ''user'' \<and> tc_id p = i \<and> tr_status r = ''processing'' \<and>
    tb_audit (fst b) = tb_audit (fst a)
      @ [auditData (tracked_audit ''withdrawal.status_changed'' ''withdrawal'' p r ''completed'' [])]"
  using assms(1)
proof cases
  case (w_write db before p r t after)
  let ?u = "guarded_update p (tr_status r) t db"
  have inv: "keyed (tb_rows db)" "canTransitionWithdrawalStatus (tr_status r) t"
      "\<not> (t = ''completed'' \<and> tc_source p = ''user'')"
    using assms(2) w_write by (auto simp: withdrawal_inv_def)
  have "fst ?u \<noteq> 0" using assms(3,4) w_write
    by (auto simp: withdrawal_write_def case_prod_beta tracked_status_def split: if_splits)
  then have w: "tb_rows (fst b) = snd ?u"
      "tb_audit (fst b) = tb_audit (fst a) @ [auditData (tracked_audit ''withdrawal.status_changed'' ''withdrawal'' p r t [])]"
    using w_write by (simp_all add: withdrawal_write_def case_prod_beta auditTx_def)
  have "tracked_status b i = (if i = tc_id p then Some t else tracked_status a i)"
    using guarded_status [OF inv(1), of p "tr_status r" t "snd a"] \<open>fst ?u \<noteq> 0\<close> w(1) w_write
    by (simp add: tracked_status_def)
  then have t: "t = ''completed''" "tc_id p = i" using assms(3,4) by (auto split: if_splits)
  have "\<forall>(s, tos) \<in> set WITHDRAWAL_TRANSITIONS. ''completed'' \<in> set tos \<longrightarrow> s = ''processing''" by code_simp
  then have "tr_status r = ''processing''" using inv(2) t(1) unfolding canTransitionWithdrawal_iff by blast
  then show ?thesis using w(2) t inv(3) by blast
next
  case (w_extra p db calls)
  then show ?thesis using assms(3,4) persist_extra_keeps(1) [of p db calls i calls] by simp
qed (use assms in \<open>auto simp: tracked_status_def\<close>)

theorem withdrawal_completed_by_anchor_witness:
  "\<exists>p :: tracked_call. tc_source p \<noteq> ''user'' \<and> tc_id p = ''w1'' \<and>
     length (tb_audit (snd (withdrawal_write (demo_call ''completed'' ''webhook'') (demo_tracked ''processing'') ''completed''
       (demo_tracked_db ''processing'')))) = 1"
proof -
  let ?db = "demo_tracked_db ''processing''"
  let ?c = "(demo_call ''completed'' ''webhook'', demo_tracked ''processing'', ''completed'')"
  let ?db' = "snd (withdrawal_write (demo_call ''completed'' ''webhook'') (demo_tracked ''processing'') ''completed'' ?db)"
  have can: "canTransitionWithdrawalStatus ''processing'' ''completed''" by code_simp
  have st: "withdrawal_step (?db, [] @ ?c # []) (?db', [] @ [])" by (rule w_write)
  have i: "withdrawal_inv (?db, [] @ ?c # [])" using can
    by (simp add: withdrawal_inv_def demo_tracked_db_def keyed_def demo_tracked_def demo_call_def)
  have "tracked_status (?db, [] @ ?c # []) ''w1'' \<noteq> Some ''completed''" by code_simp
  moreover have "tracked_status (?db', [] @ []) ''w1'' = Some ''completed''" by code_simp
  moreover have "tb_audit ?db = []" by (simp add: demo_tracked_db_def)
  ultimately obtain p r where "tc_source p \<noteq> ''user''" "tc_id p = ''w1''"
      "tb_audit ?db' = [] @ [auditData (tracked_audit ''withdrawal.status_changed'' ''withdrawal'' p r ''completed'' [])]"
    using withdrawal_completed_by_anchor [OF st i, of "''w1''"] by auto
  then show ?thesis by (intro exI [of _ p]) simp
qed

text \<open>C20. Anchor sessions move along their map under every interleaving of calls and their history rows are the
  path taken; a session in a terminal SEP-24 status stays there, except that an errored one
  may still be refunded.\<close>

theorem session_follows_map:
  assumes "anchor_step\<^sup>*\<^sup>* a b" and "session_inv a" and "tracked_status a i = Some s"
  shows "\<exists>p. path_of canTransitionAnchorStatus s p \<and> tracked_status b i = Some (last (s # p))
    \<and> session_history b i = session_history a i @ p
    \<and> (isTerminalSep24Status s \<longrightarrow> p = [] \<or> s = ''error'' \<and> p = [''refunded''])"
proof -
  obtain p where p: "path_of canTransitionAnchorStatus s p" "tracked_status b i = Some (last (s # p))"
      "session_history b i = session_history a i @ p"
    using sessions.follows_map [OF assms] by blast
  have "p = [] \<or> s = ''error'' \<and> p = [''refunded'']" if "isTerminalSep24Status s"
  proof (cases p)
    case (Cons t q)
    then have st: "s = ''error''" "t = ''refunded''" using p(1) anchor_terminal_exit [OF that] by auto
    have "isTerminalSep24Status ''refunded''" by code_simp
    then have "q = []" using p(1) Cons st anchor_terminal_exit [of "''refunded''"] by (cases q) auto
    then show ?thesis using Cons st by simp
  qed simp
  with p show ?thesis by blast
qed

theorem session_follows_map_witness:
  "\<exists>p. path_of canTransitionAnchorStatus ''error'' p \<and>
    session_history (snd (anchor_write (demo_call ''refunded'' ''poll'') (demo_tracked ''error'') ''refunded''
     (demo_tracked_db ''error'')), []) ''w1'' = session_history (demo_tracked_db ''error'', []) ''w1'' @ p"
proof -
  let ?db = "demo_tracked_db ''error''" and ?c = "(demo_call ''refunded'' ''poll'', demo_tracked ''error'', ''refunded'')"
  have can: "canTransitionAnchorStatus ''error'' ''refunded''" by code_simp
  have "anchor_step (?db, [] @ ?c # []) (snd (anchor_write (demo_call ''refunded'' ''poll'')
      (demo_tracked ''error'') ''refunded'' ?db), [] @ [])"
    by (rule a_write)
  then have r: "anchor_step\<^sup>*\<^sup>* (?db, [?c]) (snd (anchor_write (demo_call ''refunded'' ''poll'')
      (demo_tracked ''error'') ''refunded'' ?db), [])" by simp
  have i: "session_inv (?db, [?c])" using can
    by (simp add: session_inv_def demo_tracked_db_def keyed_def demo_tracked_def demo_call_def)
  have s: "tracked_status (?db, [?c]) ''w1'' = Some ''error''"
    by (simp add: tracked_status_def demo_tracked_db_def find_row_def demo_tracked_def)
  from session_follows_map [OF r i s] show ?thesis by (auto simp: session_history_def)
qed

text \<open>Statuses reported by an anchor: the mapping always yields a supported status, keeps a supported one in
  any case and with any padding, and is idempotent. The statuses the three modules call
  terminal do not agree: an expired session is terminal in the lifecycle and may not leave
  that status, yet \<^verbatim>\<open>anchor.ts\<close> does not treat it as terminal and its mapping does not turn it
  into an error.\<close>

theorem mapAnchorStatus_total:
  "mapAnchorStatus raw \<in> set SEP24_TRANSACTION_STATUSES
   \<and> mapAnchorStatus (mapAnchorStatus raw) = mapAnchorStatus raw
   \<and> isTerminalSep24Status (mapAnchorStatus ''expired'')
   \<and> \<not> isTerminalAnchorStatus_anchor (mapAnchorStatus ''expired'')
   \<and> mapAnchorStatus ''expired'' \<noteq> ''error''"
proof -
  have pa: "''pending_anchor'' \<in> set SEP24_TRANSACTION_STATUSES" by code_simp
  have stable: "\<forall>s \<in> set SEP24_TRANSACTION_STATUSES. to_lower (js_trim s) = s \<and> s \<noteq> []" by code_simp
  have known: "mapAnchorStatus s = s" if "s \<in> set SEP24_TRANSACTION_STATUSES" for s
    using stable that by (simp add: mapAnchorStatus_def isSep24TransactionStatus_def)
  have mem: "mapAnchorStatus raw \<in> set SEP24_TRANSACTION_STATUSES"
    using pa by (simp add: mapAnchorStatus_def isSep24TransactionStatus_def Let_def js_trim_to_lower)
  have "isTerminalSep24Status (mapAnchorStatus ''expired'')" by code_simp
  moreover have "\<not> isTerminalAnchorStatus_anchor (mapAnchorStatus ''expired'')" by code_simp
  moreover have "mapAnchorStatus ''expired'' \<noteq> ''error''" by code_simp
  ultimately show ?thesis using mem known by blast
qed

end
