(* ===== verification/Settlement_Machine.thy ===== *)
theory Settlement_Machine
  imports Audit_Log
begin

text \<open>
  \<^verbatim>\<open>src/src/services/settlement-machine.ts\<close>: the settlement transition map, the guarded
  transition (\<open>applySettlementTransition\<close>), its announcement, and the classification of
  settlement errors.

  A transition runs in a database transaction: it reads the row and checks it
  (\<open>transition_read\<close>), then writes under a condition on the status the row has by then
  (\<open>transition_write\<close>). At the read-committed level other transactions may commit between the
  two, so the step relation \<open>settle_step\<close> lets reads and writes of any number of calls
  interleave; a conditional write and the rows written after it are one step, because the
  updated row stays locked until the commit. Columns other than the ones the machine reads
  are an association list.
\<close>

section \<open>The transition map\<close>

definition SETTLEMENT_STATUSES :: "string list" where
  "SETTLEMENT_STATUSES =
     [''pending'', ''submitted'', ''verifying'', ''pending_confirmation'', ''confirmed'', ''failed'',
      ''expired'', ''needs_review'']"

definition ALLOWED_TRANSITIONS :: "(string \<times> string list) list" where
  "ALLOWED_TRANSITIONS =
     [(''pending'', [''submitted'', ''failed'']),
      (''submitted'', [''verifying'', ''failed'']),
      (''verifying'', [''confirmed'', ''failed'', ''needs_review'', ''submitted'']),
      (''pending_confirmation'', [''confirmed'', ''failed'', ''expired'']),
      (''confirmed'', []),
      (''failed'', []),
      (''expired'', []),
      (''needs_review'', [''confirmed'', ''failed'', ''pending_confirmation'', ''expired''])]"

definition isTerminalSettlementStatus :: "string \<Rightarrow> bool" where
  "isTerminalSettlementStatus s = (s = ''confirmed'' \<or> s = ''failed'' \<or> s = ''expired'')"

definition isSettlementRecoverable :: "string \<Rightarrow> bool" where
  "isSettlementRecoverable s = (s = ''pending'' \<or> s = ''submitted'' \<or> s = ''verifying'')"

definition canTransitionSettlementStatus :: "string \<Rightarrow> string \<Rightarrow> bool" where
  "canTransitionSettlementStatus from to =
     (case map_of ALLOWED_TRANSITIONS from of Some tos \<Rightarrow> to \<in> set tos | None \<Rightarrow> False)"

definition allowedFromStatuses :: "string \<Rightarrow> string list" where
  "allowedFromStatuses nextStatus =
     map fst (filter (\<lambda>(_, tos). nextStatus \<in> set tos) ALLOWED_TRANSITIONS)"

section \<open>Rows and calls\<close>

record settlement_row =
  se_groupId :: string
  se_status :: string
  se_fromUserId :: string
  se_expenseShareId :: "string option"
  se_submittedAt :: "int option"
  se_confirmedAt :: "int option"
  se_cols :: "(string \<times> json) list"

record settlement_db =
  db_settlements :: "settlement_row table"
  db_shares :: "string table"                \<comment> \<open>expense share id to its status\<close>
  db_audit :: "audit_row list"
  db_history :: "history_row list"

record transition_params =
  tp_settlementId :: string
  tp_nextStatus :: string
  tp_source :: string
  tp_extraData :: "(string \<times> json) list option"
  tp_ownerUserId :: "string option"
  tp_settleExpenseShare :: bool

text \<open>\<^verbatim>\<open>{ ...extraData }\<close> over the other columns of a row.\<close>

definition set_cols :: "(string \<times> json) list option \<Rightarrow> settlement_row \<Rightarrow> settlement_row" where
  "set_cols extra r =
     (case extra of None \<Rightarrow> r
      | Some xs \<Rightarrow> r\<lparr>se_cols := fold (\<lambda>(c, v). AList.update c v) xs (se_cols r)\<rparr>)"

text \<open>What the read phase decides: answer at once, or go on with the row it read.\<close>

datatype read_outcome = Unchanged settlement_row | Write_extra | Proceed settlement_row

definition transition_read :: "transition_params \<Rightarrow> settlement_db \<Rightarrow> read_outcome res" where
  "transition_read p db =
     (case find_row (tp_settlementId p) (db_settlements db) of
        None \<Rightarrow> Inl (AppError 404 ''NOT_FOUND'')
      | Some settlement \<Rightarrow>
          if (case tp_ownerUserId p of Some u \<Rightarrow> se_fromUserId settlement \<noteq> u | None \<Rightarrow> False)
          then Inl (AppError 403 ''FORBIDDEN'')
          else if tp_nextStatus p = se_status settlement
          then (if tp_extraData p \<noteq> None then Inr Write_extra else Inr (Unchanged settlement))
          else if \<not> canTransitionSettlementStatus (se_status settlement) (tp_nextStatus p)
          then Inl (AppError 409 ''INVALID_TRANSITION'')
          else Inr (Proceed settlement))"

definition stamp :: "transition_params \<Rightarrow> int \<Rightarrow> settlement_row \<Rightarrow> settlement_row" where
  "stamp p now r =
     (let r1 = set_cols (tp_extraData p) r;
          r2 = (if tp_nextStatus p = ''submitted'' then r1\<lparr>se_submittedAt := Some now\<rparr> else r1);
          r3 = (if tp_nextStatus p = ''confirmed'' then r2\<lparr>se_confirmedAt := Some now\<rparr> else r2)
      in r3\<lparr>se_status := tp_nextStatus p\<rparr>)"

definition json_or_null :: "string \<Rightarrow> (string \<times> json) list \<Rightarrow> json" where
  "json_or_null c cols = (case map_of cols c of Some v \<Rightarrow> v | None \<Rightarrow> JNull)"

definition transition_audit :: "transition_params \<Rightarrow> settlement_row \<Rightarrow> log_action_params" where
  "transition_audit p settlement =
     \<lparr>la_actorId = Some (se_fromUserId settlement), la_actorPublicKey = None,
      la_actorType = Some (tp_source p), la_groupId = Some (se_groupId settlement),
      la_action = ''settlement.status_changed'', la_resourceType = ''settlement'',
      la_resourceId = tp_settlementId p, la_outcome = None,
      la_metadata = [(''from'', JStr (se_status settlement)), (''to'', JStr (tp_nextStatus p)),
                     (''source'', JStr (tp_source p)),
                     (''retryCount'', json_or_null ''retryCount'' (se_cols settlement))]\<rparr>"

text \<open>The write phase, given the row the read phase saw; the result says whether it changed.\<close>

definition transition_write ::
  "transition_params \<Rightarrow> int \<Rightarrow> settlement_row \<Rightarrow> settlement_db \<Rightarrow> bool \<times> settlement_db" where
  "transition_write p now settlement db =
     (let (count, rows) = update_where
            (\<lambda>i r. i = tp_settlementId p \<and> se_status r \<in> set (allowedFromStatuses (tp_nextStatus p)))
            (stamp p now) (db_settlements db)
      in if count = 0 then (False, db)
         else
           let db1 = db\<lparr>db_settlements := rows\<rparr>;
               db2 = db1\<lparr>db_audit := logActionTx (transition_audit p settlement) (db_audit db1)\<rparr>;
               db3 = db2\<lparr>db_history := recordStatusTransitionInTransaction
                       \<lparr>hi_entityType = ''settlement'', hi_entityId = tp_settlementId p,
                        hi_status = tp_nextStatus p, hi_reason = None, hi_source = Some (tp_source p)\<rparr>
                       (db_history db2)\<rparr>
           in (True,
               case se_expenseShareId settlement of
                 Some share \<Rightarrow>
                   if tp_settleExpenseShare p \<and> share \<noteq> [] \<and> tp_nextStatus p = ''confirmed''
                   then db3\<lparr>db_shares := update_row share (\<lambda>_. ''settled'') (db_shares db3)\<rparr>
                   else db3
               | None \<Rightarrow> db3))"

definition write_extra :: "transition_params \<Rightarrow> settlement_db \<Rightarrow> settlement_db" where
  "write_extra p db =
     db\<lparr>db_settlements := update_row (tp_settlementId p) (set_cols (tp_extraData p)) (db_settlements db)\<rparr>"

text \<open>The whole call when nothing else commits in between: the row as it is afterwards, and
  whether the status changed.\<close>

definition applySettlementTransition ::
  "transition_params \<Rightarrow> int \<Rightarrow> settlement_db \<Rightarrow> ((settlement_row option \<times> bool) \<times> settlement_db) res" where
  "applySettlementTransition p now db =
     res_bind (transition_read p db) (\<lambda>outcome.
       case outcome of
         Unchanged r \<Rightarrow> Inr ((Some r, False), db)
       | Write_extra \<Rightarrow>
           (let db' = write_extra p db
            in Inr ((find_row (tp_settlementId p) (db_settlements db'), False), db'))
       | Proceed settlement \<Rightarrow>
           (let (changed, db') = transition_write p now settlement db
            in Inr ((find_row (tp_settlementId p) (db_settlements db'), changed), db')))"

section \<open>The announcement\<close>

definition NOTIFIED_STATUSES :: "(string \<times> string) list" where
  "NOTIFIED_STATUSES = [(''confirmed'', ''settlement.completed''), (''failed'', ''settlement.failed'')]"

record settlement_event =
  ev_eventType :: string
  ev_groupId :: string
  ev_settlementId :: string
  ev_status :: string
  ev_details :: "(string \<times> json) list"

definition notifySettlementTransition :: "string \<Rightarrow> string \<Rightarrow> settlement_db \<Rightarrow> settlement_event list" where
  "notifySettlementTransition settlementId nextStatus db =
     (case map_of NOTIFIED_STATUSES nextStatus of
        None \<Rightarrow> []
      | Some eventType \<Rightarrow>
          (case find_row settlementId (db_settlements db) of
             None \<Rightarrow> []
           | Some row \<Rightarrow>
               [\<lparr>ev_eventType = eventType, ev_groupId = se_groupId row, ev_settlementId = settlementId,
                 ev_status = se_status row,
                 ev_details = map (\<lambda>c. (c, json_or_null c (se_cols row)))
                   [''shortCode'', ''amount'', ''assetCode'', ''assetIssuer'', ''stellarTxHash'', ''failureReason'']\<rparr>]))"

text \<open>A call that owns its transaction announces a change once it has committed.\<close>

definition applyAndNotify ::
  "transition_params \<Rightarrow> int \<Rightarrow> settlement_db \<Rightarrow> ((bool \<times> settlement_event list) \<times> settlement_db) res" where
  "applyAndNotify p now db =
     res_bind (applySettlementTransition p now db) (\<lambda>((_, changed), db').
       Inr ((changed, if changed then notifySettlementTransition (tp_settlementId p) (tp_nextStatus p) db' else []), db'))"

section \<open>Error classification\<close>

datatype error_class = Transient | Permanent

definition permanentKeywords :: "string list" where
  "permanentKeywords =
     [''invalid'', ''malformed'', ''xdr_mismatch'', ''unauthorized'', ''forbidden'', ''not authorized'',
      ''bad request'', ''signature'', ''destination'', ''op_no_destination'', ''op_underfunded'',
      ''op_no_trust'', ''op_src_no_trust'', ''op_src_not_authorized'', ''op_not_authorized'',
      ''op_line_full'', ''tx_bad_seq'', ''tx_insufficient_fee'', ''tx_too_late'', ''tx_too_early'']"

text \<open>The second keyword list of the code decides nothing: what it matches and what it does not
  are both transient.\<close>

definition classifySettlementError :: "thrown \<Rightarrow> error_class" where
  "classifySettlementError e =
     (case e of
        App_error status code _ \<Rightarrow>
          if status = 429 \<or> 500 \<le> status then Transient
          else if code = ''XDR_MISMATCH'' then Permanent
          else if 400 \<le> status \<and> status < 500 then Permanent
          else Transient
      | _ \<Rightarrow>
          if \<exists>kw \<in> set permanentKeywords. str_includes (to_lower (thrown_message e)) kw then Permanent
          else Transient)"

section \<open>Interleaved calls\<close>

text \<open>A call in flight has read its row and not yet written.\<close>

type_synonym settle_state = "settlement_db \<times> (transition_params \<times> settlement_row) list"

inductive settle_step :: "settle_state \<Rightarrow> settle_state \<Rightarrow> bool" where
  read_phase: "transition_read p db = Inr (Proceed r) \<Longrightarrow>
    settle_step (db, calls) (db, calls @ [(p, r)])"
| extra_phase: "transition_read p db = Inr Write_extra \<Longrightarrow>
    settle_step (db, calls) (write_extra p db, calls)"
| write_phase: "settle_step (db, before @ (p, r) # after)
    (snd (transition_write p now r db), before @ after)"

inductive_cases settle_stepE: "settle_step a b"

definition settlement_status :: "settle_state \<Rightarrow> string \<Rightarrow> string option" where
  "settlement_status st i = map_option se_status (find_row i (db_settlements (fst st)))"

definition settlement_history :: "settle_state \<Rightarrow> string \<Rightarrow> string list" where
  "settlement_history st i = statuses_of ''settlement'' i (db_history (fst st))"

text \<open>Ids are unique and a recorded history ends in the row's status.\<close>

definition settle_inv :: "settle_state \<Rightarrow> bool" where
  "settle_inv st \<longleftrightarrow> keyed (db_settlements (fst st)) \<and>
     (\<forall>i. settlement_history st i \<noteq> [] \<longrightarrow> settlement_status st i = Some (last (settlement_history st i)))"

section \<open>Laws of the map\<close>

lemma canTransition_iff:
  "canTransitionSettlementStatus s t \<longleftrightarrow> (\<exists>tos. (s, tos) \<in> set ALLOWED_TRANSITIONS \<and> t \<in> set tos)"
proof -
  have "distinct (map fst ALLOWED_TRANSITIONS)" by code_simp
  then show ?thesis unfolding canTransitionSettlementStatus_def by (rule transition_lookup)
qed

lemma allowedFrom_iff: "s \<in> set (allowedFromStatuses t) \<longleftrightarrow> canTransitionSettlementStatus s t"
  unfolding canTransition_iff allowedFromStatuses_def by force

lemma no_self_transition: "\<not> canTransitionSettlementStatus s s"
proof -
  have "\<forall>(s, tos) \<in> set ALLOWED_TRANSITIONS. s \<notin> set tos" by code_simp
  then show ?thesis unfolding canTransition_iff by blast
qed

lemma terminal_no_exit: "isTerminalSettlementStatus s \<Longrightarrow> \<not> canTransitionSettlementStatus s t"
proof -
  have "\<forall>(s, tos) \<in> set ALLOWED_TRANSITIONS. isTerminalSettlementStatus s \<longrightarrow> tos = []" by code_simp
  then show "isTerminalSettlementStatus s \<Longrightarrow> ?thesis" unfolding canTransition_iff by force
qed

section \<open>Laws of the two phases\<close>

lemma stamp_status [simp]: "se_status (stamp p now r) = tp_nextStatus p"
  by (simp add: stamp_def Let_def)

lemma set_cols_status [simp]: "se_status (set_cols x r) = se_status r"
  by (simp add: set_cols_def split: option.splits)

lemma transition_write_settlements:
  "find_row i (db_settlements (snd (transition_write p now r db))) =
     (if i = tp_settlementId p
      then map_option (\<lambda>x. if canTransitionSettlementStatus (se_status x) (tp_nextStatus p) then stamp p now x else x)
             (find_row i (db_settlements db))
      else find_row i (db_settlements db))"
proof -
  let ?P = "\<lambda>i r. i = tp_settlementId p \<and> se_status r \<in> set (allowedFromStatuses (tp_nextStatus p))"
  let ?u = "update_where ?P (stamp p now) (db_settlements db)"
  have none: "\<forall>x. find_row (tp_settlementId p) (db_settlements db) = Some x \<longrightarrow> \<not> ?P (tp_settlementId p) x"
    if "fst ?u = 0"
    using that by (auto simp: update_where_def filter_empty_conv find_row_def dest!: map_of_SomeD)
  have "db_settlements (snd (transition_write p now r db)) = (if fst ?u = 0 then db_settlements db else snd ?u)"
    by (simp add: transition_write_def Let_def case_prod_beta split: option.splits)
  then show ?thesis
    using none by (cases "find_row i (db_settlements db)") (auto simp: table_simps allowedFrom_iff)
qed

lemma transition_write_changed:
  assumes "keyed (db_settlements db)"
  shows "fst (transition_write p now r db) \<longleftrightarrow>
    (\<exists>x. find_row (tp_settlementId p) (db_settlements db) = Some x
       \<and> canTransitionSettlementStatus (se_status x) (tp_nextStatus p))"
  using count_update_where [OF assms, of "tp_settlementId p" "\<lambda>r. se_status r \<in> set (allowedFromStatuses (tp_nextStatus p))" "stamp p now"]
  by (auto simp: transition_write_def Let_def case_prod_beta allowedFrom_iff split: option.splits if_splits)

lemma transition_write_keyed [simp]:
  "keyed (db_settlements (snd (transition_write p now r db))) = keyed (db_settlements db)"
  by (simp add: transition_write_def Let_def case_prod_beta split: option.splits)

lemma transition_write_history:
  "db_history (snd (transition_write p now r db)) =
     (if fst (transition_write p now r db)
      then recordStatusTransitionInTransaction
             \<lparr>hi_entityType = ''settlement'', hi_entityId = tp_settlementId p, hi_status = tp_nextStatus p,
              hi_reason = None, hi_source = Some (tp_source p)\<rparr> (db_history db)
      else db_history db)"
  by (simp add: transition_write_def Let_def case_prod_beta split: option.splits)

text \<open>One write either leaves a settlement alone or moves it along the map and records it.\<close>

lemma transition_write_step:
  assumes "settle_inv (db, calls)" and db'_def: "db' = snd (transition_write p now r db)"
  shows "settlement_status (db', c) i = settlement_status (db, calls) i
      \<and> settlement_history (db', c) i = settlement_history (db, calls) i \<or>
    (\<exists>s t. settlement_status (db, calls) i = Some s \<and> settlement_status (db', c) i = Some t
      \<and> canTransitionSettlementStatus s t
      \<and> settlement_history (db', c) i = settlement_history (db, calls) i @ [t])"
proof -
  have k: "keyed (db_settlements db)" using assms(1) by (simp add: settle_inv_def)
  note ch = transition_write_changed [OF k, of p now r]
  show ?thesis
  proof (cases "fst (transition_write p now r db) \<and> i = tp_settlementId p")
    case True
    then obtain x where x: "find_row i (db_settlements db) = Some x"
        "canTransitionSettlementStatus (se_status x) (tp_nextStatus p)" using ch by auto
    have "se_status x \<noteq> tp_nextStatus p" using x(2) no_self_transition by metis
    moreover have "settlement_history (db, calls) i \<noteq> [] \<longrightarrow> last (settlement_history (db, calls) i) = se_status x"
      using assms(1) x(1) by (auto simp: settle_inv_def settlement_status_def)
    ultimately have "settlement_history (db', c) i = settlement_history (db, calls) i @ [tp_nextStatus p]"
      using True by (auto simp: db'_def settlement_history_def transition_write_history statuses_record)
    then show ?thesis
      using x True by (auto simp: db'_def settlement_status_def transition_write_settlements)
  next
    case False
    have "settlement_history (db', c) i = settlement_history (db, calls) i"
      using False by (auto simp: db'_def settlement_history_def transition_write_history statuses_record_other)
    moreover have "settlement_status (db', c) i = settlement_status (db, calls) i"
      using False ch by (cases "find_row i (db_settlements db)")
        (auto simp: db'_def settlement_status_def transition_write_settlements)
    ultimately show ?thesis by blast
  qed
qed

lemma write_extra_keeps:
  "settlement_status (write_extra p db, c) i = settlement_status (db, c') i"
  "settlement_history (write_extra p db, c) i = settlement_history (db, c') i"
  "keyed (db_settlements (write_extra p db)) = keyed (db_settlements db)"
  by (auto simp: settlement_status_def settlement_history_def write_extra_def table_simps option.map_comp
      comp_def intro: option.map_cong)

lemma calls_irrelevant:
  "settlement_status (db, c) = settlement_status (db, c')" "settlement_history (db, c) = settlement_history (db, c')"
  by (auto simp: settlement_status_def settlement_history_def fun_eq_iff)

interpretation settlements: status_machine canTransitionSettlementStatus settle_step
  settlement_status settlement_history settle_inv
proof unfold_locales
  fix a b i
  assume st: "settle_step a b" and inv: "settle_inv a"
  show ch: "settlement_status b i = settlement_status a i \<and> settlement_history b i = settlement_history a i \<or>
      (\<exists>s t. settlement_status a i = Some s \<and> settlement_status b i = Some t \<and>
        canTransitionSettlementStatus s t \<and> settlement_history b i = settlement_history a i @ [t])" for i
    using st
  proof cases
    case (read_phase p db r calls)
    then show ?thesis using calls_irrelevant by metis
  next
    case (extra_phase p db calls)
    then show ?thesis using write_extra_keeps(1,2) by simp
  next
    case (write_phase db before p r after now)
    then show ?thesis using transition_write_step [of db "before @ (p, r) # after"] inv by simp
  qed
  have "keyed (db_settlements (fst b)) = keyed (db_settlements (fst a))"
    using st by cases (simp_all add: write_extra_keeps)
  moreover have "settlement_status b i = Some (last (settlement_history b i))"
    if "settlement_history b i \<noteq> []" for i
    using ch [of i] inv that by (auto simp: settle_inv_def)
  ultimately show "settle_inv b" using inv by (simp add: settle_inv_def)
qed

section \<open>Properties\<close>

definition demo_settlement :: "string \<Rightarrow> settlement_row" where
  "demo_settlement st = \<lparr>se_groupId = ''g1'', se_status = st, se_fromUserId = ''ada'', se_expenseShareId = Some ''sh1'',
     se_submittedAt = None, se_confirmedAt = None, se_cols = []\<rparr>"

definition demo_settlement_db :: "string \<Rightarrow> settlement_db" where
  "demo_settlement_db st = \<lparr>db_settlements = [(''s1'', demo_settlement st)], db_shares = [(''sh1'', ''pending'')],
     db_audit = [], db_history = []\<rparr>"

definition demo_transition :: "string \<Rightarrow> transition_params" where
  "demo_transition next = \<lparr>tp_settlementId = ''s1'', tp_nextStatus = next, tp_source = ''worker'',
     tp_extraData = None, tp_ownerUserId = None, tp_settleExpenseShare = True\<rparr>"

lemma demo_settle_inv: "settle_inv (demo_settlement_db st, [])"
  by (simp add: settle_inv_def demo_settlement_db_def keyed_def settlement_history_def statuses_of_def history_of_def)

text \<open>C5. Whatever the interleaving of concurrent transition calls, the status of a settlement only moves
  along the documented transition map, and its status history records exactly the path it
  took, in order and without repetition.\<close>

theorem settlement_follows_map:
  assumes "settle_step\<^sup>*\<^sup>* a b" and "settle_inv a" and "settlement_status a i = Some s"
  shows "\<exists>p. path_of canTransitionSettlementStatus s p \<and> settlement_status b i = Some (last (s # p))
    \<and> settlement_history b i = settlement_history a i @ p"
  using assms by (rule settlements.follows_map)

lemma demo_two_phases:
  "settle_step\<^sup>*\<^sup>* (demo_settlement_db ''verifying'', [])
     (snd (transition_write (demo_transition ''confirmed'') 5 (demo_settlement ''verifying'')
        (demo_settlement_db ''verifying'')), [])"
proof -
  let ?db = "demo_settlement_db ''verifying''" and ?p = "demo_transition ''confirmed''"
  have "transition_read ?p ?db = Inr (Proceed (demo_settlement ''verifying''))" by code_simp
  then have "settle_step (?db, []) (?db, [] @ [(?p, demo_settlement ''verifying'')])" by (rule read_phase)
  moreover have "settle_step (?db, [] @ [(?p, demo_settlement ''verifying'')])
      (snd (transition_write ?p 5 (demo_settlement ''verifying'') ?db), [] @ [])"
    using write_phase [of ?db "[]" ?p "demo_settlement ''verifying''" "[]" 5] by simp
  ultimately show ?thesis using rtranclp.rtrancl_into_rtrancl [OF r_into_rtranclp] by simp
qed

lemma demo_status: "settlement_status (demo_settlement_db st, c) ''s1'' = Some st"
  by (simp add: settlement_status_def demo_settlement_db_def find_row_def demo_settlement_def)

theorem settlement_follows_map_witness:
  "\<exists>p. path_of canTransitionSettlementStatus ''verifying'' p \<and>
     settlement_history (snd (transition_write (demo_transition ''confirmed'') 5 (demo_settlement ''verifying'')
        (demo_settlement_db ''verifying'')), []) ''s1'' = settlement_history (demo_settlement_db ''verifying'', []) ''s1'' @ p"
  using settlement_follows_map [OF demo_two_phases demo_settle_inv demo_status] by blast





text \<open>A defect of the audit trail under concurrency: the audited origin of a transition is the status
  read before the conditional write, so when another call moves the row in between, the audit
  row names a status the transition did not start from.\<close>

theorem audit_origin_can_be_stale:
  "\<exists>db1 db2. db1 = snd (transition_write (demo_transition ''needs_review'') 1 (demo_settlement ''verifying'')
                  (demo_settlement_db ''verifying''))
     \<and> transition_write (demo_transition ''confirmed'') 2 (demo_settlement ''verifying'') db1 = (True, db2)
     \<and> settlement_status (db1, []) ''s1'' = Some ''needs_review''
     \<and> map_of (au_metadata (last (db_audit db2))) ''from'' = Some (JStr ''verifying'')"
proof -
  let ?db1 = "snd (transition_write (demo_transition ''needs_review'') 1 (demo_settlement ''verifying'')
      (demo_settlement_db ''verifying''))"
  let ?w = "transition_write (demo_transition ''confirmed'') 2 (demo_settlement ''verifying'') ?db1"
  have "fst ?w" by code_simp
  moreover have "settlement_status (?db1, []) ''s1'' = Some ''needs_review''" by code_simp
  moreover have "map_of (au_metadata (last (db_audit (snd ?w)))) ''from'' = Some (JStr ''verifying'')" by code_simp
  ultimately show ?thesis by (intro exI [of _ ?db1] exI [of _ "snd ?w"]) (simp add: prod_eq_iff)
qed

end
