(* ===== verification/Settlement_Status.thy ===== *)
theory Settlement_Status
  imports Settlement_Machine Decimal_Digits
begin

text \<open>
  \<^verbatim>\<open>src/src/lib/time-bounds.ts\<close> and \<^verbatim>\<open>src/src/services/settlement-status.ts\<close>: the expiry of
  unsigned transaction intents, and the public status of a settlement. A \<^verbatim>\<open>Date\<close> is its
  number of milliseconds since the epoch.

  Horizon's answer to a lookup is a parameter of type \<open>horizon_reply\<close>: it answers in time
  with a transaction or with none, the lookup throws, or the timeout wins the race.
\<close>

section \<open>Time bounds\<close>

definition CLOCK_SKEW_TOLERANCE_SECONDS :: int where "CLOCK_SKEW_TOLERANCE_SECONDS = 30"
definition INTENT_VALIDITY_SECONDS :: int where "INTENT_VALIDITY_SECONDS = 300"
definition MIN_INTENT_VALIDITY_SECONDS :: int where "MIN_INTENT_VALIDITY_SECONDS = 30"
definition MAX_INTENT_VALIDITY_SECONDS :: int where "MAX_INTENT_VALIDITY_SECONDS = INTENT_VALIDITY_SECONDS"

definition nowSeconds :: "int \<Rightarrow> int" where
  "nowSeconds now = now div 1000"

text \<open>\<^verbatim>\<open>z.coerce.number().int().min(...).max(...)\<close> on an integral request.\<close>

definition intentValiditySchema :: "int option \<Rightarrow> int option" where
  "intentValiditySchema requested =
     (case requested of
        None \<Rightarrow> Some INTENT_VALIDITY_SECONDS
      | Some n \<Rightarrow> if MIN_INTENT_VALIDITY_SECONDS \<le> n \<and> n \<le> MAX_INTENT_VALIDITY_SECONDS then Some n else None)"

definition intentExpiry :: "int \<Rightarrow> int \<Rightarrow> int \<times> int" where
  "intentExpiry requestedValiditySeconds now =
     (let validitySeconds = min (max requestedValiditySeconds MIN_INTENT_VALIDITY_SECONDS) MAX_INTENT_VALIDITY_SECONDS
      in (now + validitySeconds * 1000, validitySeconds))"

definition isIntentExpired :: "int option \<Rightarrow> int \<Rightarrow> bool" where
  "isIntentExpired expiresAt now =
     (case expiresAt of
        None \<Rightarrow> False
      | Some e \<Rightarrow> nowSeconds e + CLOCK_SKEW_TOLERANCE_SECONDS < nowSeconds now)"

definition secondsUntilExpiry :: "int \<Rightarrow> int \<Rightarrow> int" where
  "secondsUntilExpiry expiresAt now = nowSeconds expiresAt - nowSeconds now"

definition assertIntentNotExpired :: "int option \<Rightarrow> int \<Rightarrow> unit res" where
  "assertIntentNotExpired expiresAt now =
     (if isIntentExpired expiresAt now then Inl (AppError 400 ''INTENT_EXPIRED'') else Inr ())"

record time_bounds =
  minTime :: js_number
  maxTime :: js_number

text \<open>The bounds of a parsed transaction, already numbers; \<^verbatim>\<open>Number.isFinite\<close> rejects the rest.\<close>

definition readTimeBounds :: "time_bounds option \<Rightarrow> time_bounds option" where
  "readTimeBounds bounds =
     (case bounds of
        None \<Rightarrow> None
      | Some b \<Rightarrow> (case (minTime b, maxTime b) of (Fin _, Fin _) \<Rightarrow> Some b | _ \<Rightarrow> None))"

definition num :: "js_number \<Rightarrow> rat" where
  "num x = (case x of Fin q \<Rightarrow> q | _ \<Rightarrow> 0)"

definition assertTimeBoundsMatchIntent :: "time_bounds option \<Rightarrow> int option \<Rightarrow> int \<Rightarrow> unit res" where
  "assertTimeBoundsMatchIntent bounds expiresAt now =
     (case bounds of
        None \<Rightarrow> Inl (AppError 400 ''XDR_MISMATCH'')
      | Some b \<Rightarrow>
          let hi = num (maxTime b); lo = num (minTime b); current = of_int (nowSeconds now);
              skew = of_int CLOCK_SKEW_TOLERANCE_SECONDS
          in if hi \<le> 0 then Inl (AppError 400 ''XDR_MISMATCH'')
             else if (case expiresAt of Some e \<Rightarrow> of_int (nowSeconds e) + skew < hi | None \<Rightarrow> False)
             then Inl (AppError 400 ''XDR_MISMATCH'')
             else if hi + skew < current then Inl (AppError 400 ''INTENT_EXPIRED'')
             else if current + skew < lo then Inl (AppError 400 ''XDR_MISMATCH'')
             else Inr ())"

section \<open>The public status\<close>

datatype public_status = Awaiting_signature | Submitted | Confirmed | Failed | Expired

definition isTerminalPublicStatus :: "public_status \<Rightarrow> bool" where
  "isTerminalPublicStatus s = (s = Confirmed \<or> s = Failed \<or> s = Expired)"

definition SETTLEMENT_FAILURE_CATEGORIES :: "string list" where
  "SETTLEMENT_FAILURE_CATEGORIES =
     [''validation'', ''insufficient_funds'', ''expired'', ''upstream'', ''ledger_rejected'', ''internal'']"

definition isSettlementFailureCategory :: "string option \<Rightarrow> bool" where
  "isSettlementFailureCategory v = (case v of Some c \<Rightarrow> c \<in> set SETTLEMENT_FAILURE_CATEGORIES | None \<Rightarrow> False)"

record status_input =
  si_status :: string
  si_stellarTxHash :: "string option"
  si_failureReason :: "string option"
  si_failureCategory :: "string option"
  si_expiresAt :: "int option"

record on_chain_status =
  oc_checked :: bool
  oc_found :: bool
  oc_successful :: "bool option"
  oc_transactionHash :: "string option"

record failure_info =
  fi_category :: string
  fi_reason :: string

record status_result =
  sres_status :: public_status
  sres_onChain :: on_chain_status
  sres_failure :: "failure_info option"
  sres_expiresAt :: "int option"
  sres_expiresInSeconds :: "int option"
  sres_checkedAt :: int

definition toFailureInfo :: "status_input \<Rightarrow> public_status \<Rightarrow> failure_info option" where
  "toFailureInfo settlement publicStatus =
     (if publicStatus \<noteq> Failed then None
      else
        let reason = (case si_failureReason settlement of None \<Rightarrow> [] | Some r \<Rightarrow> js_trim r);
            category = (if isSettlementFailureCategory (si_failureCategory settlement)
                        then the (si_failureCategory settlement) else ''internal'')
        in Some \<lparr>fi_category = category,
                 fi_reason = (if 0 < length reason then reason else ''Settlement failed'')\<rparr>)"

definition toPublicStatus :: "status_input \<Rightarrow> int \<Rightarrow> public_status" where
  "toPublicStatus settlement now =
     (if si_status settlement = ''confirmed'' then Confirmed
      else if si_status settlement = ''failed'' then Failed
      else if si_status settlement = ''expired'' then Expired
      else if si_status settlement = ''submitted''
      then (if isIntentExpired (si_expiresAt settlement) now then Expired else Submitted)
      else (if isIntentExpired (si_expiresAt settlement) now then Expired else Awaiting_signature))"

datatype horizon_reply = Answer "bool option" | Lookup_error | Timed_out

text \<open>\<^verbatim>\<open>Answer None\<close> is Horizon's 404; the timeout resolves to \<^verbatim>\<open>null\<close> as well.\<close>

definition lookupOnChain :: "(string \<Rightarrow> horizon_reply) \<Rightarrow> string \<Rightarrow> on_chain_status" where
  "lookupOnChain horizon hash =
     (case horizon hash of
        Lookup_error \<Rightarrow> \<lparr>oc_checked = False, oc_found = False, oc_successful = None, oc_transactionHash = Some hash\<rparr>
      | Timed_out \<Rightarrow> \<lparr>oc_checked = True, oc_found = False, oc_successful = None, oc_transactionHash = Some hash\<rparr>
      | Answer None \<Rightarrow> \<lparr>oc_checked = True, oc_found = False, oc_successful = None, oc_transactionHash = Some hash\<rparr>
      | Answer (Some ok) \<Rightarrow> \<lparr>oc_checked = True, oc_found = True, oc_successful = Some ok, oc_transactionHash = Some hash\<rparr>)"

definition resolveSettlementStatus :: "(string \<Rightarrow> horizon_reply) \<Rightarrow> status_input \<Rightarrow> int \<Rightarrow> status_result" where
  "resolveSettlementStatus horizon settlement now =
     (let status0 = toPublicStatus settlement now;
          onChain0 = \<lparr>oc_checked = False, oc_found = False, oc_successful = None,
                      oc_transactionHash = si_stellarTxHash settlement\<rparr>;
          (status, onChain) =
            (case si_stellarTxHash settlement of
               Some hash \<Rightarrow>
                 if hash \<noteq> [] \<and> \<not> isTerminalPublicStatus status0
                 then (let oc = lookupOnChain horizon hash
                       in (if oc_found oc \<and> oc_successful oc = Some True then Confirmed
                           else if oc_found oc \<and> oc_successful oc = Some False then Failed
                           else status0, oc))
                 else (status0, onChain0)
             | None \<Rightarrow> (status0, onChain0))
      in \<lparr>sres_status = status, sres_onChain = onChain, sres_failure = toFailureInfo settlement status,
          sres_expiresAt = si_expiresAt settlement,
          sres_expiresInSeconds = map_option (\<lambda>e. secondsUntilExpiry e now) (si_expiresAt settlement),
          sres_checkedAt = now\<rparr>)"

section \<open>Properties\<close>

text \<open>When the time-bound check passes.\<close>

lemma time_bounds_accepted:
  "assertTimeBoundsMatchIntent (readTimeBounds bounds) expiresAt now = Inr () \<longleftrightarrow>
     (\<exists>lo hi. bounds = Some \<lparr>minTime = Fin lo, maxTime = Fin hi\<rparr> \<and> 0 < hi
       \<and> (\<forall>e. expiresAt = Some e \<longrightarrow> hi \<le> of_int (nowSeconds e) + 30)
       \<and> of_int (nowSeconds now) - 30 \<le> hi \<and> lo \<le> of_int (nowSeconds now) + 30)"
proof (cases bounds)
  case (Some b)
  obtain lo hi where b: "b = \<lparr>minTime = lo, maxTime = hi\<rparr>" by (cases b) auto
  show ?thesis
  proof (cases "\<exists>l h. lo = Fin l \<and> hi = Fin h")
    case True
    then show ?thesis
      by (cases expiresAt) (auto simp: Some b readTimeBounds_def assertTimeBoundsMatchIntent_def num_def
          CLOCK_SKEW_TOLERANCE_SECONDS_def Let_def split: if_splits)
  next
    case False
    then have "readTimeBounds bounds = None" by (auto simp: Some b readTimeBounds_def split: js_number.splits)
    then show ?thesis using False by (auto simp: Some b assertTimeBoundsMatchIntent_def)
  qed
qed (simp add: readTimeBounds_def assertTimeBoundsMatchIntent_def)



text \<open>The server, not the client, decides the deadline: whatever validity is requested, the intent
  expires between 30 and 300 seconds after the server's clock, it is not expired before its
  deadline plus the tolerance, and it is expired afterwards.\<close>

theorem intentExpiry_window:
  "now + 30000 \<le> fst (intentExpiry requested now) \<and> fst (intentExpiry requested now) \<le> now + 300000
   \<and> isIntentExpired (Some (fst (intentExpiry requested now))) later
       = (nowSeconds (fst (intentExpiry requested now)) + 30 < nowSeconds later)
   \<and> (later \<le> fst (intentExpiry requested now) + 30000 \<longrightarrow>
        \<not> isIntentExpired (Some (fst (intentExpiry requested now))) later)"
proof -
  let ?e = "fst (intentExpiry requested now)"
  have "now + 30000 \<le> ?e" "?e \<le> now + 300000"
    by (auto simp: intentExpiry_def Let_def MIN_INTENT_VALIDITY_SECONDS_def MAX_INTENT_VALIDITY_SECONDS_def
        INTENT_VALIDITY_SECONDS_def)
  moreover have "later div 1000 \<le> ?e div 1000 + 30" if "later \<le> ?e + 30000"
  proof -
    have "later div 1000 \<le> (?e + 30 * 1000) div 1000" using that by (intro zdiv_mono1) simp_all
    then show ?thesis by simp
  qed
  ultimately show ?thesis
    by (auto simp: isIntentExpired_def CLOCK_SKEW_TOLERANCE_SECONDS_def nowSeconds_def not_less)
qed

theorem intentExpiry_window_witness: "\<not> isIntentExpired (Some (fst (intentExpiry 3600 1000))) 330000"
proof -
  have "330000 \<le> fst (intentExpiry 3600 1000) + 30000" by code_simp
  then show ?thesis using intentExpiry_window [of 1000 3600 330000] by blast
qed

text \<open>C32. The resolved status never invents a payment: it is confirmed only if the row is confirmed or
  Horizon reported this hash as successful, failed only if the row failed or Horizon
  reported it as unsuccessful; a terminal row is answered without Horizon; and a failure
  reason is shown exactly for a failed status, with a known category and a non-empty text.\<close>

theorem resolveSettlementStatus_sound:
  defines "r \<equiv> \<lambda>h s now. resolveSettlementStatus h s now"
  shows "(sres_status (r h s now) = Confirmed \<longrightarrow>
      si_status s = ''confirmed'' \<or> (\<exists>hash. si_stellarTxHash s = Some hash \<and> h hash = Answer (Some True)))
   \<and> (sres_status (r h s now) = Failed \<longrightarrow>
      si_status s = ''failed'' \<or> (\<exists>hash. si_stellarTxHash s = Some hash \<and> h hash = Answer (Some False)))
   \<and> (isTerminalSettlementStatus (si_status s) \<longrightarrow> r h s now = r h' s now)
   \<and> (sres_failure (r h s now) \<noteq> None \<longleftrightarrow> sres_status (r h s now) = Failed)
   \<and> (\<forall>f. sres_failure (r h s now) = Some f \<longrightarrow>
        fi_category f \<in> set SETTLEMENT_FAILURE_CATEGORIES \<and> fi_reason f \<noteq> [])"
proof -
  have oc: "oc_found (lookupOnChain h hash) \<and> oc_successful (lookupOnChain h hash) = Some b \<longleftrightarrow>
      h hash = Answer (Some b)" for hash b
    by (auto simp: lookupOnChain_def split: horizon_reply.splits option.splits)
  have st: "sres_status (r h s now) =
      (case si_stellarTxHash s of
         Some hash \<Rightarrow> if hash \<noteq> [] \<and> \<not> isTerminalPublicStatus (toPublicStatus s now)
           then if h hash = Answer (Some True) then Confirmed
                else if h hash = Answer (Some False) then Failed else toPublicStatus s now
           else toPublicStatus s now
       | None \<Rightarrow> toPublicStatus s now)"
    by (simp add: r_def resolveSettlementStatus_def Let_def oc split: option.split)
  have pub: "toPublicStatus s now = Confirmed \<Longrightarrow> si_status s = ''confirmed''"
      "toPublicStatus s now = Failed \<Longrightarrow> si_status s = ''failed''"
      "isTerminalSettlementStatus (si_status s) \<Longrightarrow> isTerminalPublicStatus (toPublicStatus s now)"
    by (auto simp: toPublicStatus_def isTerminalSettlementStatus_def isTerminalPublicStatus_def split: if_splits)
  have fail: "sres_failure (r h s now) = toFailureInfo s (sres_status (r h s now))"
    by (simp add: r_def resolveSettlementStatus_def Let_def case_prod_beta)
  have "r h s now = r h' s now" if "isTerminalSettlementStatus (si_status s)"
    using pub(3) [OF that] by (simp add: r_def resolveSettlementStatus_def Let_def split: option.splits)
  moreover have "fi_category f \<in> set SETTLEMENT_FAILURE_CATEGORIES \<and> fi_reason f \<noteq> []"
    if "toFailureInfo s x = Some f" for x f
    using that by (auto simp: toFailureInfo_def Let_def isSettlementFailureCategory_def
        SETTLEMENT_FAILURE_CATEGORIES_def split: if_splits option.splits)
  moreover have "toFailureInfo s x \<noteq> None \<longleftrightarrow> x = Failed" for x by (simp add: toFailureInfo_def Let_def)
  ultimately show ?thesis using pub(1,2) unfolding fail st by (auto split: option.splits if_splits)
qed

theorem resolveSettlementStatus_sound_witness:
  "sres_failure (resolveSettlementStatus (\<lambda>_. Timed_out)
     \<lparr>si_status = ''submitted'', si_stellarTxHash = Some ''ab'', si_failureReason = Some ''tx_bad_seq'',
      si_failureCategory = None, si_expiresAt = None\<rparr> 0) = None"
proof -
  let ?s = "\<lparr>si_status = ''submitted'', si_stellarTxHash = Some ''ab'', si_failureReason = Some ''tx_bad_seq'',
      si_failureCategory = None, si_expiresAt = None\<rparr>"
  have "sres_status (resolveSettlementStatus (\<lambda>_. Timed_out) ?s 0) \<noteq> Failed" by code_simp
  then show ?thesis using resolveSettlementStatus_sound [of "\<lambda>_. Timed_out" ?s 0 "\<lambda>_. Timed_out"] by simp
qed

text \<open>Two divergences of the status read from its description: a signed settlement that awaits
  confirmation or review is reported as awaiting its signature, and a lookup that timed out
  is reported as having been checked.\<close>

theorem status_read_divergences:
  "st \<in> {''verifying'', ''pending_confirmation'', ''needs_review''} \<Longrightarrow>
     toPublicStatus \<lparr>si_status = st, si_stellarTxHash = Some hash, si_failureReason = None,
        si_failureCategory = None, si_expiresAt = None\<rparr> now = Awaiting_signature
   \<and> oc_checked (lookupOnChain (\<lambda>_. Timed_out) hash)"
  by (auto simp: toPublicStatus_def isIntentExpired_def lookupOnChain_def)

theorem status_read_divergences_witness:
  "toPublicStatus \<lparr>si_status = ''pending_confirmation'', si_stellarTxHash = Some ''ab'', si_failureReason = None,
      si_failureCategory = None, si_expiresAt = None\<rparr> 0 = Awaiting_signature"
  using status_read_divergences [of "''pending_confirmation''" "''ab''" 0] by simp

end
