(* ===== verification/Failure_Classification.thy ===== *)
theory Failure_Classification
  imports Settlement_Status
begin

text \<open>
  \<^verbatim>\<open>src/src/services/job-retry.ts\<close> (classification and message scrubbing; the backoff's
  floating-point arithmetic is not modelled) and \<^verbatim>\<open>src/src/services/settlement-failure.ts\<close>.

  A regular-expression replacement is \<open>replace_all\<close>: it scans from the left and, where the
  matcher reports a match of some length at the current position, writes the replacement and
  continues behind it. The matchers are greedy as the expressions are; none of the five
  expressions can match after backtracking where its greedy reading fails, because each
  repetition is followed by characters outside its own class.
\<close>

section \<open>Replacing matches\<close>

text \<open>A matcher sees the previous character and the rest of the text, and returns the length
  of its match and the replacement.\<close>

type_synonym matcher = "char option \<Rightarrow> string \<Rightarrow> (nat \<times> string) option"

function replace_all :: "matcher \<Rightarrow> char option \<Rightarrow> string \<Rightarrow> string" where
  "replace_all m prev [] = []"
| "replace_all m prev (c # cs) =
     (case m prev (c # cs) of
        Some (n, r) \<Rightarrow>
          if n = 0 then c # replace_all m (Some c) cs
          else r @ replace_all m (Some ((c # cs) ! (n - 1))) (drop n (c # cs))
      | None \<Rightarrow> c # replace_all m (Some c) cs)"
  by pat_completeness auto
termination
  by (relation "measure (\<lambda>(m, prev, s). length s)") auto

definition is_letter :: "char \<Rightarrow> bool" where
  "is_letter c = (is_lower_ascii c \<or> is_upper_ascii c)"

text \<open>\<^verbatim>\<open>\w\<close>, and \<^verbatim>\<open>\b\<close> between the previous character and the next.\<close>

definition is_word :: "char \<Rightarrow> bool" where
  "is_word c = (is_letter c \<or> is_digit c \<or> c = CHR ''_'')"

definition at_boundary :: "char option \<Rightarrow> string \<Rightarrow> bool" where
  "at_boundary prev s =
     ((case prev of Some c \<Rightarrow> is_word c | None \<Rightarrow> False) \<noteq> (case s of c # _ \<Rightarrow> is_word c | [] \<Rightarrow> False))"

section \<open>job-retry.ts: scrubbing\<close>

definition starts_with_ci :: "string \<Rightarrow> string \<Rightarrow> bool" where
  "starts_with_ci kw s = (to_lower (take (length kw) s) = kw)"

definition bearer_char :: "char \<Rightarrow> bool" where
  "bearer_char c = (is_letter c \<or> is_digit c \<or> c = CHR ''.'' \<or> c = CHR ''_'' \<or> c = CHR ''-'')"

text \<open>\<^verbatim>\<open>/bearer\s+[a-z0-9._-]+/gi\<close>\<close>

definition match_bearer :: matcher where
  "match_bearer prev s =
     (if \<not> starts_with_ci ''bearer'' s then None
      else
        let rest = drop 6 s; sp = takeWhile is_js_space rest;
            tok = takeWhile bearer_char (drop (length sp) rest)
        in if sp = [] \<or> tok = [] then None
           else Some (6 + length sp + length tok, ''bearer [redacted]''))"

text \<open>\<^verbatim>\<open>/(kw|...)([=:]\s*)\S+/gi\<close>, replaced by \<^verbatim>\<open>$1$2[redacted]\<close>.\<close>

definition match_label :: "string \<Rightarrow> matcher" where
  "match_label kw prev s =
     (if \<not> starts_with_ci kw s then None
      else case drop (length kw) s of
        c # rest \<Rightarrow>
          if c = CHR ''='' \<or> c = CHR '':'' then
            let sp = takeWhile is_js_space rest;
                v = takeWhile (\<lambda>x. \<not> is_js_space x) (drop (length sp) rest);
                keep = length kw + 1 + length sp
            in if v = [] then None else Some (keep + length v, take keep s @ ''[redacted]'')
          else None
      | [] \<Rightarrow> None)"

fun match_first :: "string list \<Rightarrow> matcher" where
  "match_first [] prev s = None"
| "match_first (kw # kws) prev s =
     (case match_label kw prev s of Some r \<Rightarrow> Some r | None \<Rightarrow> match_first kws prev s)"

text \<open>The alternatives \<^verbatim>\<open>private[_ -]?key\<close> and \<^verbatim>\<open>api[_ -]?key\<close>, written out.\<close>

definition secret_labels :: "string list" where
  "secret_labels =
     [''secret'', ''token'', ''password'', ''private_key'', ''private key'', ''private-key'', ''privatekey'',
      ''api_key'', ''api key'', ''api-key'', ''apikey'']"

definition envelope_labels :: "string list" where
  "envelope_labels = [''xdr'', ''envelope'', ''transaction'']"

text \<open>\<^verbatim>\<open>/\s+/g\<close>\<close>

definition match_spaces :: matcher where
  "match_spaces prev s =
     (let n = length (takeWhile is_js_space s) in if n = 0 then None else Some (n, '' ''))"

definition safeFailureMessage :: "thrown \<Rightarrow> nat \<Rightarrow> string" where
  "safeFailureMessage e maxLength =
     take maxLength (js_trim
       (replace_all match_spaces None
         (replace_all (match_first envelope_labels) None
           (replace_all (match_first secret_labels) None
             (replace_all match_bearer None (thrown_message e))))))"

section \<open>job-retry.ts: classification\<close>

datatype job_category = Job_transient | Job_indeterminate | Job_permanent

datatype provider_category = Timeout | Transport | Rate_limited | Unavailable | Provider_malformed | Rejected

record job_error =
  je_provider :: "provider_category option"   \<comment> \<open>the category of a \<^verbatim>\<open>ProviderError\<close>\<close>
  je_name :: string
  je_status :: "int option"
  je_message :: string

definition PERMANENT_MARKERS :: "string list" where
  "PERMANENT_MARKERS =
     [''invalid'', ''malformed'', ''xdr_mismatch'', ''intent_expired'', ''unauthoriz'', ''unauthenticated'',
      ''forbidden'', ''not authorized'', ''rejected the transaction'', ''signature'', ''tx_bad_auth'', ''tx_bad_seq'',
      ''tx_too_late'', ''tx_too_early'', ''tx_insufficient_fee'', ''op_no_destination'', ''op_underfunded'',
      ''op_no_trust'', ''op_not_authorized'', ''op_line_full'', ''underfunded'', ''trustline'']"

definition INDETERMINATE_MARKERS :: "string list" where
  "INDETERMINATE_MARKERS =
     [''timeout'', ''timed out'', ''socket hang up'', ''socket'', ''econnreset'', ''econnaborted'', ''aborted'', ''network'']"

definition TRANSIENT_MARKERS :: "string list" where
  "TRANSIENT_MARKERS =
     [''rate_limit'', ''rate limit'', ''too many requests'', ''service unavailable'', ''temporarily unavailable'',
      ''temporar'', ''bad gateway'', ''gateway timeout'', ''econnrefused'', ''enotfound'', ''connection refused'', ''stale'']"

definition PROVIDER_CATEGORY_JOB :: "provider_category \<Rightarrow> job_category" where
  "PROVIDER_CATEGORY_JOB c =
     (case c of Timeout \<Rightarrow> Job_indeterminate | Rejected \<Rightarrow> Job_permanent | _ \<Rightarrow> Job_transient)"

definition has_marker :: "string list \<Rightarrow> string \<Rightarrow> bool" where
  "has_marker markers msg = (\<exists>m \<in> set markers. str_includes msg m)"

definition by_markers :: "string \<Rightarrow> job_category" where
  "by_markers msg =
     (if has_marker PERMANENT_MARKERS msg then Job_permanent
      else if has_marker INDETERMINATE_MARKERS msg then Job_indeterminate
      else if has_marker TRANSIENT_MARKERS msg then Job_transient
      else Job_indeterminate)"

definition classifyJobFailure :: "job_error \<Rightarrow> job_category" where
  "classifyJobFailure e =
     (case je_provider e of
        Some c \<Rightarrow> PROVIDER_CATEGORY_JOB c
      | None \<Rightarrow>
          if je_name e = ''TimeoutError'' then Job_indeterminate
          else if je_name e = ''TransportError'' then Job_transient
          else
            let by_text = by_markers (to_lower (je_message e))
            in case je_status e of
                 Some status \<Rightarrow>
                   if status = 429 then Job_transient
                   else if 500 \<le> status then Job_transient
                   else if 400 \<le> status then Job_permanent
                   else by_text
               | None \<Rightarrow> by_text)"

definition isPermanentJobFailure :: "job_category \<Rightarrow> bool" where
  "isPermanentJobFailure c = (c = Job_permanent)"

section \<open>settlement-failure.ts\<close>

definition MAX_FAILURE_DETAIL_LENGTH :: nat where "MAX_FAILURE_DETAIL_LENGTH = 300"

definition CODE_CATEGORIES :: "(string \<times> string) list" where
  "CODE_CATEGORIES =
     [(''INTENT_EXPIRED'', ''expired''), (''XDR_MISMATCH'', ''validation''), (''XDR_MALFORMED'', ''validation''),
      (''XDR_UNSIGNED'', ''validation''), (''VALIDATION_ERROR'', ''validation''), (''BAD_REQUEST'', ''validation''),
      (''UNAUTHORIZED'', ''validation''), (''FORBIDDEN'', ''validation''), (''ACCOUNT_UNFUNDED'', ''insufficient_funds''),
      (''MISSING_TRUSTLINE'', ''insufficient_funds''), (''INSUFFICIENT_BALANCE'', ''insufficient_funds''),
      (''INSUFFICIENT_FEE_BALANCE'', ''insufficient_funds''), (''RATE_LIMITED'', ''upstream''),
      (''UPSTREAM_ERROR'', ''upstream''), (''INTERNAL_ERROR'', ''internal'')]"

definition MESSAGE_RULES :: "(string \<times> string list) list" where
  "MESSAGE_RULES =
     [(''expired'', [''tx_too_late'', ''intent_expired'', ''expired'', ''signing window'']),
      (''insufficient_funds'',
        [''op_underfunded'', ''underfunded'', ''tx_insufficient_balance'', ''insufficient balance'', ''insufficient funds'',
         ''op_no_trust'', ''op_src_no_trust'', ''no trustline'', ''trustline'', ''op_line_full'', ''not enough'',
         ''tx_insufficient_fee'', ''op_low_reserve'', ''reserve'']),
      (''upstream'',
        [''timeout'', ''timed out'', ''rate limit'', ''rate_limit'', ''too many requests'', ''service unavailable'',
         ''temporarily unavailable'', ''bad gateway'', ''gateway timeout'', ''econnrefused'', ''econnreset'', ''enotfound'',
         ''socket hang up'', ''network'', ''could not reach'', ''unreachable'']),
      (''validation'',
        [''xdr_mismatch'', ''malformed'', ''does not match'', ''signature'', ''tx_bad_auth'', ''unauthoriz'', ''forbidden'',
         ''op_no_destination'', ''op_not_authorized'', ''op_src_not_authorized'', ''invalid'']),
      (''ledger_rejected'',
        [''rejected the transaction'', ''failed on stellar'', ''tx_failed'', ''tx_bad_seq'', ''tx_too_early'',
         ''tx_no_source_account'', ''tx_missing_operation'', ''op_'', ''tx_''])]"

definition seed_char :: "char \<Rightarrow> bool" where
  "seed_char c = (is_upper_ascii c \<or> (50 \<le> (of_char c :: nat) \<and> (of_char c :: nat) \<le> 55))"

text \<open>\<^verbatim>\<open>/\bS[A-Z2-7]{55}\b/g\<close>\<close>

definition match_seed :: matcher where
  "match_seed prev s =
     (if at_boundary prev s \<and> 56 \<le> length s \<and> hd s = CHR ''S''
         \<and> (\<forall>c \<in> set (take 55 (tl s)). seed_char c) \<and> at_boundary (Some (s ! 55)) (drop 56 s)
      then Some (56, ''[redacted]'') else None)"

definition blob_char :: "char \<Rightarrow> bool" where
  "blob_char c = (is_letter c \<or> is_digit c \<or> c = CHR ''+'' \<or> c = CHR ''/'')"

text \<open>\<^verbatim>\<open>/\b[A-Za-z0-9+/]{120,}={0,2}/g\<close>\<close>

definition match_blob :: matcher where
  "match_blob prev s =
     (let n = length (takeWhile blob_char s);
          eqs = length (takeWhile (\<lambda>c. c = CHR ''='') (take 2 (drop n s)))
      in if at_boundary prev s \<and> 120 \<le> n then Some (n + eqs, ''[redacted]'') else None)"

definition redactFailureDetail :: "string \<Rightarrow> string" where
  "redactFailureDetail msg = replace_all match_blob None (replace_all match_seed None msg)"

definition toSafeDetail :: "thrown \<Rightarrow> nat \<Rightarrow> string" where
  "toSafeDetail e maxLength =
     (let scrubbed = redactFailureDetail (safeFailureMessage e maxLength);
          trimmed = take maxLength (js_trim scrubbed)
      in if 0 < length trimmed then trimmed else ''Settlement failed'')"

fun by_message :: "(string \<times> string list) list \<Rightarrow> string \<Rightarrow> string" where
  "by_message [] haystack = ''internal''"
| "by_message ((category, markers) # rules) haystack =
     (if has_marker markers haystack then category else by_message rules haystack)"

definition failure_category :: "thrown \<Rightarrow> string" where
  "failure_category e =
     (let by_text = by_message MESSAGE_RULES (to_lower (thrown_message e)) in
      case e of
        App_error status code _ \<Rightarrow>
          (case map_of CODE_CATEGORIES code of
             Some c \<Rightarrow> c
           | None \<Rightarrow>
               if status = 429 \<or> 500 \<le> status then ''upstream''
               else if 400 \<le> status \<and> status < 500 then ''validation''
               else by_text)
      | Js_error name _ \<Rightarrow> if name = ''TimeoutError'' \<or> name = ''TransportError'' then ''upstream'' else by_text
      | Thrown_value _ \<Rightarrow> by_text)"

definition classifySettlementFailure :: "thrown \<Rightarrow> string \<times> string" where
  "classifySettlementFailure e = (failure_category e, toSafeDetail e MAX_FAILURE_DETAIL_LENGTH)"

definition settlementFailureFields :: "thrown \<Rightarrow> (string \<times> string) list" where
  "settlementFailureFields e =
     (let (category, detail) = classifySettlementFailure e
      in [(''failureCategory'', category), (''failureReason'', detail)])"

section \<open>Lengths\<close>

text \<open>A replacement never longer than its match never makes the text longer.\<close>

definition shrinking :: "matcher \<Rightarrow> bool" where
  "shrinking m \<longleftrightarrow> (\<forall>prev s n r. m prev s = Some (n, r) \<longrightarrow> length r \<le> n \<and> n \<le> length s)"

lemma replace_all_length: "shrinking m \<Longrightarrow> length (replace_all m prev s) \<le> length s"
proof (induction m prev s rule: replace_all.induct)
  case (2 m prev c cs)
  show ?case
  proof (cases "m prev (c # cs)")
    case None
    then show ?thesis using 2 by simp
  next
    case (Some nr)
    then obtain n r where nr: "m prev (c # cs) = Some (n, r)" by force
    show ?thesis
    proof (cases "n = 0")
      case True
      then show ?thesis using 2(2) [OF nr refl True 2(4)] nr by simp
    next
      case False
      have "length r \<le> n" "n \<le> length (c # cs)" using nr 2(4) unfolding shrinking_def by blast+
      moreover have "length (replace_all m (Some ((c # cs) ! (n - 1))) (drop n (c # cs))) \<le> length (drop n (c # cs))"
        using 2(3) [OF nr refl False 2(4)] .
      ultimately show ?thesis using nr False by simp
    qed
  qed
qed simp

lemma match_seed_shrinks: "shrinking match_seed"
  by (auto simp: shrinking_def match_seed_def)

lemma match_blob_shrinks: "shrinking match_blob"
proof -
  have "length (takeWhile blob_char s) + length (takeWhile (\<lambda>c. c = CHR ''='') (take 2 (drop (length (takeWhile blob_char s)) s)))
      \<le> length s" for s
  proof -
    let ?n = "length (takeWhile blob_char s)"
    have "length (takeWhile (\<lambda>c. c = CHR ''='') (take 2 (drop ?n s))) \<le> length (take 2 (drop ?n s))"
      by (rule length_takeWhile_le)
    also have "\<dots> \<le> length s - ?n" by simp
    finally show ?thesis using length_takeWhile_le [of blob_char s] by simp
  qed
  then show ?thesis by (auto simp: shrinking_def match_blob_def Let_def split: if_splits)
qed

lemma safeFailureMessage_length: "length (safeFailureMessage e n) \<le> n"
  by (simp add: safeFailureMessage_def)

lemma redact_length: "length (redactFailureDetail s) \<le> length s"
  unfolding redactFailureDetail_def
  using replace_all_length [OF match_seed_shrinks] replace_all_length [OF match_blob_shrinks] order_trans by blast

lemma by_message_category:
  "\<forall>(c, ms) \<in> set rules. c \<in> set SETTLEMENT_FAILURE_CATEGORIES \<Longrightarrow> by_message rules h \<in> set SETTLEMENT_FAILURE_CATEGORIES"
  by (induction rules h rule: by_message.induct) (auto simp: SETTLEMENT_FAILURE_CATEGORIES_def)

section \<open>Properties\<close>

text \<open>Every failure is classified: the category is always one of the six documented ones, decided by the
  error's own code when that code is listed, and the persisted detail is never empty and
  never longer than 300 characters.\<close>

theorem classifySettlementFailure_total:
  "fst (classifySettlementFailure e) \<in> set SETTLEMENT_FAILURE_CATEGORIES
   \<and> snd (classifySettlementFailure e) \<noteq> [] \<and> length (snd (classifySettlementFailure e)) \<le> 300
   \<and> (\<forall>st code msg c. e = App_error st code msg \<longrightarrow> map_of CODE_CATEGORIES code = Some c \<longrightarrow>
        fst (classifySettlementFailure e) = c)"
proof -
  have rules: "\<forall>(c, ms) \<in> set MESSAGE_RULES. c \<in> set SETTLEMENT_FAILURE_CATEGORIES" by code_simp
  have codes: "\<forall>(k, c) \<in> set CODE_CATEGORIES. c \<in> set SETTLEMENT_FAILURE_CATEGORIES" by code_simp
  have fixed: "''upstream'' \<in> set SETTLEMENT_FAILURE_CATEGORIES" "''validation'' \<in> set SETTLEMENT_FAILURE_CATEGORIES"
    by code_simp+
  have "failure_category e \<in> set SETTLEMENT_FAILURE_CATEGORIES"
    using by_message_category [OF rules] codes fixed
    by (auto simp: failure_category_def Let_def split: thrown.splits option.splits dest!: map_of_SomeD)
  moreover have "toSafeDetail e 300 \<noteq> [] \<and> length (toSafeDetail e 300) \<le> 300"
    by (auto simp: toSafeDetail_def Let_def)
  moreover have "failure_category e = c" if "e = App_error st code msg" "map_of CODE_CATEGORIES code = Some c" for st code msg c
    using that by (simp add: failure_category_def)
  ultimately show ?thesis
    by (auto simp: classifySettlementFailure_def MAX_FAILURE_DETAIL_LENGTH_def)
qed

theorem classifySettlementFailure_total_witness:
  "fst (classifySettlementFailure (App_error 400 ''INTENT_EXPIRED'' ''late'')) = ''expired''"
proof (rule classifySettlementFailure_total [THEN conjunct2, THEN conjunct2, THEN conjunct2, rule_format, OF refl])
  show "map_of CODE_CATEGORIES ''INTENT_EXPIRED'' = Some ''expired''" by code_simp
qed

text \<open>A job is retried without a ledger check only on evidence: a failure is classified transient only if
  the provider's category, the error's type, its status code or a transient marker in its
  message says so; an unrecognised failure is indeterminate, and a 4xx status other than 429
  is permanent.\<close>

theorem classifyJobFailure_cautious:
  "(classifyJobFailure e = Job_transient \<longrightarrow>
      (\<exists>c. je_provider e = Some c \<and> c \<noteq> Timeout \<and> c \<noteq> Rejected) \<or> je_name e = ''TransportError''
      \<or> (\<exists>s. je_status e = Some s \<and> (s = 429 \<or> 500 \<le> s))
      \<or> has_marker TRANSIENT_MARKERS (to_lower (je_message e)))
   \<and> (je_provider e = None \<longrightarrow> je_name e \<noteq> ''TimeoutError'' \<longrightarrow> je_name e \<noteq> ''TransportError'' \<longrightarrow>
       (\<forall>s. je_status e = Some s \<longrightarrow> 400 \<le> s \<longrightarrow> s < 500 \<longrightarrow> s \<noteq> 429 \<longrightarrow> classifyJobFailure e = Job_permanent))
   \<and> (je_provider e = None \<longrightarrow> je_name e \<noteq> ''TransportError'' \<longrightarrow> je_status e = None \<longrightarrow>
       \<not> has_marker PERMANENT_MARKERS (to_lower (je_message e)) \<longrightarrow>
       \<not> has_marker TRANSIENT_MARKERS (to_lower (je_message e)) \<longrightarrow> classifyJobFailure e = Job_indeterminate)"
proof -
  have t: "by_markers m = Job_transient \<Longrightarrow> has_marker TRANSIENT_MARKERS m"
      "\<not> has_marker PERMANENT_MARKERS m \<Longrightarrow> \<not> has_marker TRANSIENT_MARKERS m \<Longrightarrow> by_markers m = Job_indeterminate" for m
    by (simp_all add: by_markers_def split: if_splits)
  define A B where AB: "A \<longleftrightarrow> je_name e = ''TimeoutError''" "B \<longleftrightarrow> je_name e = ''TransportError''"
  note c = classifyJobFailure_def [of e, folded AB]
  have p: "PROVIDER_CATEGORY_JOB x = Job_transient \<Longrightarrow> x \<noteq> Timeout \<and> x \<noteq> Rejected" for x
    by (cases x) (simp_all add: PROVIDER_CATEGORY_JOB_def)
  define m where "m = to_lower (je_message e)"
  show ?thesis
    unfolding AB [symmetric] m_def [symmetric] c Let_def
    using p t [of m] by (simp split: option.split)
qed

theorem classifyJobFailure_cautious_witness:
  "classifyJobFailure \<lparr>je_provider = None, je_name = ''Error'', je_status = Some 404, je_message = ''timeout''\<rparr> = Job_permanent"
  by (rule classifyJobFailure_cautious [THEN conjunct2, THEN conjunct1, rule_format, of _ 404]) simp_all

section \<open>Text that no matcher touches\<close>

lemma replace_all_id: "(\<And>prev t. suffix t s \<Longrightarrow> m prev t = None) \<Longrightarrow> replace_all m prev s = s"
proof (induction s arbitrary: prev)
  case (Cons c s)
  have "m prev (c # s) = None" by (rule Cons.prems) simp
  moreover have "replace_all m (Some c) s = s"
    by (rule Cons.IH, rule Cons.prems, rule suffix_ConsI)
  ultimately show ?case by simp
qed simp

lemma js_trim_no_space: "\<forall>c \<in> set s. \<not> is_js_space c \<Longrightarrow> js_trim s = s"
proof -
  assume a: "\<forall>c \<in> set s. \<not> is_js_space c"
  have id: "dropWhile is_js_space t = t" if "set t = set s" for t
    using a that by (cases t) auto
  have "dropWhile is_js_space s = s" "dropWhile is_js_space (rev s) = rev s" by (rule id, simp)+
  then show ?thesis by (simp add: js_trim_def)
qed

definition sample_seed :: "nat \<Rightarrow> string" where
  "sample_seed n = CHR ''S'' # replicate n CHR ''Q''"

definition dotted :: "nat \<Rightarrow> nat \<Rightarrow> string" where
  "dotted k n = replicate k CHR ''.'' @ sample_seed n"

lemma dotted_suffix:
  "suffix t (dotted k n) \<Longrightarrow> t = [] \<or> hd t = CHR ''.'' \<or> hd t = CHR ''Q'' \<or> t = sample_seed n"
proof (induction k)
  case 0
  then have "t = sample_seed n \<or> suffix t (replicate n CHR ''Q'')"
    by (auto simp: dotted_def sample_seed_def suffix_Cons)
  moreover have "t = [] \<or> hd t = CHR ''Q''" if "suffix t (replicate n CHR ''Q'')"
    using that by (metis hd_in_set in_set_replicate set_mono_suffix subsetD)
  ultimately show ?case by blast
next
  case (Suc k)
  then show ?case by (auto simp: dotted_def suffix_Cons)
qed

lemma dotted_chars: "set (dotted k n) \<subseteq> {CHR ''.'', CHR ''S'', CHR ''Q''}"
  by (auto simp: dotted_def sample_seed_def)

lemma label_first: "starts_with_ci (k # ks) (c # t) \<Longrightarrow> to_lower [c] = [k]"
  by (auto simp: starts_with_ci_def to_lower_def)

lemma dotted_no_label:
  assumes "suffix t (dotted k n)" "kw \<noteq> []" "hd kw \<noteq> CHR ''.''" "hd kw \<noteq> CHR ''q''"
    and "hd kw = CHR ''s'' \<Longrightarrow> \<not> starts_with_ci kw (sample_seed n)"
  shows "\<not> starts_with_ci kw t"
proof
  assume st: "starts_with_ci kw t"
  obtain a b where kw: "kw = a # b" using assms(2) by (cases kw) auto
  then obtain c t' where t: "t = c # t'" using st by (cases t) (auto simp: starts_with_ci_def to_lower_def)
  have lower: "to_lower ''.'' = ''.''" "to_lower ''Q'' = ''q''" "to_lower ''S'' = ''s''" by code_simp+
  have "to_lower [c] = [a]" using label_first st kw t by blast
  with dotted_suffix [OF assms(1)] t kw assms(3-5) st lower show False by (auto simp: sample_seed_def)
qed

lemma seed_is_no_label: "\<not> starts_with_ci ''secret'' (sample_seed n)"
proof -
  have "to_lower ''Q'' = ''q''" by code_simp
  then show ?thesis by (cases n) (auto simp: starts_with_ci_def sample_seed_def to_lower_def)
qed

lemma dotted_no_labels:
  assumes "suffix t (dotted k n)" "\<forall>kw \<in> set kws. kw \<noteq> [] \<and> hd kw \<notin> {CHR ''.'', CHR ''q''} \<and> (hd kw = CHR ''s'' \<longrightarrow> kw = ''secret'')"
  shows "match_first kws prev t = None"
  using assms(2)
proof (induction kws)
  case (Cons kw kws)
  have "\<not> starts_with_ci kw t"
    using Cons.prems seed_is_no_label by (intro dotted_no_label [OF assms(1)]) auto
  then show ?case using Cons by (simp add: match_label_def)
qed simp

lemma dotted_safe: "safeFailureMessage (Js_error nm (dotted k n)) 300 = take 300 (dotted k n)"
proof -
  have b: "replace_all match_bearer None (dotted k n) = dotted k n"
    by (rule replace_all_id) (auto simp: match_bearer_def dest!: dotted_no_label [of _ k n "''bearer''"])
  have labels: "\<forall>kw \<in> set secret_labels. kw \<noteq> [] \<and> hd kw \<notin> {CHR ''.'', CHR ''q''} \<and> (hd kw = CHR ''s'' \<longrightarrow> kw = ''secret'')"
      "\<forall>kw \<in> set envelope_labels. kw \<noteq> [] \<and> hd kw \<notin> {CHR ''.'', CHR ''q''} \<and> (hd kw = CHR ''s'' \<longrightarrow> kw = ''secret'')"
    by code_simp+
  have s: "replace_all (match_first secret_labels) None (dotted k n) = dotted k n"
    "replace_all (match_first envelope_labels) None (dotted k n) = dotted k n"
    by (rule replace_all_id, rule dotted_no_labels, assumption, rule labels)+
  have ns: "\<not> is_js_space CHR ''.''" "\<not> is_js_space CHR ''S''" "\<not> is_js_space CHR ''Q''" by code_simp+
  then have nsp: "\<forall>c \<in> set (dotted k n). \<not> is_js_space c" using dotted_chars by blast
  have "takeWhile is_js_space t = []" if "suffix t (dotted k n)" for t
    using that nsp by (cases t) (auto dest: set_mono_suffix)
  then have sp: "replace_all match_spaces None (dotted k n) = dotted k n"
    by (intro replace_all_id) (simp add: match_spaces_def)
  show ?thesis by (simp add: safeFailureMessage_def thrown_message_def b s sp js_trim_no_space [OF nsp])
qed

lemma dotted_cut: "k \<le> j \<Longrightarrow> j < k + n + 1 \<Longrightarrow> 0 < j - k \<Longrightarrow> take j (dotted k n) = dotted k (j - k - 1)"
  by (cases "j - k") (auto simp: dotted_def sample_seed_def min_def)

lemma dotted_not_redacted:
  assumes "n < 55" shows "redactFailureDetail (dotted k n) = dotted k n"
proof -
  have "match_seed prev t = None" if "suffix t (dotted k n)" for prev t
    using dotted_suffix [OF that] assms by (auto simp: match_seed_def sample_seed_def)
  then have "replace_all match_seed None (dotted k n) = dotted k n" by (rule replace_all_id)
  moreover have "length (takeWhile blob_char t) < 120" if "suffix t (dotted k n)" for t
  proof -
    have "\<not> blob_char CHR ''.''" by code_simp
    then have "length (filter blob_char (dotted k n)) \<le> n + 1" using length_filter_le [of blob_char "replicate n CHR ''Q''"]
      by (simp add: dotted_def sample_seed_def)
    moreover have "length (takeWhile blob_char t) \<le> length (filter blob_char t)" by (induction t) auto
    moreover have "length (filter blob_char t) \<le> length (filter blob_char (dotted k n))"
      using that by (auto simp: suffix_def)
    ultimately show ?thesis using assms by linarith
  qed
  then have "replace_all match_blob None (dotted k n) = dotted k n"
    by (intro replace_all_id) (fastforce simp: match_blob_def Let_def)
  ultimately show ?thesis by (simp add: redactFailureDetail_def)
qed

text \<open>A defect of the redaction: the text is cut to 300 characters before secret seeds are looked for, so
  a 56-character seed that straddles the cut is no longer recognised and its first 55
  characters are persisted in the failure detail; an intact seed is redacted.\<close>

theorem truncated_seed_leaks:
  "snd (classifySettlementFailure (Js_error ''Error'' (dotted 245 55))) = replicate 245 CHR ''.'' @ take 55 (sample_seed 55)
   \<and> match_seed None (sample_seed 55) = Some (56, ''[redacted]'')"
proof -
  have cut: "take 300 (dotted 245 55) = dotted 245 54" using dotted_cut [of 245 300 55] by simp
  have "\<not> is_js_space CHR ''.''" "\<not> is_js_space CHR ''S''" "\<not> is_js_space CHR ''Q''" by code_simp+
  then have "\<forall>c \<in> set (dotted 245 54). \<not> is_js_space c" using dotted_chars by blast
  then have "js_trim (dotted 245 54) = dotted 245 54" by (rule js_trim_no_space)
  moreover have "length (dotted 245 54) = 300" "dotted 245 54 \<noteq> []" by (simp_all add: dotted_def sample_seed_def)
  ultimately have "toSafeDetail (Js_error ''Error'' (dotted 245 55)) 300 = dotted 245 54"
    using dotted_safe [of _ 245 55] cut dotted_not_redacted [of 54 245] by (simp add: toSafeDetail_def Let_def)
  moreover have "match_seed None (sample_seed 55) = Some (56, ''[redacted]'')" by code_simp
  moreover have "dotted 245 54 = replicate 245 CHR ''.'' @ take 55 (sample_seed 55)"
    by (simp add: dotted_def sample_seed_def)
  ultimately show ?thesis by (simp add: classifySettlementFailure_def MAX_FAILURE_DETAIL_LENGTH_def)
qed

end
