(* ===== verification/Refresh_Token.thy ===== *)
theory Refresh_Token
  imports Tables Decimal_Digits
begin

text \<open>
  \<^verbatim>\<open>src/src/services/refresh-token.ts\<close>: rotating refresh tokens. The hash (Node's SHA-256) is
  the parameter \<open>hash\<close>; the random token, family and row ids a call draws are arguments, and the
  step relation requires row ids to be fresh. A redemption reads the stored row, and later
  claims it in a transaction; \<open>token_step\<close> interleaves the two phases of any number of
  redemptions with logins, logouts, family revocations and the clean-up.
\<close>

section \<open>Rows and checks\<close>

record refresh_row =
  rt_tokenHash :: string
  rt_familyId :: string
  rt_userId :: string
  rt_expiresAt :: int
  rt_rotatedAt :: "int option"
  rt_revokedAt :: "int option"

datatype refresh_failure = Malformed_token | Unknown_token | Expired_token | Revoked_token | Reused_token

definition token_char :: "char \<Rightarrow> bool" where
  "token_char c = (is_lower_ascii c \<or> is_upper_ascii c \<or> is_digit c \<or> c = CHR ''_'' \<or> c = CHR ''-'')"

text \<open>\<^verbatim>\<open>/^[A-Za-z0-9_-]{40,90}$/\<close>\<close>

definition isWellFormedToken :: "string \<Rightarrow> bool" where
  "isWellFormedToken token = (40 \<le> length token \<and> length token \<le> 90 \<and> (\<forall>c \<in> set token. token_char c))"

definition hashesEqual :: "string \<Rightarrow> string \<Rightarrow> bool" where
  "hashesEqual a b = (length a = length b \<and> a = b)"

definition expiryFromNow :: "int \<Rightarrow> int \<Rightarrow> int" where
  "expiryFromNow ttl now = now + ttl"

definition fresh_row :: "string \<Rightarrow> string \<Rightarrow> string \<Rightarrow> int \<Rightarrow> refresh_row" where
  "fresh_row h familyId userId expiresAt =
     \<lparr>rt_tokenHash = h, rt_familyId = familyId, rt_userId = userId, rt_expiresAt = expiresAt,
      rt_rotatedAt = None, rt_revokedAt = None\<rparr>"

record issued_token =
  it_token :: string
  it_expiresAt :: int
  it_familyId :: string

definition issueRefreshToken ::
  "(string \<Rightarrow> string) \<Rightarrow> int \<Rightarrow> string \<Rightarrow> string \<Rightarrow> string \<Rightarrow> string \<Rightarrow> int \<Rightarrow> refresh_row table
    \<Rightarrow> issued_token \<times> refresh_row table" where
  "issueRefreshToken hash ttl rowId token familyId userId now db =
     (let expiresAt = expiryFromNow ttl now
      in (\<lparr>it_token = token, it_expiresAt = expiresAt, it_familyId = familyId\<rparr>,
          db @ [(rowId, fresh_row (hash token) familyId userId expiresAt)]))"

definition revokeFamily :: "string \<Rightarrow> int \<Rightarrow> refresh_row table \<Rightarrow> nat \<times> refresh_row table" where
  "revokeFamily familyId now db =
     update_where (\<lambda>_ r. rt_familyId r = familyId \<and> rt_revokedAt r = None) (\<lambda>r. r\<lparr>rt_revokedAt := Some now\<rparr>) db"

definition revokeAllForUser :: "string \<Rightarrow> int \<Rightarrow> refresh_row table \<Rightarrow> nat \<times> refresh_row table" where
  "revokeAllForUser userId now db =
     update_where (\<lambda>_ r. rt_userId r = userId \<and> rt_revokedAt r = None \<and> rt_rotatedAt r = None)
       (\<lambda>r. r\<lparr>rt_revokedAt := Some now\<rparr>) db"

definition classifyStored :: "refresh_row option \<Rightarrow> int \<Rightarrow> refresh_failure option" where
  "classifyStored stored now =
     (case stored of
        None \<Rightarrow> Some Unknown_token
      | Some r \<Rightarrow>
          if rt_rotatedAt r \<noteq> None then Some Reused_token
          else if rt_revokedAt r \<noteq> None then Some Revoked_token
          else if rt_expiresAt r \<le> now then Some Expired_token
          else None)"

definition cleanupExpiredRefreshTokens :: "int \<Rightarrow> refresh_row table \<Rightarrow> nat \<times> refresh_row table" where
  "cleanupExpiredRefreshTokens now db =
     (length (filter (\<lambda>(_, r). rt_expiresAt r < now) db), filter (\<lambda>(_, r). \<not> rt_expiresAt r < now) db)"

section \<open>Rotation\<close>

text \<open>\<^verbatim>\<open>findUnique({ where: { tokenHash } })\<close>: the row with its id.\<close>

definition find_by_hash :: "string \<Rightarrow> refresh_row table \<Rightarrow> (string \<times> refresh_row) option" where
  "find_by_hash h db = List.find (\<lambda>(_, r). rt_tokenHash r = h) db"

datatype rotation_read = Refused refresh_failure "refresh_row table" | Claimable string refresh_row

text \<open>The read phase; detecting reuse revokes the family at once.\<close>

definition rotation_check :: "(string \<Rightarrow> string) \<Rightarrow> string \<Rightarrow> int \<Rightarrow> refresh_row table \<Rightarrow> rotation_read" where
  "rotation_check hash presented now db =
     (if \<not> isWellFormedToken presented then Refused Malformed_token db
      else
        let stored = find_by_hash (hash presented) db in
        case (classifyStored (map_option snd stored) now, stored) of
          (Some Reused_token, Some (_, r)) \<Rightarrow> Refused Reused_token (snd (revokeFamily (rt_familyId r) now db))
        | (Some f, _) \<Rightarrow> Refused f db
        | (None, Some (i, r)) \<Rightarrow> Claimable i r
        | (None, None) \<Rightarrow> Refused Unknown_token db)"

definition claim_guard :: "refresh_row \<Rightarrow> bool" where
  "claim_guard r = (rt_rotatedAt r = None \<and> rt_revokedAt r = None)"

definition claim_mark :: "int \<Rightarrow> refresh_row \<Rightarrow> refresh_row" where
  "claim_mark now r = r\<lparr>rt_rotatedAt := Some now\<rparr>"

record rotation_result =
  rr_userId :: string
  rr_refresh :: issued_token

text \<open>The claim transaction: the conditional update, then the successor in the same family.\<close>

definition rotation_claim ::
  "(string \<Rightarrow> string) \<Rightarrow> int \<Rightarrow> string \<Rightarrow> string \<Rightarrow> int \<Rightarrow> string \<Rightarrow> refresh_row \<Rightarrow> refresh_row table
    \<Rightarrow> (refresh_failure + rotation_result) \<times> refresh_row table" where
  "rotation_claim hash ttl newId token now storedId stored db =
     (let (count, rows) = update_where (\<lambda>i r. i = storedId \<and> claim_guard r) (claim_mark now) db in
      if count = 0 then (Inl Reused_token, db)
      else
        (Inr \<lparr>rr_userId = rt_userId stored,
              rr_refresh = \<lparr>it_token = token, it_expiresAt = expiryFromNow ttl now, it_familyId = rt_familyId stored\<rparr>\<rparr>,
         rows @ [(newId, fresh_row (hash token) (rt_familyId stored) (rt_userId stored) (expiryFromNow ttl now))]))"

definition rotateRefreshToken ::
  "(string \<Rightarrow> string) \<Rightarrow> int \<Rightarrow> string \<Rightarrow> string \<Rightarrow> string \<Rightarrow> int \<Rightarrow> refresh_row table
    \<Rightarrow> (refresh_failure + rotation_result) \<times> refresh_row table" where
  "rotateRefreshToken hash ttl newId token presented now db =
     (case rotation_check hash presented now db of
        Refused f db' \<Rightarrow> (Inl f, db')
      | Claimable i r \<Rightarrow> rotation_claim hash ttl newId token now i r db)"

definition unauthorizedForRefresh :: exn where
  "unauthorizedForRefresh = AppError 401 ''UNAUTHORIZED''"

section \<open>Interleaved redemptions\<close>

text \<open>The table, the redemptions that have read and not yet claimed, the ids claimed so far,
  and the random ids and families drawn so far.\<close>

record token_state =
  ts_rows :: "refresh_row table"
  ts_calls :: "(string \<times> refresh_row) list"
  ts_won :: "string list"
  ts_drawn :: "string list"

definition no_tokens :: token_state where
  "no_tokens = \<lparr>ts_rows = [], ts_calls = [], ts_won = [], ts_drawn = []\<rparr>"

inductive token_step :: "(string \<Rightarrow> string) \<Rightarrow> int \<Rightarrow> token_state \<Rightarrow> token_state \<Rightarrow> bool" for hash ttl where
  login: "i \<notin> set (ts_drawn st) \<Longrightarrow> fam \<notin> set (ts_drawn st) \<Longrightarrow>
    token_step hash ttl st
      (st\<lparr>ts_rows := snd (issueRefreshToken hash ttl i tok fam user now (ts_rows st)),
          ts_drawn := i # fam # ts_drawn st\<rparr>)"
| present: "rotation_check hash tok now (ts_rows st) = Claimable i r \<Longrightarrow>
    token_step hash ttl st (st\<lparr>ts_calls := ts_calls st @ [(i, r)]\<rparr>)"
| refuse: "rotation_check hash tok now (ts_rows st) = Refused f db' \<Longrightarrow>
    token_step hash ttl st (st\<lparr>ts_rows := db'\<rparr>)"
| claim: "ts_calls st = before @ (i, r) # after \<Longrightarrow> j \<notin> set (ts_drawn st) \<Longrightarrow>
    rotation_claim hash ttl j tok now i r (ts_rows st) = (res, db') \<Longrightarrow>
    token_step hash ttl st
      (st\<lparr>ts_rows := db', ts_calls := before @ after,
          ts_won := (case res of Inr _ \<Rightarrow> i # ts_won st | Inl _ \<Rightarrow> ts_won st), ts_drawn := j # ts_drawn st\<rparr>)"
| logout: "token_step hash ttl st (st\<lparr>ts_rows := snd (revokeAllForUser user now (ts_rows st))\<rparr>)"
| cut: "token_step hash ttl st (st\<lparr>ts_rows := snd (revokeFamily fam now (ts_rows st))\<rparr>)"
| cleanup: "token_step hash ttl st (st\<lparr>ts_rows := snd (cleanupExpiredRefreshTokens now (ts_rows st))\<rparr>)"

text \<open>Row ids are unique, whatever is stored was drawn, a claimed row that is still there is
  marked, and a redemption in flight remembers the family of its row.\<close>

definition token_inv :: "token_state \<Rightarrow> bool" where
  "token_inv st \<longleftrightarrow>
     keyed (ts_rows st) \<and> distinct (ts_won st) \<and> set (ts_won st) \<subseteq> set (ts_drawn st) \<and>
     (\<forall>(i, r) \<in> set (ts_rows st). i \<in> set (ts_drawn st) \<and> rt_familyId r \<in> set (ts_drawn st) \<and>
        (i \<in> set (ts_won st) \<longrightarrow> rt_rotatedAt r \<noteq> None)) \<and>
     (\<forall>(i, r) \<in> set (ts_calls st). i \<in> set (ts_drawn st) \<and> rt_familyId r \<in> set (ts_drawn st) \<and>
        (\<forall>s. (i, s) \<in> set (ts_rows st) \<longrightarrow> rt_familyId s = rt_familyId r))"

text \<open>A family that is cut off: drawn, and every row of it revoked.\<close>

definition cut_off :: "string \<Rightarrow> token_state \<Rightarrow> bool" where
  "cut_off fam st \<longleftrightarrow> fam \<in> set (ts_drawn st) \<and>
     (\<forall>(i, r) \<in> set (ts_rows st). rt_familyId r = fam \<longrightarrow> rt_revokedAt r \<noteq> None)"

interpretation rotations: row_claim claim_guard claim_mark
  by unfold_locales (simp add: claim_guard_def claim_mark_def)

section \<open>Single use\<close>

lemma in_update_where:
  "(i, s) \<in> set (snd (update_where P f t)) \<longleftrightarrow> (\<exists>r. (i, r) \<in> set t \<and> s = (if P i r then f r else r))"
  by (force simp: update_where_def image_iff)

lemma keyed_filter: "keyed t \<Longrightarrow> keyed (filter P t)"
  by (simp add: keyed_def distinct_map_filter)

lemma keyed_snoc: "keyed (t @ [(i, r)]) \<longleftrightarrow> keyed t \<and> i \<notin> fst ` set t"
  by (auto simp: keyed_def)

lemma rotation_claim_cases:
  assumes "rotation_claim hash ttl j tok now i r db = (res, db')" "keyed db"
  obtains (lost) "res = Inl Reused_token" "db' = db" "\<forall>s. (i, s) \<in> set db \<longrightarrow> \<not> claim_guard s"
  | (won) s where "res = Inr \<lparr>rr_userId = rt_userId r,
        rr_refresh = \<lparr>it_token = tok, it_expiresAt = expiryFromNow ttl now, it_familyId = rt_familyId r\<rparr>\<rparr>"
      "(i, s) \<in> set db" "claim_guard s"
      "db' = snd (update_where (\<lambda>k r. k = i \<and> claim_guard r) (claim_mark now) db)
        @ [(j, fresh_row (hash tok) (rt_familyId r) (rt_userId r) (expiryFromNow ttl now))]"
proof (cases "fst (update_where (\<lambda>k r. k = i \<and> claim_guard r) (claim_mark now) db) = 0")
  case True
  then have "\<forall>s. (i, s) \<in> set db \<longrightarrow> \<not> claim_guard s"
    by (auto simp: update_where_def filter_empty_conv)
  with True assms(1) show ?thesis by (intro lost) (auto simp: rotation_claim_def case_prod_beta)
next
  case False
  then obtain s where "(i, s) \<in> set db" "claim_guard s"
    by (auto simp: update_where_def filter_empty_conv)
  with False assms(1) show ?thesis by (intro won [of s]) (auto simp: rotation_claim_def case_prod_beta)
qed

lemma rotation_check_cases:
  assumes "rotation_check hash tok now db = R"
  obtains (claimable) i r where "R = Claimable i r" "find_by_hash (hash tok) db = Some (i, r)" "claim_guard r"
      "now < rt_expiresAt r"
  | (reused) i r where "R = Refused Reused_token (snd (revokeFamily (rt_familyId r) now db))"
      "find_by_hash (hash tok) db = Some (i, r)" "rt_rotatedAt r \<noteq> None"
  | (refused) f where "R = Refused f db" "f \<noteq> Reused_token"
  using assms
  by (auto simp: rotation_check_def classifyStored_def claim_guard_def Let_def
      split: if_splits option.splits refresh_failure.splits)

lemma find_by_hash_SomeD: "find_by_hash h db = Some (i, r) \<Longrightarrow> (i, r) \<in> set db \<and> rt_tokenHash r = h"
  by (auto simp: find_by_hash_def find_Some_iff in_set_conv_nth)

lemmas revoke_defs = revokeFamily_def revokeAllForUser_def

lemma keyed_unique: "keyed t \<Longrightarrow> (i, r) \<in> set t \<Longrightarrow> (i, s) \<in> set t \<Longrightarrow> r = s"
  by (auto simp: keyed_def dest: eq_key_imp_eq_value)

lemma token_invD:
  assumes "token_inv st"
  shows "keyed (ts_rows st)" "distinct (ts_won st)" "set (ts_won st) \<subseteq> set (ts_drawn st)"
    and "(i, r) \<in> set (ts_rows st) \<Longrightarrow> i \<in> set (ts_drawn st) \<and> rt_familyId r \<in> set (ts_drawn st)"
    and "(i, r) \<in> set (ts_rows st) \<Longrightarrow> i \<in> set (ts_won st) \<Longrightarrow> rt_rotatedAt r \<noteq> None"
    and "(i, r) \<in> set (ts_calls st) \<Longrightarrow> i \<in> set (ts_drawn st) \<and> rt_familyId r \<in> set (ts_drawn st)"
    and "(i, r) \<in> set (ts_calls st) \<Longrightarrow> (i, s) \<in> set (ts_rows st) \<Longrightarrow> rt_familyId s = rt_familyId r"
  using assms unfolding token_inv_def by blast+

lemma token_invI:
  assumes "keyed (ts_rows st)" "distinct (ts_won st)" "set (ts_won st) \<subseteq> set (ts_drawn st)"
    and "\<And>i r. (i, r) \<in> set (ts_rows st) \<Longrightarrow> i \<in> set (ts_drawn st) \<and> rt_familyId r \<in> set (ts_drawn st)"
    and "\<And>i r. (i, r) \<in> set (ts_rows st) \<Longrightarrow> i \<in> set (ts_won st) \<Longrightarrow> rt_rotatedAt r \<noteq> None"
    and "\<And>i r. (i, r) \<in> set (ts_calls st) \<Longrightarrow> i \<in> set (ts_drawn st) \<and> rt_familyId r \<in> set (ts_drawn st)"
    and "\<And>i r s. (i, r) \<in> set (ts_calls st) \<Longrightarrow> (i, s) \<in> set (ts_rows st) \<Longrightarrow> rt_familyId s = rt_familyId r"
  shows "token_inv st"
  using assms unfolding token_inv_def by blast

text \<open>Rewriting rows in place keeps the invariant as long as families and marks stay.\<close>

lemma token_inv_update:
  assumes inv: "token_inv st"
    and keep: "\<And>r. rt_familyId (f r) = rt_familyId r" "\<And>r. rt_rotatedAt r \<noteq> None \<Longrightarrow> rt_rotatedAt (f r) \<noteq> None"
  shows "token_inv (st\<lparr>ts_rows := snd (update_where P f (ts_rows st))\<rparr>)"
proof (rule token_invI)
  let ?st = "st\<lparr>ts_rows := snd (update_where P f (ts_rows st))\<rparr>"
  fix i s assume "(i, s) \<in> set (ts_rows ?st)"
  then obtain r where r: "(i, r) \<in> set (ts_rows st)" "s = (if P i r then f r else r)"
    by (auto simp: in_update_where)
  have same: "rt_familyId s = rt_familyId r" and mark: "rt_rotatedAt r \<noteq> None \<Longrightarrow> rt_rotatedAt s \<noteq> None"
    using r(2) keep by auto
  show "i \<in> set (ts_drawn ?st) \<and> rt_familyId s \<in> set (ts_drawn ?st)"
    using token_invD(4) [OF inv r(1)] same by simp
  show "rt_rotatedAt s \<noteq> None" if "i \<in> set (ts_won ?st)"
    using token_invD(5) [OF inv r(1)] that mark by simp
  show "rt_familyId s = rt_familyId c" if "(i, c) \<in> set (ts_calls ?st)" for c
    using token_invD(7) [OF inv _ r(1)] that same by simp
qed (use token_invD [OF inv] in auto)

lemma token_inv_filter:
  assumes inv: "token_inv st"
  shows "token_inv (st\<lparr>ts_rows := filter P (ts_rows st)\<rparr>)"
  by (rule token_invI) (use token_invD [OF inv] in \<open>auto simp: keyed_filter\<close>)

lemma token_inv_login:
  assumes inv: "token_inv st" and "i \<notin> set (ts_drawn st)" "fam \<notin> set (ts_drawn st)"
  shows "token_inv (st\<lparr>ts_rows := ts_rows st @ [(i, fresh_row h fam user e)], ts_drawn := i # fam # ts_drawn st\<rparr>)"
  by (rule token_invI) (use token_invD [OF inv] assms(2,3) in \<open>auto simp: keyed_snoc fresh_row_def\<close>)

lemma token_inv_present:
  assumes inv: "token_inv st" and "find_by_hash h (ts_rows st) = Some (i, r)"
  shows "token_inv (st\<lparr>ts_calls := ts_calls st @ [(i, r)]\<rparr>)"
proof (rule token_invI)
  have ir: "(i, r) \<in> set (ts_rows st)" using assms(2) find_by_hash_SomeD by blast
  let ?st = "st\<lparr>ts_calls := ts_calls st @ [(i, r)]\<rparr>"
  fix j c assume c: "(j, c) \<in> set (ts_calls ?st)"
  then show "j \<in> set (ts_drawn ?st) \<and> rt_familyId c \<in> set (ts_drawn ?st)"
    using token_invD(4,6) [OF inv] ir by auto
  show "rt_familyId s = rt_familyId c" if "(j, s) \<in> set (ts_rows ?st)" for s
    using c that token_invD(7) [OF inv] keyed_unique [OF token_invD(1) [OF inv] ir] by auto
qed (use token_invD [OF inv] in auto)

text \<open>The winning claim: the row was open, so its id was not among the claimed ones.\<close>

lemma token_inv_won:
  assumes inv: "token_inv st" and calls: "ts_calls st = before @ (i, r) # after"
    and j: "j \<notin> set (ts_drawn st)" and s: "(i, s) \<in> set (ts_rows st)" "claim_guard s"
    and st': "st' = st\<lparr>ts_rows := snd (update_where (\<lambda>k r. k = i \<and> claim_guard r) (claim_mark now) (ts_rows st))
        @ [(j, fresh_row h (rt_familyId r) user e)],
      ts_calls := before @ after, ts_won := i # ts_won st, ts_drawn := j # ts_drawn st\<rparr>"
  shows "token_inv st'"
proof (rule token_invI)
  note D = token_invD [OF inv]
  have ir: "(i, r) \<in> set (ts_calls st)" using calls by simp
  have new: "i \<notin> set (ts_won st)" using D(5) [OF s(1)] s(2) by (auto simp: claim_guard_def)
  have ids: "fst ` set (snd (update_where (\<lambda>k r. k = i \<and> claim_guard r) (claim_mark now) (ts_rows st)))
      = fst ` set (ts_rows st)"
    by (force simp: update_where_def)
  have jfresh: "j \<notin> fst ` set (ts_rows st)" using D(4) j by force
  show "keyed (ts_rows st')" using D(1) jfresh by (simp add: st' keyed_snoc ids)
  show "distinct (ts_won st')" using D(2) new by (simp add: st')
  show "set (ts_won st') \<subseteq> set (ts_drawn st')" using D(3) D(6) [OF ir] by (auto simp: st')
  show "k \<in> set (ts_drawn st') \<and> rt_familyId c \<in> set (ts_drawn st')" if "(k, c) \<in> set (ts_calls st')" for k c
    using that D(6) [of k c] calls by (auto simp: st')
  fix k c assume "(k, c) \<in> set (ts_rows st')"
  then consider (old) x where "(k, x) \<in> set (ts_rows st)"
      "c = (if k = i \<and> claim_guard x then claim_mark now x else x)"
    | (succ) "k = j" "c = fresh_row h (rt_familyId r) user e"
    by (auto simp: st' in_update_where)
  note cs = this
  show "k \<in> set (ts_drawn st') \<and> rt_familyId c \<in> set (ts_drawn st')"
    using cs D(4) D(6) [OF ir] by cases (auto simp: st' claim_mark_def fresh_row_def)
  show "rt_rotatedAt c \<noteq> None" if "k \<in> set (ts_won st')"
    using cs
  proof cases
    case old
    show ?thesis
    proof (cases "k = i")
      case True
      then have "x = s" using old(1) s(1) keyed_unique [OF D(1)] by blast
      then show ?thesis using old(2) s(2) True by (simp add: claim_mark_def)
    next
      case False
      then show ?thesis using old D(5) [OF old(1)] that by (simp add: st')
    qed
  next
    case succ
    then have False using that j D(3) D(6) [OF ir] by (auto simp: st')
    then show ?thesis ..
  qed
  show "rt_familyId c = rt_familyId d" if "(k, d) \<in> set (ts_calls st')" for d
  proof -
    have kd: "(k, d) \<in> set (ts_calls st)" using that calls by (auto simp: st')
    show ?thesis using cs
    proof cases
      case old
      then show ?thesis using D(7) [OF kd old(1)] by (simp add: claim_mark_def)
    next
      case succ
      then have False using D(6) [OF kd] j by simp
      then show ?thesis ..
    qed
  qed
qed

lemma token_inv_drop:
  assumes inv: "token_inv st" and calls: "ts_calls st = before @ c # after"
  shows "token_inv (st\<lparr>ts_calls := before @ after, ts_drawn := j # ts_drawn st\<rparr>)"
proof (rule token_invI)
  let ?st = "st\<lparr>ts_calls := before @ after, ts_drawn := j # ts_drawn st\<rparr>"
  note D = token_invD [OF inv]
  fix i r assume "(i, r) \<in> set (ts_calls ?st)"
  then have ir: "(i, r) \<in> set (ts_calls st)" using calls by auto
  show "i \<in> set (ts_drawn ?st) \<and> rt_familyId r \<in> set (ts_drawn ?st)" using D(6) [OF ir] by simp
  show "rt_familyId s = rt_familyId r" if "(i, s) \<in> set (ts_rows ?st)" for s
    using D(7) [OF ir] that by simp
qed (use token_invD(1-5) [OF inv] in \<open>auto simp del: not_None_eq\<close>)

lemma token_inv_step: "token_step hash ttl a b \<Longrightarrow> token_inv a \<Longrightarrow> token_inv b"
proof (induction rule: token_step.induct)
  case (login i st fam tok user now)
  then show ?case by (simp add: issueRefreshToken_def Let_def token_inv_login)
next
  case (present tok now st i r)
  then show ?case by (auto elim!: rotation_check_cases intro: token_inv_present)
next
  case (refuse tok now st f db')
  from refuse.hyps show ?case
    by (rule rotation_check_cases) (auto simp: revokeFamily_def refuse.prems intro!: token_inv_update)
next
  case (claim st before i r after j tok now res db')
  from claim.hyps(3) token_invD(1) [OF claim.prems] show ?case
  proof (cases rule: rotation_claim_cases)
    case lost
    show ?thesis
      using lost claim.hyps(1) by (simp add: token_inv_drop [OF claim.prems])
  next
    case (won s)
    then show ?thesis using token_inv_won [OF claim.prems claim.hyps(1,2) won(2,3)] by simp
  qed
qed (auto simp: revoke_defs cleanupExpiredRefreshTokens_def intro!: token_inv_update token_inv_filter)

lemma token_inv_steps: "(token_step hash ttl)\<^sup>*\<^sup>* a b \<Longrightarrow> token_inv a \<Longrightarrow> token_inv b"
  by (induction rule: rtranclp_induct) (auto intro: token_inv_step)

lemma token_inv_empty: "token_inv no_tokens"
  by (simp add: token_inv_def no_tokens_def keyed_def)

text \<open>C6. A refresh token is redeemed at most once. However the reads and claims of any number
  of redemptions interleave with logins, logouts, family revocations and clean-ups, no row is
  claimed twice, and a claim of a row that was claimed before is refused as reuse and changes
  nothing.\<close>

theorem refresh_token_single_use:
  assumes "(token_step hash ttl)\<^sup>*\<^sup>* no_tokens st"
  shows "distinct (ts_won st) \<and>
    (\<forall>i \<in> set (ts_won st). \<forall>j tok now r.
       rotation_claim hash ttl j tok now i r (ts_rows st) = (Inl Reused_token, ts_rows st))"
proof -
  have inv: "token_inv st" using assms token_inv_empty by (rule token_inv_steps)
  have "rotation_claim hash ttl j tok now i r (ts_rows st) = (Inl Reused_token, ts_rows st)"
    if "i \<in> set (ts_won st)" for i j tok now r
  proof -
    obtain res db' where c: "rotation_claim hash ttl j tok now i r (ts_rows st) = (res, db')" by force
    from c token_invD(1) [OF inv] show ?thesis
    proof (cases rule: rotation_claim_cases)
      case (won s)
      with token_invD(5) [OF inv won(2) that] show ?thesis by (simp add: claim_guard_def)
    qed (simp add: c)
  qed
  then show ?thesis using token_invD(2) [OF inv] by blast
qed

section \<open>Family revocation\<close>

lemma cut_offD: "cut_off fam st \<Longrightarrow> (i, r) \<in> set (ts_rows st) \<Longrightarrow> rt_familyId r = fam \<Longrightarrow> rt_revokedAt r \<noteq> None"
  unfolding cut_off_def by blast

lemma cut_offI:
  "fam \<in> set (ts_drawn st) \<Longrightarrow>
   (\<And>i r. (i, r) \<in> set (ts_rows st) \<Longrightarrow> rt_familyId r = fam \<Longrightarrow> rt_revokedAt r \<noteq> None) \<Longrightarrow> cut_off fam st"
  unfolding cut_off_def by blast

lemma cut_off_update:
  assumes cut: "cut_off fam st" and "\<And>r. rt_familyId (f r) = rt_familyId r"
    "\<And>r. rt_revokedAt r \<noteq> None \<Longrightarrow> rt_revokedAt (f r) \<noteq> None"
  shows "cut_off fam (st\<lparr>ts_rows := snd (update_where P f (ts_rows st))\<rparr>)"
proof (rule cut_offI)
  fix i s assume "(i, s) \<in> set (ts_rows (st\<lparr>ts_rows := snd (update_where P f (ts_rows st))\<rparr>))" "rt_familyId s = fam"
  then obtain r where "(i, r) \<in> set (ts_rows st)" "s = (if P i r then f r else r)" "rt_familyId r = fam"
    using assms(2) by (auto simp: in_update_where split: if_splits)
  then show "rt_revokedAt s \<noteq> None" using cut_offD [OF cut] assms(3) by auto
qed (use cut in \<open>simp add: cut_off_def\<close>)

text \<open>A cut-off family has no open row, so no claim adds a successor to it.\<close>

lemma cut_off_step:
  "token_step hash ttl a b \<Longrightarrow> token_inv a \<Longrightarrow> cut_off fam a \<Longrightarrow> cut_off fam b"
proof (induction rule: token_step.induct)
  case (login i st f tok user now)
  then show ?case by (auto simp: issueRefreshToken_def Let_def cut_off_def fresh_row_def)
next
  case (present tok now st i r)
  then show ?case by (simp add: cut_off_def)
next
  case (refuse tok now st f db')
  from refuse.hyps show ?case
    by (rule rotation_check_cases) (auto simp: revokeFamily_def refuse.prems intro!: cut_off_update)
next
  case (claim st before i r after j tok now res db')
  from claim.hyps(3) token_invD(1) [OF claim.prems(1)] show ?case
  proof (cases rule: rotation_claim_cases)
    case lost
    then show ?thesis using claim.prems by (simp add: cut_off_def)
  next
    case (won s)
    have "rt_familyId s = rt_familyId r"
      using claim.hyps(1) by (intro token_invD(7) [OF claim.prems(1) _ won(2)]) simp
    then have "rt_familyId r \<noteq> fam" using cut_offD [OF claim.prems(2) won(2)] won(3) by (auto simp: claim_guard_def)
    moreover have "cut_off fam (st\<lparr>ts_rows := snd (update_where (\<lambda>k r. k = i \<and> claim_guard r) (claim_mark now) (ts_rows st))\<rparr>)"
      by (rule cut_off_update [OF claim.prems(2)]) (simp_all add: claim_mark_def)
    ultimately show ?thesis by (simp add: won(4) cut_off_def fresh_row_def)
  qed
next
  case (cleanup st now)
  then show ?case by (simp add: cut_off_def cleanupExpiredRefreshTokens_def)
qed (auto simp: revoke_defs intro!: cut_off_update)

lemma cut_off_steps:
  "(token_step hash ttl)\<^sup>*\<^sup>* a b \<Longrightarrow> token_inv a \<Longrightarrow> cut_off fam a \<Longrightarrow> cut_off fam b"
  by (induction rule: rtranclp_induct) (auto intro: cut_off_step token_inv_steps)

lemma revokeFamily_cuts_off:
  assumes "fam \<in> set (ts_drawn st)"
  shows "cut_off fam (st\<lparr>ts_rows := snd (revokeFamily fam now (ts_rows st))\<rparr>)"
proof (rule cut_offI)
  fix i s assume "(i, s) \<in> set (ts_rows (st\<lparr>ts_rows := snd (revokeFamily fam now (ts_rows st))\<rparr>))" "rt_familyId s = fam"
  then obtain r where "s = (if rt_familyId r = fam \<and> rt_revokedAt r = None then r\<lparr>rt_revokedAt := Some now\<rparr> else r)"
    by (auto simp: revokeFamily_def in_update_where)
  with \<open>rt_familyId s = fam\<close> show "rt_revokedAt s \<noteq> None" by (cases "rt_revokedAt r") (auto split: if_splits)
qed (use assms in simp)


section \<open>One redemption\<close>

lemma find_by_hash_snoc:
  "h \<notin> (rt_tokenHash \<circ> snd) ` set db \<Longrightarrow>
   find_by_hash h (snd (update_where P (claim_mark now) db) @ [(j, fresh_row h fam user e)])
     = Some (j, fresh_row h fam user e)"
  by (induction db) (auto simp: find_by_hash_def update_where_def fresh_row_def claim_mark_def split: if_splits)

lemma rotate_open:
  assumes "keyed db" "isWellFormedToken tok" "isWellFormedToken next"
    and "hash next \<notin> (rt_tokenHash \<circ> snd) ` set db" "0 < ttl"
    and f: "find_by_hash (hash tok) db = Some (i, r)" and open_row: "claim_guard r" and live: "now < rt_expiresAt r"
  shows "\<exists>res db' s. rotateRefreshToken hash ttl j next tok now db = (Inr res, db') \<and>
      rr_userId res = rt_userId r \<and> it_token (rr_refresh res) = next \<and> it_familyId (rr_refresh res) = rt_familyId r \<and>
      rotation_check hash next now db' = Claimable j s \<and> rt_familyId s = rt_familyId r \<and> rt_userId s = rt_userId r \<and>
      find_row i db' = Some (claim_mark now r)"
proof -
  let ?u = "update_where (\<lambda>k r. k = i \<and> claim_guard r) (claim_mark now) db"
  let ?s = "fresh_row (hash next) (rt_familyId r) (rt_userId r) (expiryFromNow ttl now)"
  have ir: "find_row i db = Some r"
    using f assms(1) find_by_hash_SomeD by (fastforce simp: find_row_def keyed_def)
  have "fst ?u = 1" using count_update_where [OF assms(1), of i claim_guard] ir open_row by simp
  then have "rotateRefreshToken hash ttl j next tok now db =
      (Inr \<lparr>rr_userId = rt_userId r, rr_refresh = \<lparr>it_token = next, it_expiresAt = expiryFromNow ttl now,
         it_familyId = rt_familyId r\<rparr>\<rparr>, snd ?u @ [(j, ?s)])"
    using f open_row live assms(2)
    by (simp add: rotateRefreshToken_def rotation_check_def classifyStored_def claim_guard_def
        rotation_claim_def case_prod_beta)
  moreover have "rotation_check hash next now (snd ?u @ [(j, ?s)]) = Claimable j ?s"
    unfolding rotation_check_def find_by_hash_snoc [OF assms(4)]
    using assms(3,5) by (simp add: classifyStored_def fresh_row_def expiryFromNow_def)
  moreover have "find_row i (snd ?u @ [(j, ?s)]) = Some (claim_mark now r)"
  proof -
    have "find_row i (snd ?u) = Some (claim_mark now r)" using ir open_row by (simp add: table_simps)
    then show ?thesis by (simp add: find_row_def map_add_def)
  qed
  ultimately show ?thesis by (simp add: fresh_row_def)
qed

text \<open>What one redemption does, on every branch: a malformed, unknown, revoked or expired token
  is refused and nothing changes; a redeemed one is refused as reuse and its family revoked;
  an open one is marked and replaced by a successor for the same user in the same family,
  which the next redemption finds open.\<close>

theorem rotateRefreshToken_outcomes:
  assumes "keyed db" "isWellFormedToken next" "hash next \<notin> (rt_tokenHash \<circ> snd) ` set db" "0 < ttl"
    and "rotateRefreshToken hash ttl j next tok now db = (res, db')"
  shows "if \<not> isWellFormedToken tok then res = Inl Malformed_token \<and> db' = db
    else case find_by_hash (hash tok) db of
      None \<Rightarrow> res = Inl Unknown_token \<and> db' = db
    | Some (i, r) \<Rightarrow>
        if rt_rotatedAt r \<noteq> None then res = Inl Reused_token \<and> db' = snd (revokeFamily (rt_familyId r) now db)
        else if rt_revokedAt r \<noteq> None then res = Inl Revoked_token \<and> db' = db
        else if rt_expiresAt r \<le> now then res = Inl Expired_token \<and> db' = db
        else \<exists>ok s. res = Inr ok \<and> rr_userId ok = rt_userId r \<and> it_token (rr_refresh ok) = next \<and>
          it_familyId (rr_refresh ok) = rt_familyId r \<and> find_row i db' = Some (claim_mark now r) \<and>
          rotation_check hash next now db' = Claimable j s \<and>
          rt_familyId s = rt_familyId r \<and> rt_userId s = rt_userId r"
proof (cases "isWellFormedToken tok")
  case False
  then show ?thesis using assms(5) by (simp add: rotateRefreshToken_def rotation_check_def)
next
  case wf: True
  show ?thesis
  proof (cases "find_by_hash (hash tok) db")
    case None
    then show ?thesis using wf assms(5) by (simp add: rotateRefreshToken_def rotation_check_def classifyStored_def)
  next
    case (Some p)
    obtain i r where p: "p = (i, r)" by force
    show ?thesis
    proof (cases "claim_guard r \<and> now < rt_expiresAt r")
      case True
      then show ?thesis
        using rotate_open [of db tok "next" hash ttl i r now j] assms Some p wf
        by (auto simp: claim_guard_def)
    next
      case False
      then show ?thesis using Some p wf assms(5)
        by (auto simp: rotateRefreshToken_def rotation_check_def classifyStored_def claim_guard_def)
    qed
  qed
qed

section \<open>Concrete sessions\<close>

text \<open>A session of one login whose token is redeemed once.\<close>

definition demo_token :: "char \<Rightarrow> string" where
  "demo_token c = replicate 43 c"

definition demo_rows :: "refresh_row table" where
  "demo_rows = snd (issueRefreshToken id 1000 ''r1'' (demo_token CHR ''a'') ''f1'' ''alice'' 0 [])"

definition demo_rotation :: "(refresh_failure + rotation_result) \<times> refresh_row table" where
  "demo_rotation = rotateRefreshToken id 1000 ''r2'' (demo_token CHR ''b'') (demo_token CHR ''a'') 10 demo_rows"

definition demo_spent :: token_state where
  "demo_spent = \<lparr>ts_rows = snd demo_rotation,
     ts_calls = [], ts_won = [''r1''], ts_drawn = [''r2'', ''r1'', ''f1'']\<rparr>"

lemma demo_check: "rotation_check id (demo_token CHR ''a'') 10 demo_rows = Claimable ''r1'' (snd (hd demo_rows))"
  by code_simp

lemma demo_won: "\<exists>ok. fst demo_rotation = Inr ok"
proof -
  have "\<not> (case fst demo_rotation of Inl _ \<Rightarrow> True | Inr _ \<Rightarrow> False)" by code_simp
  then show ?thesis by (auto split: sum.splits)
qed

lemma demo_spent_reachable: "(token_step id 1000)\<^sup>*\<^sup>* no_tokens demo_spent"
proof -
  define r where "r = snd (hd demo_rows)"
  define s1 where "s1 = \<lparr>ts_rows = demo_rows, ts_calls = [], ts_won = [], ts_drawn = [''r1'', ''f1'']\<rparr>"
  have claim: "rotation_claim id 1000 ''r2'' (demo_token CHR ''b'') 10 ''r1'' r demo_rows = demo_rotation"
    by (simp add: demo_rotation_def rotateRefreshToken_def demo_check r_def)
  have "token_step id 1000 no_tokens s1"
    using token_step.login [of "''r1''" no_tokens "''f1''" id 1000 "demo_token CHR ''a''" "''alice''" 0]
    by (simp add: no_tokens_def demo_rows_def s1_def)
  moreover have "token_step id 1000 s1 (s1\<lparr>ts_calls := [(''r1'', r)]\<rparr>)"
    using token_step.present [of id "demo_token CHR ''a''" 10 s1 "''r1''" r 1000] demo_check
    by (simp add: s1_def r_def)
  moreover have "token_step id 1000 (s1\<lparr>ts_calls := [(''r1'', r)]\<rparr>) demo_spent"
    using token_step.claim [of "s1\<lparr>ts_calls := [(''r1'', r)]\<rparr>" "[]" "''r1''" r "[]" "''r2''" id 1000
        "demo_token CHR ''b''" 10 "fst demo_rotation" "snd demo_rotation"] demo_won claim
    by (auto simp: s1_def demo_spent_def demo_rotation_def)
  ultimately show ?thesis by (meson rtranclp.rtrancl_into_rtrancl rtranclp.rtrancl_refl)
qed

lemma refresh_token_single_use_witness:
  "ts_won demo_spent = [''r1''] \<and>
   (\<forall>r. rotation_claim id 1000 ''r3'' (demo_token CHR ''c'') 20 ''r1'' r (ts_rows demo_spent)
      = (Inl Reused_token, ts_rows demo_spent))"
  using refresh_token_single_use [OF demo_spent_reachable] by (simp add: demo_spent_def)

lemma demo_spent_row:
  "find_by_hash (demo_token CHR ''a'') (ts_rows demo_spent) = Some (''r1'', claim_mark 10 (snd (hd demo_rows)))"
  by code_simp


lemma rotateRefreshToken_outcomes_witness:
  "\<exists>ok s. fst demo_rotation = Inr ok \<and> rr_userId ok = ''alice'' \<and> it_token (rr_refresh ok) = demo_token CHR ''b'' \<and>
     rotation_check id (demo_token CHR ''b'') 10 (snd demo_rotation) = Claimable ''r2'' s \<and> rt_familyId s = ''f1''"
proof -
  define r where "r = snd (hd demo_rows)"
  have keys: "keyed demo_rows" by (simp add: keyed_def demo_rows_def issueRefreshToken_def Let_def)
  have wf: "isWellFormedToken (demo_token CHR ''b'')" "isWellFormedToken (demo_token CHR ''a'')" by code_simp+
  have fresh: "id (demo_token CHR ''b'') \<notin> (rt_tokenHash \<circ> snd) ` set demo_rows" by code_simp
  have run: "rotateRefreshToken id 1000 ''r2'' (demo_token CHR ''b'') (demo_token CHR ''a'') 10 demo_rows
      = (fst demo_rotation, snd demo_rotation)"
    by (simp add: demo_rotation_def)
  have found: "find_by_hash (id (demo_token CHR ''a'')) demo_rows = Some (''r1'', r)" unfolding r_def by code_simp
  have open_row: "rt_rotatedAt r = None" "rt_revokedAt r = None" "rt_userId r = ''alice''" "rt_familyId r = ''f1''"
    "rt_expiresAt r = 1000"
    unfolding r_def by code_simp+
  from rotateRefreshToken_outcomes [of demo_rows "demo_token CHR ''b''" id 1000 "''r2''" "demo_token CHR ''a''" 10
      "fst demo_rotation" "snd demo_rotation", OF keys wf(1) fresh _ run]
  show ?thesis using found open_row wf(2) by (simp only: if_True if_False option.case prod.case not_True_eq_False) auto
qed

end
