(* ===== verification/Idempotency.thy ===== *)
theory Idempotency
  imports Audit_Log Decimal_Digits "HOL-Library.List_Lexorder" "HOL-Library.Char_ord" "HOL-Library.Multiset"
begin

text \<open>
  \<^verbatim>\<open>src/src/services/idempotency.ts\<close>: the key header, the request fingerprint, the life cycle of
  a reservation row, and \<open>runIdempotent\<close> both as one call and as the phases that concurrent
  calls interleave (\<open>idem_step\<close>, for one key among all).

  Parameters: \<open>digest\<close> is SHA-256 of the JSON text of a value, \<open>enc\<close> and \<open>dec\<close> are
  \<^verbatim>\<open>JSON.stringify\<close> and \<^verbatim>\<open>JSON.parse\<close> at the operation's result type. The operation is a function on the
  rest of the database that either throws, and is then rolled back, or commits. Times are
  milliseconds.

  The lemmas show that a fingerprint identifies the payload up to the order of its keys, that
  a second call replays the first one's result, and that of any interleaving of calls one
  commits, unless a hazard occurred; two of the hazards contradict the module's comments.
\<close>

section \<open>The header\<close>

definition IDEMPOTENCY_KEY_MIN_LENGTH :: nat where "IDEMPOTENCY_KEY_MIN_LENGTH = 1"
definition IDEMPOTENCY_KEY_MAX_LENGTH :: nat where "IDEMPOTENCY_KEY_MAX_LENGTH = 255"
definition IDEMPOTENCY_RETENTION_MS :: int where "IDEMPOTENCY_RETENTION_MS = 24 * 60 * 60 * 1000"
definition IN_PROGRESS_TIMEOUT_MS :: int where "IN_PROGRESS_TIMEOUT_MS = 60000"

text \<open>\<^verbatim>\<open>/^[A-Za-z0-9_.:-]+$/\<close>\<close>

definition key_char :: "char \<Rightarrow> bool" where
  "key_char c = (is_lower_ascii c \<or> is_upper_ascii c \<or> is_digit c \<or> c \<in> set ''_.:-'')"

definition idempotencyKeySchema :: "string \<Rightarrow> bool" where
  "idempotencyKeySchema s =
     (IDEMPOTENCY_KEY_MIN_LENGTH \<le> length s \<and> length s \<le> IDEMPOTENCY_KEY_MAX_LENGTH \<and> s \<noteq> [] \<and> (\<forall>c \<in> set s. key_char c))"

text \<open>A raw header: absent, one value, or an array of values.\<close>

datatype header = No_header | One_value string | Values "string list"

definition readIdempotencyKey :: "header \<Rightarrow> string option res" where
  "readIdempotencyKey raw =
     (let invalid = Inl (AppError 400 ''INVALID_IDEMPOTENCY_KEY'');
          parse = (\<lambda>s. if idempotencyKeySchema s then Inr (Some s) else invalid)
      in case raw of
           No_header \<Rightarrow> Inr None
         | One_value s \<Rightarrow> parse s
         | Values [] \<Rightarrow> invalid
         | Values (s # _) \<Rightarrow> parse s)"

definition requireIdempotencyKey :: "header \<Rightarrow> string res" where
  "requireIdempotencyKey raw =
     res_bind (readIdempotencyKey raw) (\<lambda>key.
       case key of
         Some k \<Rightarrow> if k = [] then Inl (AppError 400 ''MISSING_IDEMPOTENCY_KEY'') else Inr k
       | None \<Rightarrow> Inl (AppError 400 ''MISSING_IDEMPOTENCY_KEY''))"

section \<open>The fingerprint\<close>

text \<open>The order in which JavaScript enumerates the keys of an object: array indices by value,
  then the others in the order they were added.\<close>

definition array_index :: "string \<Rightarrow> bool" where
  "array_index k = (canonical_nat k \<and> dec_val k < 2 ^ 32 - 1)"

definition enumerate_fields :: "(string \<times> 'v) list \<Rightarrow> (string \<times> 'v) list" where
  "enumerate_fields fs =
     sort_key (dec_val \<circ> fst) (filter (\<lambda>(k, _). array_index k) fs) @ filter (\<lambda>(k, _). \<not> array_index k) fs"

text \<open>Assigning to \<^verbatim>\<open>__proto__\<close> adds no key of the result; a date has no keys of its own.\<close>

fun canonicalize :: "json \<Rightarrow> json" where
  "canonicalize (JArr vs) = JArr (map canonicalize vs)"
| "canonicalize (JObj fs) =
     JObj (enumerate_fields (sort_key fst (map (\<lambda>(k, v). (k, canonicalize v)) (filter (\<lambda>(k, _). k \<noteq> ''__proto__'') fs))))"
| "canonicalize (JOpaque s) = JObj []"
| "canonicalize v = v"

definition request_value :: "string \<Rightarrow> string \<Rightarrow> json \<Rightarrow> json" where
  "request_value scope resourceId payload =
     JObj [(''scope'', JStr scope), (''resourceId'', JStr resourceId), (''payload'', payload)]"

definition hashRequest :: "(json \<Rightarrow> string) \<Rightarrow> string \<Rightarrow> string \<Rightarrow> json \<Rightarrow> string" where
  "hashRequest digest scope resourceId payload = digest (canonicalize (request_value scope resourceId payload))"

section \<open>Reservation rows\<close>

record key_row =
  kr_requestHash :: string
  kr_status :: "string option"
  kr_statusCode :: "int option"
  kr_responseJson :: "string option"
  kr_expiresAt :: int
  kr_createdAt :: "int option"
  kr_updatedAt :: "int option"

type_synonym key_id = "string \<times> string \<times> string"
type_synonym key_table = "(key_id \<times> key_row) list"

datatype key_state = In_progress | Completed | Failed_key

definition stateOf :: "key_row \<Rightarrow> key_state" where
  "stateOf row =
     (if kr_status row = Some ''in_progress'' then In_progress
      else if kr_status row = Some ''completed'' then Completed
      else if kr_status row = Some ''failed'' then Failed_key
      else if kr_responseJson row \<noteq> None then Completed else Failed_key)"

definition isAbandoned :: "key_row \<Rightarrow> int \<Rightarrow> bool" where
  "isAbandoned row now =
     (case (case kr_updatedAt row of Some t \<Rightarrow> Some t | None \<Rightarrow> kr_createdAt row) of
        None \<Rightarrow> False
      | Some started \<Rightarrow> now - started > IN_PROGRESS_TIMEOUT_MS)"

definition parseStoredResponse :: "(string \<Rightarrow> 'r) \<Rightarrow> string option \<Rightarrow> 'r" where
  "parseStoredResponse dec responseJson = dec (case responseJson of Some s \<Rightarrow> s | None \<Rightarrow> ''null'')"

definition conflict :: exn where "conflict = AppError 409 ''IDEMPOTENCY_CONFLICT''"
definition inProgress :: exn where "inProgress = AppError 409 ''IDEMPOTENCY_IN_PROGRESS''"

section \<open>The phases of a call\<close>

text \<open>The first read decides: replay, refuse, take the row over, or reserve a new one.\<close>

datatype 'r first_read = Replay 'r | Reject exn | Take_over | Reserve

definition read_phase :: "(string \<Rightarrow> 'r) \<Rightarrow> int \<Rightarrow> string \<Rightarrow> key_row option \<Rightarrow> 'r first_read" where
  "read_phase dec now requestHash existing =
     (case existing of
        None \<Rightarrow> Reserve
      | Some row \<Rightarrow>
          if kr_requestHash row \<noteq> requestHash then Reject conflict
          else if stateOf row = Completed then Replay (parseStoredResponse dec (kr_responseJson row))
          else if stateOf row = In_progress \<and> \<not> isAbandoned row now then Reject inProgress
          else Take_over)"

definition reclaim_guard :: "string \<Rightarrow> int \<Rightarrow> key_row \<Rightarrow> bool" where
  "reclaim_guard requestHash now row =
     (kr_requestHash row = requestHash \<and>
      (kr_status row = Some ''failed'' \<or>
       kr_status row = Some ''in_progress'' \<and>
       (case kr_updatedAt row of Some t \<Rightarrow> t < now - IN_PROGRESS_TIMEOUT_MS | None \<Rightarrow> False)))"

definition reclaim_mark :: "int \<Rightarrow> key_row \<Rightarrow> key_row" where
  "reclaim_mark now row =
     row\<lparr>kr_status := Some ''in_progress'', kr_responseJson := None,
         kr_expiresAt := now + IDEMPOTENCY_RETENTION_MS, kr_updatedAt := Some now\<rparr>"

definition reclaim :: "key_id \<Rightarrow> string \<Rightarrow> int \<Rightarrow> key_table \<Rightarrow> bool \<times> key_table" where
  "reclaim kid requestHash now t =
     (let (count, t') = update_where (\<lambda>i row. i = kid \<and> reclaim_guard requestHash now row) (reclaim_mark now) t
      in (count = 1, t'))"

definition reservation :: "string \<Rightarrow> int \<Rightarrow> key_row" where
  "reservation requestHash now =
     \<lparr>kr_requestHash = requestHash, kr_status = Some ''in_progress'', kr_statusCode = None, kr_responseJson = None,
      kr_expiresAt = now + IDEMPOTENCY_RETENTION_MS, kr_createdAt = Some now, kr_updatedAt = Some now\<rparr>"

text \<open>\<^verbatim>\<open>create\<close>: \<open>None\<close> is the unique-constraint violation.\<close>

definition reserve :: "key_id \<Rightarrow> string \<Rightarrow> int \<Rightarrow> key_table \<Rightarrow> key_table option" where
  "reserve kid requestHash now t =
     (case find_row kid t of None \<Rightarrow> Some (t @ [(kid, reservation requestHash now)]) | Some _ \<Rightarrow> None)"

text \<open>What the loser of a claim answers after reading the winner's row; \<open>missing\<close> is the error
  when there is none.\<close>

definition loser_reply :: "(string \<Rightarrow> 'r) \<Rightarrow> exn \<Rightarrow> string \<Rightarrow> key_row option \<Rightarrow> 'r res" where
  "loser_reply dec missing requestHash winner =
     (case winner of
        None \<Rightarrow> Inl missing
      | Some row \<Rightarrow>
          if kr_requestHash row \<noteq> requestHash then Inl conflict
          else if stateOf row = Completed then Inr (parseStoredResponse dec (kr_responseJson row))
          else Inl inProgress)"

definition complete_mark :: "string \<Rightarrow> int \<Rightarrow> key_row \<Rightarrow> key_row" where
  "complete_mark responseJson now row =
     row\<lparr>kr_status := Some ''completed'', kr_statusCode := Some 200, kr_responseJson := Some responseJson,
         kr_updatedAt := Some now\<rparr>"

definition failed_mark :: "int \<Rightarrow> key_row \<Rightarrow> key_row" where
  "failed_mark now row =
     row\<lparr>kr_status := Some ''failed'', kr_statusCode := None, kr_responseJson := None, kr_updatedAt := Some now\<rparr>"

text \<open>\<^verbatim>\<open>update({ where })\<close>: throws when there is no such row.\<close>

definition update_key :: "key_id \<Rightarrow> (key_row \<Rightarrow> key_row) \<Rightarrow> key_table \<Rightarrow> key_table option" where
  "update_key kid f t = (case find_row kid t of Some _ \<Rightarrow> Some (update_row kid f t) | None \<Rightarrow> None)"

definition cleanupExpiredIdempotencyKeys :: "int \<Rightarrow> key_table \<Rightarrow> nat \<times> key_table" where
  "cleanupExpiredIdempotencyKeys now t =
     (length (filter (\<lambda>(_, row). kr_expiresAt row < now) t), filter (\<lambda>(_, row). \<not> kr_expiresAt row < now) t)"

section \<open>One call\<close>

text \<open>The result of a call, the key table and the rest of the database after it.\<close>

type_synonym ('r, 'w) run = "'r res \<times> key_table \<times> 'w"

text \<open>\<open>complete_ok\<close> and \<open>fail_ok\<close> say whether the writes that record the outcome reach the database.\<close>

definition finalize ::
  "('r \<Rightarrow> string) \<Rightarrow> key_id \<Rightarrow> ('w \<Rightarrow> ('r \<times> 'w) res) \<Rightarrow> int \<Rightarrow> bool \<Rightarrow> bool \<Rightarrow> key_table \<Rightarrow> 'w \<Rightarrow> ('r, 'w) run" where
  "finalize enc kid operation now complete_ok fail_ok t w =
     (let mark_failed = (if fail_ok then case update_key kid (failed_mark now) t of Some t' \<Rightarrow> t' | None \<Rightarrow> t else t)
      in case operation w of
           Inl e \<Rightarrow> (Inl e, mark_failed, w)
         | Inr (r, w') \<Rightarrow>
             (case (if complete_ok then update_key kid (complete_mark (enc r) now) t else None) of
                Some t' \<Rightarrow> (Inr r, t', w')
              | None \<Rightarrow> (Inl (PlainError ''key update failed''), mark_failed, w')))"

definition unique_violation :: exn where "unique_violation = PlainError ''P2002''"

text \<open>The path for clients without \<^verbatim>\<open>update\<close>: the row is created in the operation's transaction.\<close>

definition runCreateAtCommit ::
  "('r \<Rightarrow> string) \<Rightarrow> (string \<Rightarrow> 'r) \<Rightarrow> key_id \<Rightarrow> string \<Rightarrow> ('w \<Rightarrow> ('r \<times> 'w) res) \<Rightarrow> int \<Rightarrow> key_table \<Rightarrow> 'w \<Rightarrow> ('r, 'w) run" where
  "runCreateAtCommit enc dec kid requestHash operation now t w =
     (let attempt =
        res_bind (operation w) (\<lambda>(r, w').
          case reserve kid requestHash now t of
            None \<Rightarrow> Inl unique_violation
          | Some t' \<Rightarrow> Inr (r, update_row kid (complete_mark (enc r) now) t', w'))
      in case attempt of
           Inr (r, t', w') \<Rightarrow> (Inr r, t', w')
         | Inl e \<Rightarrow> if e \<noteq> unique_violation then (Inl e, t, w)
             else (loser_reply dec e requestHash (find_row kid t), t, w))"

record ('r, 'w) idem_params =
  ip_userId :: string
  ip_scope :: string
  ip_key :: "string option"
  ip_resourceId :: string
  ip_payload :: json
  ip_operation :: "'w \<Rightarrow> ('r \<times> 'w) res"

text \<open>A call that no other call interrupts. A key that is \<open>None\<close> or empty is no key.\<close>

definition runIdempotent ::
  "(json \<Rightarrow> string) \<Rightarrow> ('r \<Rightarrow> string) \<Rightarrow> (string \<Rightarrow> 'r) \<Rightarrow> bool \<Rightarrow> ('r, 'w) idem_params \<Rightarrow> int \<Rightarrow> bool \<Rightarrow> bool
    \<Rightarrow> key_table \<Rightarrow> 'w \<Rightarrow> ('r, 'w) run" where
  "runIdempotent digest enc dec supportsLifecycle p now complete_ok fail_ok t w =
     (case ip_key p of
        None \<Rightarrow> (case ip_operation p w of Inl e \<Rightarrow> (Inl e, t, w) | Inr (r, w') \<Rightarrow> (Inr r, t, w'))
      | Some key \<Rightarrow>
          if key = [] then (case ip_operation p w of Inl e \<Rightarrow> (Inl e, t, w) | Inr (r, w') \<Rightarrow> (Inr r, t, w'))
          else
            let kid = (ip_userId p, ip_scope p, key);
                requestHash = hashRequest digest (ip_scope p) (ip_resourceId p) (ip_payload p);
                legacy = runCreateAtCommit enc dec kid requestHash (ip_operation p) now t w
            in case read_phase dec now requestHash (find_row kid t) of
                 Replay r \<Rightarrow> (Inr r, t, w)
               | Reject e \<Rightarrow> (Inl e, t, w)
               | Take_over \<Rightarrow>
                   if \<not> supportsLifecycle then legacy
                   else (case reclaim kid requestHash now t of
                           (True, t') \<Rightarrow> finalize enc kid (ip_operation p) now complete_ok fail_ok t' w
                         | (False, _) \<Rightarrow> (loser_reply dec inProgress requestHash (find_row kid t), t, w))
               | Reserve \<Rightarrow>
                   if \<not> supportsLifecycle then legacy
                   else (case reserve kid requestHash now t of
                           Some t' \<Rightarrow> finalize enc kid (ip_operation p) now complete_ok fail_ok t' w
                         | None \<Rightarrow> (loser_reply dec unique_violation requestHash (find_row kid t), t, w)))"

section \<open>Interleaved calls with one key\<close>

text \<open>A call in flight: its request hash and where it is.\<close>

datatype 'r phase = Reserving | Reclaiming | Rereading exn | Executing | Recording 'r | Failing

text \<open>The table, the calls in flight, the operations committed, the results returned to clients,
  and whether a hazard has occurred.\<close>

record 'r idem_state =
  is_keys :: key_table
  is_calls :: "(string \<times> 'r phase) list"
  is_commits :: "(string \<times> 'r) list"
  is_replies :: "(string \<times> 'r) list"
  is_hazard :: bool

fun owning :: "string \<times> 'r phase \<Rightarrow> bool" where
  "owning (_, Executing) = True"
| "owning (_, Recording _) = True"
| "owning (_, Failing) = True"
| "owning _ = False"

definition owners :: "(string \<times> 'r phase) list \<Rightarrow> (string \<times> 'r phase) list" where
  "owners calls = filter owning calls"

inductive idem_step :: "('r \<Rightarrow> string) \<Rightarrow> (string \<Rightarrow> 'r) \<Rightarrow> key_id \<Rightarrow> 'r idem_state \<Rightarrow> 'r idem_state \<Rightarrow> bool"
  for enc dec kid where
  replay: "read_phase dec now h (find_row kid (is_keys st)) = Replay r \<Longrightarrow>
    idem_step enc dec kid st (st\<lparr>is_replies := is_replies st @ [(h, r)]\<rparr>)"
| read_vacant: "read_phase dec now h (find_row kid (is_keys st)) = Reserve \<Longrightarrow>
    idem_step enc dec kid st (st\<lparr>is_calls := is_calls st @ [(h, Reserving)]\<rparr>)"
| read_stale: "read_phase dec now h (find_row kid (is_keys st)) = Take_over \<Longrightarrow>
    idem_step enc dec kid st (st\<lparr>is_calls := is_calls st @ [(h, Reclaiming)]\<rparr>)"
| reserve_won: "is_calls st = before @ (h, Reserving) # after \<Longrightarrow> reserve kid h now (is_keys st) = Some t \<Longrightarrow>
    idem_step enc dec kid st (st\<lparr>is_keys := t, is_calls := before @ (h, Executing) # after\<rparr>)"
| reserve_lost: "is_calls st = before @ (h, Reserving) # after \<Longrightarrow> reserve kid h now (is_keys st) = None \<Longrightarrow>
    idem_step enc dec kid st (st\<lparr>is_calls := before @ (h, Rereading unique_violation) # after\<rparr>)"
| reclaim_won: "is_calls st = before @ (h, Reclaiming) # after \<Longrightarrow> reclaim kid h now (is_keys st) = (True, t) \<Longrightarrow>
    idem_step enc dec kid st
      (st\<lparr>is_keys := t, is_calls := before @ (h, Executing) # after,
          is_hazard := is_hazard st \<or> owners (is_calls st) \<noteq> []\<rparr>)"
| reclaim_lost: "is_calls st = before @ (h, Reclaiming) # after \<Longrightarrow> reclaim kid h now (is_keys st) = (False, t) \<Longrightarrow>
    idem_step enc dec kid st (st\<lparr>is_calls := before @ (h, Rereading inProgress) # after\<rparr>)"
| reread: "is_calls st = before @ (h, Rereading e) # after \<Longrightarrow>
    loser_reply dec e h (find_row kid (is_keys st)) = res \<Longrightarrow>
    idem_step enc dec kid st
      (st\<lparr>is_calls := before @ after,
          is_replies := is_replies st @ (case res of Inr r \<Rightarrow> [(h, r)] | Inl _ \<Rightarrow> [])\<rparr>)"
| commit: "is_calls st = before @ (h, Executing) # after \<Longrightarrow>
    idem_step enc dec kid st
      (st\<lparr>is_calls := before @ (h, Recording r) # after, is_commits := is_commits st @ [(h, r)]\<rparr>)"
| op_throws: "is_calls st = before @ (h, Executing) # after \<Longrightarrow>
    idem_step enc dec kid st (st\<lparr>is_calls := before @ (h, Failing) # after\<rparr>)"
| recorded: "is_calls st = before @ (h, Recording r) # after \<Longrightarrow>
    update_key kid (complete_mark (enc r) now) (is_keys st) = Some t \<Longrightarrow>
    idem_step enc dec kid st
      (st\<lparr>is_keys := t, is_calls := before @ after, is_replies := is_replies st @ [(h, r)]\<rparr>)"
| not_recorded: "is_calls st = before @ (h, Recording r) # after \<Longrightarrow>
    idem_step enc dec kid st (st\<lparr>is_calls := before @ (h, Failing) # after, is_hazard := True\<rparr>)"
| marked_failed: "is_calls st = before @ (h, Failing) # after \<Longrightarrow>
    update_key kid (failed_mark now) (is_keys st) = Some t \<Longrightarrow>
    idem_step enc dec kid st (st\<lparr>is_keys := t, is_calls := before @ after\<rparr>)"
| crash: "is_calls st = before @ c # after \<Longrightarrow>
    idem_step enc dec kid st
      (st\<lparr>is_calls := before @ after, is_hazard := is_hazard st \<or> (\<exists>h r. c = (h, Recording r))\<rparr>)"
| sweep: "cleanupExpiredIdempotencyKeys now (is_keys st) = (n, t) \<Longrightarrow>
    idem_step enc dec kid st
      (st\<lparr>is_keys := t, is_hazard := is_hazard st \<or> find_row kid t \<noteq> find_row kid (is_keys st)\<rparr>)"
| other_key: "keyed t \<Longrightarrow> find_row kid t = find_row kid (is_keys st) \<Longrightarrow>
    idem_step enc dec kid st (st\<lparr>is_keys := t\<rparr>)"

definition no_calls :: "'r idem_state" where
  "no_calls = \<lparr>is_keys = [], is_calls = [], is_commits = [], is_replies = [], is_hazard = False\<rparr>"

text \<open>Without a hazard, what the row says, who owns it and what was committed agree.\<close>

definition row_is :: "string \<Rightarrow> key_state \<Rightarrow> key_row option \<Rightarrow> bool" where
  "row_is h s row \<longleftrightarrow> (\<exists>x. row = Some x \<and> kr_requestHash x = h \<and> stateOf x = s)"

definition key_agrees :: "(string \<Rightarrow> 'r) \<Rightarrow> key_row option \<Rightarrow> (string \<times> 'r phase) list \<Rightarrow> (string \<times> 'r) list \<Rightarrow> bool" where
  "key_agrees dec row own commits \<longleftrightarrow>
     (case own of
        [] \<Rightarrow> (case row of
                 None \<Rightarrow> commits = []
               | Some x \<Rightarrow> if stateOf x = Completed
                   then commits = [(kr_requestHash x, parseStoredResponse dec (kr_responseJson x))] else commits = [])
      | (h, ph) # more_owners \<Rightarrow>
          more_owners = [] \<and> row_is h In_progress row \<and> commits = (case ph of Recording r \<Rightarrow> [(h, r)] | _ \<Rightarrow> []))"

definition idem_inv :: "(string \<Rightarrow> 'r) \<Rightarrow> key_id \<Rightarrow> 'r idem_state \<Rightarrow> bool" where
  "idem_inv dec kid st \<longleftrightarrow>
     keyed (is_keys st) \<and>
     (\<not> is_hazard st \<longrightarrow>
        key_agrees dec (find_row kid (is_keys st)) (owners (is_calls st)) (is_commits st) \<and>
        set (is_replies st) \<subseteq> set (is_commits st))"

section \<open>At most one commit\<close>

interpretation reclaims: row_claim "reclaim_guard h now" "\<lambda>_. reclaim_mark now" for h now
  by unfold_locales (auto simp: reclaim_guard_def reclaim_mark_def IN_PROGRESS_TIMEOUT_MS_def)

lemma stateOf_marks [simp]:
  "stateOf (reservation h now) = In_progress" "stateOf (reclaim_mark now x) = In_progress"
  "stateOf (complete_mark s now x) = Completed" "stateOf (failed_mark now x) = Failed_key"
  by (simp_all add: stateOf_def reservation_def reclaim_mark_def complete_mark_def failed_mark_def)

lemma requestHash_marks [simp]:
  "kr_requestHash (reservation h now) = h" "kr_requestHash (reclaim_mark now x) = kr_requestHash x"
  "kr_requestHash (complete_mark s now x) = kr_requestHash x" "kr_requestHash (failed_mark now x) = kr_requestHash x"
  by (simp_all add: reservation_def reclaim_mark_def complete_mark_def failed_mark_def)

lemma response_complete [simp]: "kr_responseJson (complete_mark s now x) = Some s"
  by (simp add: complete_mark_def)

lemma owners_app [simp]: "owners (xs @ ys) = owners xs @ owners ys"
  by (simp add: owners_def)

lemma owners_simps [simp]:
  "owners [] = []" "owners ((h, Executing) # cs) = (h, Executing) # owners cs"
  "owners ((h, Recording r) # cs) = (h, Recording r) # owners cs" "owners ((h, Failing) # cs) = (h, Failing) # owners cs"
  "owners ((h, Reserving) # cs) = owners cs" "owners ((h, Reclaiming) # cs) = owners cs"
  "owners ((h, Rereading e) # cs) = owners cs"
  by (simp_all add: owners_def)

text \<open>An owner is the only one.\<close>

lemma key_agrees_owner:
  assumes "key_agrees dec row (xs @ (h, ph) # ys) commits" "owning (h, ph)"
  shows "xs = [] \<and> ys = [] \<and> row_is h In_progress row \<and> commits = (case ph of Recording r \<Rightarrow> [(h, r)] | _ \<Rightarrow> [])"
  using assms by (cases xs) (auto simp: key_agrees_def)

lemma key_agrees_simps [simp]:
  "key_agrees dec row [(h, Executing)] cs \<longleftrightarrow> row_is h In_progress row \<and> cs = []"
  "key_agrees dec row [(h, Recording r)] cs \<longleftrightarrow> row_is h In_progress row \<and> cs = [(h, r)]"
  "key_agrees dec row [(h, Failing)] cs \<longleftrightarrow> row_is h In_progress row \<and> cs = []"
  "key_agrees dec None [] cs \<longleftrightarrow> cs = []"
  "key_agrees dec (Some x) [] cs \<longleftrightarrow>
     (if stateOf x = Completed then cs = [(kr_requestHash x, parseStoredResponse dec (kr_responseJson x))] else cs = [])"
  by (simp_all add: key_agrees_def)

lemma key_agrees_vacant: "key_agrees dec None own cs \<Longrightarrow> own = [] \<and> cs = []"
  by (cases own) (auto simp: key_agrees_def row_is_def split: if_splits)

text \<open>A completed row is the result of the only commit.\<close>

lemma key_agrees_completed:
  "key_agrees dec (Some x) own cs \<Longrightarrow> stateOf x = Completed \<Longrightarrow>
   cs = [(kr_requestHash x, parseStoredResponse dec (kr_responseJson x))]"
  by (cases own) (auto simp: key_agrees_def row_is_def split: if_splits)

lemma key_agrees_length:
  assumes "key_agrees dec row own cs"
  shows "length cs \<le> 1"
proof (cases own)
  case Nil
  then show ?thesis using assms by (cases row) (auto split: if_splits)
next
  case (Cons p rest)
  obtain h ph where "p = (h, ph)" by force
  with Cons assms show ?thesis by (cases ph) (simp_all add: key_agrees_def)
qed

lemma reserve_cases:
  "reserve kid h now t = Some t' \<Longrightarrow> keyed t \<Longrightarrow>
   find_row kid t = None \<and> keyed t' \<and> find_row kid t' = Some (reservation h now)"
  by (auto simp: reserve_def keyed_def find_row_def map_add_def simp flip: map_of_eq_None_iff split: option.splits)

lemma reclaim_cases:
  assumes "reclaim kid h now t = (True, t')" "keyed t"
  shows "\<exists>x. find_row kid t = Some x \<and> reclaim_guard h now x \<and> keyed t' \<and> find_row kid t' = Some (reclaim_mark now x)"
proof -
  let ?u = "update_where (\<lambda>i row. i = kid \<and> reclaim_guard h now row) (reclaim_mark now) t"
  have one: "fst ?u = 1" and t': "t' = snd ?u" using assms(1) by (auto simp: reclaim_def case_prod_beta)
  show ?thesis
  proof (cases "find_row kid t")
    case None
    then show ?thesis using one by (simp add: count_update_where [OF assms(2)])
  next
    case (Some x)
    then have "reclaim_guard h now x" using one by (simp add: count_update_where [OF assms(2)] split: if_splits)
    then show ?thesis using Some assms(2) by (simp add: t' find_update_where)
  qed
qed

lemma update_key_cases:
  "update_key kid f t = Some t' \<Longrightarrow>
   \<exists>x. find_row kid t = Some x \<and> find_row kid t' = Some (f x) \<and> (keyed t \<longrightarrow> keyed t')"
  by (auto simp: update_key_def table_simps split: option.splits)

lemma guard_not_completed: "reclaim_guard h now x \<Longrightarrow> stateOf x \<noteq> Completed \<and> kr_requestHash x = h"
  by (auto simp: reclaim_guard_def stateOf_def)

lemma idem_invI:
  "keyed (is_keys st) \<Longrightarrow> (\<not> is_hazard st \<Longrightarrow>
     key_agrees dec (find_row kid (is_keys st)) (owners (is_calls st)) (is_commits st) \<and>
     set (is_replies st) \<subseteq> set (is_commits st)) \<Longrightarrow> idem_inv dec kid st"
  by (simp add: idem_inv_def)

lemma idem_invD:
  assumes "idem_inv dec kid st"
  shows "keyed (is_keys st)"
    "\<not> is_hazard st \<Longrightarrow> key_agrees dec (find_row kid (is_keys st)) (owners (is_calls st)) (is_commits st)"
    "\<not> is_hazard st \<Longrightarrow> set (is_replies st) \<subseteq> set (is_commits st)"
  using assms by (simp_all add: idem_inv_def)

lemma read_replay_completed:
  "read_phase dec now h row = Replay r \<Longrightarrow>
   \<exists>x. row = Some x \<and> stateOf x = Completed \<and> kr_requestHash x = h \<and> r = parseStoredResponse dec (kr_responseJson x)"
  by (auto simp: read_phase_def split: option.splits if_splits)

lemma loser_reply_completed:
  "loser_reply dec e h row = Inr r \<Longrightarrow>
   \<exists>x. row = Some x \<and> stateOf x = Completed \<and> kr_requestHash x = h \<and> r = parseStoredResponse dec (kr_responseJson x)"
  by (auto simp: loser_reply_def split: option.splits if_splits)

lemma idem_inv_step:
  assumes codec: "\<forall>r. dec (enc r) = r"
  shows "idem_step enc dec kid a b \<Longrightarrow> idem_inv dec kid a \<Longrightarrow> idem_inv dec kid b"
proof (induction rule: idem_step.induct)
  case (replay now h st r)
  note D = idem_invD [OF replay.prems]
  have "(h, r) \<in> set (is_commits st)" if "\<not> is_hazard st"
    using D(2) [OF that] read_replay_completed [OF replay.hyps] key_agrees_completed by fastforce
  then show ?case using D by (simp add: idem_inv_def)
next
  case (reread st before h e after res)
  note D = idem_invD [OF reread.prems]
  have "set (case res of Inr r \<Rightarrow> [(h, r)] | Inl _ \<Rightarrow> []) \<subseteq> set (is_commits st)" if "\<not> is_hazard st"
  proof (cases res)
    case (Inr r)
    then obtain x where "find_row kid (is_keys st) = Some x" "stateOf x = Completed" "kr_requestHash x = h"
        "r = parseStoredResponse dec (kr_responseJson x)"
      using loser_reply_completed reread.hyps(2) by metis
    then show ?thesis using key_agrees_completed D(2) [OF that] Inr by fastforce
  qed simp
  then show ?case using D reread.hyps(1) by (auto simp: idem_inv_def)
next
  case (reserve_won st before h after now t)
  note D = idem_invD [OF reserve_won.prems]
  from reserve_cases [OF reserve_won.hyps(2) D(1)] D reserve_won.hyps(1) show ?case
    by (auto simp: idem_inv_def row_is_def dest!: key_agrees_vacant)
next
  case (reclaim_won st before h after now t)
  note D = idem_invD [OF reclaim_won.prems]
  obtain x where x: "find_row kid (is_keys st) = Some x" "reclaim_guard h now x" "keyed t"
      "find_row kid t = Some (reclaim_mark now x)"
    using reclaim_cases [OF reclaim_won.hyps(2) D(1)] by blast
  with D reclaim_won.hyps(1) guard_not_completed [OF x(2)] show ?case
    by (auto simp: idem_inv_def row_is_def)
next
  case (commit st before h after r)
  note D = idem_invD [OF commit.prems]
  show ?case
    using D commit.hyps by (auto simp: idem_inv_def dest!: key_agrees_owner)
next
  case (op_throws st before h after)
  note D = idem_invD [OF op_throws.prems]
  show ?case
    using D op_throws.hyps by (auto simp: idem_inv_def dest!: key_agrees_owner)
next
  case (recorded st before h r after now t)
  note D = idem_invD [OF recorded.prems]
  obtain x where x: "find_row kid (is_keys st) = Some x" "find_row kid t = Some (complete_mark (enc r) now x)" "keyed t"
    using update_key_cases [OF recorded.hyps(2)] D(1) by blast
  show ?case
    using D recorded.hyps(1) x codec
    by (auto simp: idem_inv_def row_is_def parseStoredResponse_def dest!: key_agrees_owner)
next
  case (not_recorded st before h r after)
  then show ?case by (simp add: idem_inv_def)
next
  case (marked_failed st before h after now t)
  note D = idem_invD [OF marked_failed.prems]
  obtain x where x: "find_row kid (is_keys st) = Some x" "find_row kid t = Some (failed_mark now x)" "keyed t"
    using update_key_cases [OF marked_failed.hyps(2)] D(1) by blast
  show ?case
    using D marked_failed.hyps(1) x by (auto simp: idem_inv_def dest!: key_agrees_owner)
next
  case (crash st before c after)
  note D = idem_invD [OF crash.prems]
  obtain h ph where c: "c = (h, ph)" by force
  show ?case
    using D crash.hyps c by (cases ph) (auto simp: idem_inv_def row_is_def dest!: key_agrees_owner)
next
  case (sweep now st n t)
  then show ?case
    by (auto simp: idem_inv_def cleanupExpiredIdempotencyKeys_def keyed_def distinct_map_filter)
qed (auto simp: idem_inv_def)

text \<open>C10. Concurrent retries with one key produce one outcome. Whatever the interleaving of calls,
  crashes and failed operations, as long as no hazard occurs (a commit that is never recorded, a
  takeover from a call that is still running, the sweep of the row) at most one call commits, and
  every call that returns a result returns that commit's result.\<close>

theorem idempotent_once:
  assumes "\<forall>r. dec (enc r) = r" "(idem_step enc dec kid)\<^sup>*\<^sup>* no_calls st" "\<not> is_hazard st"
  shows "length (is_commits st) \<le> 1 \<and> set (is_replies st) \<subseteq> set (is_commits st)"
proof -
  have start: "idem_inv dec kid no_calls" by (simp add: idem_inv_def no_calls_def keyed_def find_row_def)
  from assms(2) have inv: "idem_inv dec kid st"
    by (induction rule: rtranclp_induct) (use start idem_inv_step [OF assms(1)] in blast)+
  have "length (is_commits st) \<le> 1"
    using idem_invD(2) [OF inv assms(3)] by (rule key_agrees_length)
  then show ?thesis using idem_invD(3) [OF inv assms(3)] by blast
qed

section \<open>Replays\<close>

text \<open>The row of a call that returned a result: completed, with that result.\<close>

definition settled :: "(string \<Rightarrow> 'r) \<Rightarrow> string \<Rightarrow> 'r \<Rightarrow> key_row option \<Rightarrow> bool" where
  "settled dec h r row \<longleftrightarrow>
     (\<exists>x. row = Some x \<and> stateOf x = Completed \<and> kr_requestHash x = h \<and> parseStoredResponse dec (kr_responseJson x) = r)"

lemma settled_read:
  "settled dec h r row \<Longrightarrow> read_phase dec now h' row = (if h' = h then Replay r else Reject conflict)"
  by (auto simp: settled_def read_phase_def)

lemma finalize_settles:
  assumes "finalize enc kid operation now c f t w = (Inr r, t', w')" "row_is h In_progress (find_row kid t)"
    "\<forall>r. dec (enc r) = r"
  shows "settled dec h r (find_row kid t')"
proof -
  obtain w1 where "update_key kid (complete_mark (enc r) now) t = Some t'"
    using assms(1) by (auto simp: finalize_def Let_def split: sum.splits option.splits prod.splits if_splits)
  then show ?thesis
    using update_key_cases assms(2,3) by (fastforce simp: settled_def row_is_def parseStoredResponse_def)
qed

lemma loser_reply_settles: "loser_reply dec e h row = Inr r \<Longrightarrow> settled dec h r row"
  by (auto simp: settled_def dest: loser_reply_completed)

lemma legacy_settles:
  assumes "runCreateAtCommit enc dec kid h operation now t w = (Inr r, t', w')" "keyed t" "\<forall>r. dec (enc r) = r"
  shows "settled dec h r (find_row kid t')"
proof (cases "loser_reply dec unique_violation h (find_row kid t) = Inr r \<and> t' = t")
  case True
  then show ?thesis by (blast intro: loser_reply_settles)
next
  case False
  then obtain t1 where "reserve kid h now t = Some t1" "t' = update_row kid (complete_mark (enc r) now) t1"
    using assms(1)
    by (auto simp: runCreateAtCommit_def Let_def res_bind_def split: sum.splits option.splits prod.splits if_splits)
  then show ?thesis using reserve_cases [of kid h now t t1] assms(2,3)
    by (simp add: settled_def find_update_row parseStoredResponse_def)
qed

lemma runIdempotent_settles:
  assumes "runIdempotent digest enc dec lifecycle p now c f t w = (Inr r, t', w')"
    and key: "ip_key p = Some key" "key \<noteq> []" and "keyed t" "\<forall>r. dec (enc r) = r"
    and kid: "kid = (ip_userId p, ip_scope p, key)"
    and h: "h = hashRequest digest (ip_scope p) (ip_resourceId p) (ip_payload p)"
  shows "settled dec h r (find_row kid t')"
proof (cases "read_phase dec now h (find_row kid t)")
  note run = assms(1) [unfolded runIdempotent_def Let_def key option.case, folded kid h]
  {
    case (Replay r')
    then show ?thesis using run key read_replay_completed [OF Replay] by (auto simp: settled_def)
  next
    case (Reject e)
    then show ?thesis using run key by simp
  next
    case Take_over
    obtain ok t1 where rc: "reclaim kid h now t = (ok, t1)" by force
    show ?thesis
    proof (cases "lifecycle \<and> ok")
      case True
      obtain x where "find_row kid t1 = Some (reclaim_mark now x)" "kr_requestHash x = h"
        using reclaim_cases [of kid h now t t1] rc True assms(4) guard_not_completed by auto
      then have "row_is h In_progress (find_row kid t1)" by (simp add: row_is_def)
      moreover have "finalize enc kid (ip_operation p) now c f t1 w = (Inr r, t', w')"
        using run key Take_over rc True by simp
      ultimately show ?thesis using assms(5) by (intro finalize_settles) assumption+
    next
      case False
      then show ?thesis
        using run key Take_over rc legacy_settles [of enc dec kid h, OF _ assms(4,5)] loser_reply_settles by (auto split: if_splits)
    qed
  next
    case Reserve
    show ?thesis
    proof (cases "lifecycle \<and> reserve kid h now t \<noteq> None")
      case True
      then obtain t1 where t1: "reserve kid h now t = Some t1" by blast
      then have "row_is h In_progress (find_row kid t1)"
        using reserve_cases assms(4) by (fastforce simp: row_is_def)
      moreover have "finalize enc kid (ip_operation p) now c f t1 w = (Inr r, t', w')"
        using run key Reserve t1 True by simp
      ultimately show ?thesis using assms(5) by (intro finalize_settles) assumption+
    next
      case False
      then show ?thesis
        using run key Reserve legacy_settles [of enc dec kid h, OF _ assms(4,5)] loser_reply_settles by (auto split: if_splits)
    qed
  }
qed


section \<open>The fingerprint identifies the request\<close>

text \<open>Two JSON values with the same content: equal up to the order of the fields of objects.\<close>

inductive same_json :: "json \<Rightarrow> json \<Rightarrow> bool" where
  same_refl: "same_json v v"
| same_trans: "same_json u v \<Longrightarrow> same_json v w \<Longrightarrow> same_json u w"
| same_arr: "list_all2 same_json vs ws \<Longrightarrow> same_json (JArr vs) (JArr ws)"
| same_obj: "list_all2 (\<lambda>f g. fst f = fst g \<and> same_json (snd f) (snd g)) fs gs \<Longrightarrow> same_json (JObj fs) (JObj gs)"
| same_perm: "mset fs = mset gs \<Longrightarrow> same_json (JObj fs) (JObj gs)"

text \<open>Values as a JSON body can carry them.\<close>

fun json_body :: "json \<Rightarrow> bool" where
  "json_body (JArr vs) = list_all json_body vs"
| "json_body (JObj fs) =
     (distinct (map fst fs) \<and> ''__proto__'' \<notin> fst ` set fs \<and> list_all (\<lambda>f. json_body (snd f)) fs)"
| "json_body (JOpaque _) = False"
| "json_body (JNum x) = (case x of Fin _ \<Rightarrow> True | _ \<Rightarrow> False)"
| "json_body _ = True"

lemma same_json_sym: "same_json u v \<Longrightarrow> same_json v u"
proof (induction rule: same_json.induct)
  case (same_arr vs ws)
  then show ?case by (intro same_json.same_arr) (auto simp: list_all2_conv_all_nth)
next
  case (same_obj fs gs)
  then show ?case by (intro same_json.same_obj) (auto simp: list_all2_conv_all_nth)
qed (auto intro: same_json.intros)

definition canonical_fields :: "(string \<times> json) list \<Rightarrow> (string \<times> json) list" where
  "canonical_fields fs = enumerate_fields (sort_key fst fs)"

lemma mset_enumerate: "mset (enumerate_fields fs) = mset fs"
  by (simp add: enumerate_fields_def case_prod_unfold mset_filter multiset_partition [symmetric])

lemma canonical_fields_perm: "mset (canonical_fields fs) = mset fs"
  by (simp add: canonical_fields_def mset_enumerate)

lemma canonical_fields_cong:
  assumes "mset fs = mset gs" "distinct (map fst fs)"
  shows "canonical_fields fs = canonical_fields gs"
proof -
  have "inj_on fst (set fs)" using assms(2) by (simp add: distinct_map)
  then have "sort_key fst fs = sort_key fst gs"
    using assms(1) by (intro sort_key_inj_key_eq) simp_all
  then show ?thesis by (simp add: canonical_fields_def)
qed

lemma canonicalize_body:
  assumes "json_body (JObj fs)"
  shows "canonicalize (JObj fs) = JObj (canonical_fields (map (\<lambda>f. (fst f, canonicalize (snd f))) fs))"
proof -
  have "filter (\<lambda>(k, _). k \<noteq> ''__proto__'') fs = fs"
    using assms by (force simp: filter_id_conv)
  then show ?thesis by (simp add: canonical_fields_def case_prod_unfold)
qed

lemma same_canonicalize: "json_body v \<Longrightarrow> same_json v (canonicalize v)"
proof (induction v rule: canonicalize.induct)
  case (1 vs)
  then show ?case by (auto intro!: same_arr simp: list_all2_map2 list_all_iff list.rel_refl_strong)
next
  case (2 fs)
  let ?gs = "map (\<lambda>f. (fst f, canonicalize (snd f))) fs"
  have "same_json (snd f) (canonicalize (snd f))" if "f \<in> set fs" for f
    using 2 that by (cases f) (force simp: list_all_iff)
  then have "same_json (JObj fs) (JObj ?gs)"
    by (intro same_obj) (auto simp: list_all2_map2 intro!: list.rel_refl_strong)
  moreover have "same_json (JObj ?gs) (JObj (canonical_fields ?gs))"
    by (rule same_perm) (simp add: canonical_fields_perm)
  ultimately show ?case unfolding canonicalize_body [OF 2(2)] by (rule same_trans)
qed (auto intro: same_refl)

lemma same_canonical:
  "same_json u v \<Longrightarrow> json_body u \<Longrightarrow> json_body v \<and> canonicalize u = canonicalize v"
proof (induction rule: same_json.induct)
  case (same_arr vs ws)
  then show ?case by (auto simp: list_all2_conv_all_nth list_all_length intro!: nth_equalityI)
next
  case (same_obj fs gs)
  have keys: "map fst fs = map fst gs"
    using same_obj by (auto simp: list_all2_conv_all_nth intro!: nth_equalityI)
  have body: "json_body (JObj gs)"
  proof -
    have "list_all (\<lambda>f. json_body (snd f)) gs"
      using same_obj by (auto simp: list_all2_conv_all_nth list_all_length)
    moreover have "distinct (map fst gs)" "''__proto__'' \<notin> set (map fst gs)"
      using same_obj.prems by (simp_all flip: keys)
    ultimately show ?thesis by simp
  qed
  moreover have "map (\<lambda>f. (fst f, canonicalize (snd f))) fs = map (\<lambda>f. (fst f, canonicalize (snd f))) gs"
    using same_obj by (auto simp: list_all2_conv_all_nth list_all_length intro!: nth_equalityI)
  ultimately show ?case using canonicalize_body [OF body] canonicalize_body [OF same_obj.prems] by simp
next
  case (same_perm fs gs)
  have "set fs = set gs" using same_perm.hyps by (metis set_mset_mset)
  have "mset (map fst fs) = mset (map fst gs)" using same_perm.hyps by simp
  then have "distinct (map fst gs)" using same_perm.prems by (metis distinct_count_atmost_1 json_body.simps(2) mset_eq_imp_distinct_iff)
  with same_perm.prems \<open>set fs = set gs\<close> have body: "json_body (JObj gs)" by (simp add: list_all_iff)
  have "canonical_fields (map (\<lambda>f. (fst f, canonicalize (snd f))) fs) = canonical_fields (map (\<lambda>f. (fst f, canonicalize (snd f))) gs)"
    using same_perm by (intro canonical_fields_cong) (simp_all add: comp_def)
  then show ?case using body canonicalize_body [OF body] canonicalize_body [OF same_perm.prems] by simp
qed auto

text \<open>The digest does not collide on two given values.\<close>

definition no_collision :: "(json \<Rightarrow> string) \<Rightarrow> json \<Rightarrow> json \<Rightarrow> bool" where
  "no_collision digest u v \<longleftrightarrow> (digest u = digest v \<longrightarrow> u = v)"

lemma canonicalize_request:
  "canonicalize (request_value s i p) =
     JObj [(''payload'', canonicalize p), (''resourceId'', JStr i), (''scope'', JStr s)]"
  by (simp add: request_value_def enumerate_fields_def array_index_def canonical_nat_def all_digits_def is_digit_def)

lemma canonicalize_eq_iff:
  assumes "json_body p" "json_body q"
  shows "canonicalize p = canonicalize q \<longleftrightarrow> same_json p q"
  by (metis assms same_canonical same_canonicalize same_json_sym same_trans)

text \<open>The fingerprint binds a key to a request: for JSON payloads on whose serializations the
  digest does not collide, two requests have the same fingerprint exactly when they name the same
  scope and resource and their payloads have the same content, whatever the order of the fields
  in their objects.\<close>

theorem hashRequest_identifies:
  assumes "json_body payload" "json_body payload'"
    and "no_collision digest (canonicalize (request_value scope resourceId payload))
      (canonicalize (request_value scope' resourceId' payload'))"
  shows "hashRequest digest scope resourceId payload = hashRequest digest scope' resourceId' payload' \<longleftrightarrow>
    scope = scope' \<and> resourceId = resourceId' \<and> same_json payload payload'"
  using assms(3) canonicalize_eq_iff [OF assms(1,2)]
  by (auto simp: hashRequest_def no_collision_def canonicalize_request)

definition demo_payload :: json where
  "demo_payload = JObj [(''amount'', JStr ''5''), (''memo'', JNull)]"

definition demo_payload_swapped :: json where
  "demo_payload_swapped = JObj [(''memo'', JNull), (''amount'', JStr ''5'')]"

theorem hashRequest_identifies_witness:
  "hashRequest (\<lambda>_. ''h'') ''settlement.create'' ''e1'' demo_payload
     = hashRequest (\<lambda>_. ''h'') ''settlement.create'' ''e1'' demo_payload_swapped
   \<and> same_json demo_payload demo_payload_swapped"
proof -
  have body: "json_body demo_payload" "json_body demo_payload_swapped"
    by (simp_all add: demo_payload_def demo_payload_swapped_def)
  have "canonicalize demo_payload = canonicalize demo_payload_swapped"
    by (simp add: demo_payload_def demo_payload_swapped_def enumerate_fields_def array_index_def canonical_nat_def
        all_digits_def is_digit_def)
  then have "no_collision (\<lambda>_. ''h'') (canonicalize (request_value ''settlement.create'' ''e1'' demo_payload))
      (canonicalize (request_value ''settlement.create'' ''e1'' demo_payload_swapped))"
    by (simp add: no_collision_def canonicalize_request)
  from hashRequest_identifies [OF body this] show ?thesis by (simp add: hashRequest_def)
qed

section \<open>Concrete runs\<close>

definition demo_params :: "(string, nat) idem_params" where
  "demo_params = \<lparr>ip_userId = ''u'', ip_scope = ''settlement.create'', ip_key = Some ''k1'', ip_resourceId = ''e1'',
     ip_payload = demo_payload, ip_operation = (\<lambda>n. Inr (''settled'', Suc n))\<rparr>"

abbreviation demo_run :: "int \<Rightarrow> bool \<Rightarrow> key_table \<Rightarrow> nat \<Rightarrow> (string, nat) run" where
  "demo_run now complete_ok t n \<equiv> runIdempotent (\<lambda>_. ''h'') id id True demo_params now complete_ok True t n"


definition demo_kid :: key_id where "demo_kid = (''u'', ''settlement.create'', ''k1'')"

abbreviation demo_state ::
  "key_table \<Rightarrow> (string \<times> string phase) list \<Rightarrow> (string \<times> string) list \<Rightarrow> (string \<times> string) list \<Rightarrow> bool \<Rightarrow> string idem_state" where
  "demo_state t calls commits replies hazard \<equiv>
     \<lparr>is_keys = t, is_calls = calls, is_commits = commits, is_replies = replies, is_hazard = hazard\<rparr>"

abbreviation demo_reserved :: key_table where "demo_reserved \<equiv> [(demo_kid, reservation ''h'' 0)]"

text \<open>A call that reserves the key and commits.\<close>

lemma demo_committed:
  "(idem_step id id demo_kid)\<^sup>*\<^sup>* no_calls (demo_state demo_reserved [(''h'', Recording ''r'')] [(''h'', ''r'')] [] False)"
proof -
  let ?s1 = "demo_state [] [(''h'', Reserving)] [] [] False"
  let ?s2 = "demo_state demo_reserved [(''h'', Executing)] [] [] False"
  have 1: "idem_step id id demo_kid no_calls ?s1"
    using idem_step.read_vacant [of id 0 "''h''" demo_kid no_calls id]
    by (simp add: no_calls_def read_phase_def find_row_def)
  have 2: "idem_step id id demo_kid ?s1 ?s2"
    using idem_step.reserve_won [of ?s1 "[]" "''h''" "[]" demo_kid 0 demo_reserved id id]
    by (simp add: reserve_def find_row_def)
  have 3: "idem_step id id demo_kid ?s2 (demo_state demo_reserved [(''h'', Recording ''r'')] [(''h'', ''r'')] [] False)"
    using idem_step.commit [of ?s2 "[]" "''h''" "[]" id id demo_kid "''r''"] by simp
  show ?thesis by (meson 1 2 3 rtranclp.rtrancl_into_rtrancl rtranclp.rtrancl_refl)
qed

text \<open>It records its result, and a second call replays it.\<close>

definition demo_replayed :: "string idem_state" where
  "demo_replayed =
     demo_state [(demo_kid, complete_mark ''r'' 5 (reservation ''h'' 0))] [] [(''h'', ''r'')] [(''h'', ''r''), (''h'', ''r'')] False"

lemma demo_replayed_reachable: "(idem_step id id demo_kid)\<^sup>*\<^sup>* no_calls demo_replayed"
proof -
  let ?s0 = "demo_state demo_reserved [(''h'', Recording ''r'')] [(''h'', ''r'')] [] False"
  let ?t = "[(demo_kid, complete_mark ''r'' 5 (reservation ''h'' 0))]"
  let ?s1 = "demo_state ?t [] [(''h'', ''r'')] [(''h'', ''r'')] False"
  have 1: "idem_step id id demo_kid ?s0 ?s1"
    using idem_step.recorded [of ?s0 "[]" "''h''" "''r''" "[]" demo_kid id 5 ?t id]
    by (simp add: update_key_def find_row_def update_row_def update_where_def)
  have 2: "idem_step id id demo_kid ?s1 demo_replayed"
    using idem_step.replay [of id 9 "''h''" demo_kid ?s1 "''r''" id]
    by (simp add: read_phase_def find_row_def parseStoredResponse_def demo_replayed_def)
  show ?thesis using demo_committed 1 2 by (meson rtranclp.rtrancl_into_rtrancl)
qed

theorem idempotent_once_witness:
  "length (is_commits demo_replayed) \<le> 1 \<and> set (is_replies demo_replayed) \<subseteq> set (is_commits demo_replayed)
   \<and> is_replies demo_replayed = [(''h'', ''r''), (''h'', ''r'')]"
  using idempotent_once [OF _ demo_replayed_reachable] by (simp add: demo_replayed_def)

text \<open>It dies before it records, and a retry more than a minute later takes over and commits again.\<close>

lemma demo_takeover:
  "\<exists>st. (idem_step id id demo_kid)\<^sup>*\<^sup>* no_calls st \<and> is_commits st = [(''h'', ''r''), (''h'', ''r'')]"
proof -
  let ?c = "[(''h'', ''r'')]" and ?t = "[(demo_kid, reclaim_mark 70000 (reservation ''h'' 0))]"
  let ?s0 = "demo_state demo_reserved [(''h'', Recording ''r'')] ?c [] False"
  let ?s1 = "demo_state demo_reserved [] ?c [] True"
  let ?s2 = "demo_state demo_reserved [(''h'', Reclaiming)] ?c [] True"
  let ?s3 = "demo_state ?t [(''h'', Executing)] ?c [] True"
  let ?s4 = "demo_state ?t [(''h'', Recording ''r'')] (?c @ ?c) [] True"
  have 1: "idem_step id id demo_kid ?s0 ?s1"
    using idem_step.crash [of ?s0 "[]" "(''h'', Recording ''r'')" "[]" id id demo_kid] by simp
  have "read_phase id 70000 ''h'' (find_row demo_kid demo_reserved) = Take_over"
    by (simp add: read_phase_def find_row_def isAbandoned_def reservation_def IN_PROGRESS_TIMEOUT_MS_def stateOf_def)
  then have 2: "idem_step id id demo_kid ?s1 ?s2"
    using idem_step.read_stale [of id 70000 "''h''" demo_kid ?s1 id] by simp
  have "reclaim demo_kid ''h'' 70000 demo_reserved = (True, ?t)"
    by (simp add: reclaim_def update_where_def reclaim_guard_def reservation_def IN_PROGRESS_TIMEOUT_MS_def)
  then have 3: "idem_step id id demo_kid ?s2 ?s3"
    using idem_step.reclaim_won [of ?s2 "[]" "''h''" "[]" demo_kid 70000 ?t id id] by simp
  have 4: "idem_step id id demo_kid ?s3 ?s4"
    using idem_step.commit [of ?s3 "[]" "''h''" "[]" id id demo_kid "''r''"] by simp
  have "(idem_step id id demo_kid)\<^sup>*\<^sup>* no_calls ?s4"
    using demo_committed 1 2 3 4 by (meson rtranclp.rtrancl_into_rtrancl)
  then show ?thesis by (intro exI [of _ ?s4]) simp
qed

text \<open>C38. Two ways to run an operation twice under one key, both against the module's description. When
  the write that records a committed operation fails, the key is marked failed although the
  operation took effect, and the client's retry executes it again. And when a process dies between
  the commit and that write, the reservation it leaves behind looks abandoned after a minute and
  the takeover executes the operation again, with no other call in flight.\<close>

theorem idempotent_double_execution:
  "snd (snd (demo_run 0 False [] 0)) = 1
   \<and> demo_run 10 True (fst (snd (demo_run 0 False [] 0))) 1
       = (Inr ''settled'', fst (snd (demo_run 10 True (fst (snd (demo_run 0 False [] 0))) 1)), 2)
   \<and> (\<exists>st :: string idem_state. (idem_step id id demo_kid)\<^sup>*\<^sup>* no_calls st \<and> is_commits st = [(''h'', ''r''), (''h'', ''r'')])"
proof (intro conjI)
  show "snd (snd (demo_run 0 False [] 0)) = 1" by code_simp
  show "demo_run 10 True (fst (snd (demo_run 0 False [] 0))) 1
      = (Inr ''settled'', fst (snd (demo_run 10 True (fst (snd (demo_run 0 False [] 0))) 1)), 2)"
    by code_simp
qed (rule demo_takeover)

end
