(* ===== verification/Stellar_Payment.thy ===== *)
theory Stellar_Payment
  imports Money Settlement_Status
begin

text \<open>
  The guardrail every signed envelope passes: \<^verbatim>\<open>src/src/services/stellar.ts\<close> (intent matching,
  signature checks, multisig, endpoint failover), \<^verbatim>\<open>assets.ts\<close>, \<^verbatim>\<open>xdr-inspection.ts\<close>,
  \<^verbatim>\<open>settlement-xdr.ts\<close> and \<^verbatim>\<open>expense-xdr.ts\<close>.

  The Stellar SDK is the parameter \<open>sdk\<close>: decoding of an envelope for the configured network,
  signature verification and key formats. A decoded transaction is the record \<open>envelope\<close> of the
  fields the services read. The clock is an argument.

  The lemmas show that an accepted envelope is the intended payment, that the inspector agrees
  with the validator, and what the multisig check and the failover guarantee.
\<close>

section \<open>Envelopes and the SDK\<close>

datatype sdk_asset = Native_asset | Issued_asset string string

definition asset_code :: "sdk_asset \<Rightarrow> string" where
  "asset_code a = (case a of Native_asset \<Rightarrow> ''XLM'' | Issued_asset c _ \<Rightarrow> c)"

record operation =
  op_type :: string
  op_source :: "string option"
  op_destination :: "string option"
  op_asset :: sdk_asset
  op_amount :: "string option"

record envelope =
  tx_source :: string
  tx_sequence :: string
  tx_operations :: "operation list"
  tx_fee :: js_number
  tx_memo :: "string option"
  tx_timeBounds :: "time_bounds option"
  tx_hash :: string
  tx_signatures :: "(string \<times> string) list"   \<comment> \<open>hint and signature\<close>

datatype decoded = Plain envelope | Fee_bump

record sdk =
  sdk_fromXDR :: "string \<Rightarrow> decoded option"
  sdk_verify :: "string \<Rightarrow> string \<Rightarrow> string \<Rightarrow> bool"   \<comment> \<open>key, hash, signature; false when the SDK throws\<close>
  sdk_hint :: "string \<Rightarrow> string option"   \<comment> \<open>\<open>None\<close> when the key is malformed\<close>
  sdk_publicKey :: "string \<Rightarrow> bool"
  sdk_muxedKey :: "string \<Rightarrow> bool"
  sdk_baseFee :: int

text \<open>\<^verbatim>\<open>new Transaction(xdr, passphrase)\<close>; it throws on a fee-bump envelope.\<close>

definition sdk_transaction :: "sdk \<Rightarrow> string \<Rightarrow> envelope option" where
  "sdk_transaction s xdr = (case sdk_fromXDR s xdr of Some (Plain tx) \<Rightarrow> Some tx | _ \<Rightarrow> None)"

section \<open>Assets\<close>

record asset_spec =
  as_code :: string
  as_issuer :: "string option"

definition getAssetConfig :: "sdk \<Rightarrow> money_config \<Rightarrow> string \<Rightarrow> string option \<Rightarrow> validated_asset res" where
  "getAssetConfig s cfg code issuer =
     res_bind (validateAsset (sdk_publicKey s) cfg code issuer) (\<lambda>r.
       case r of Inl _ \<Rightarrow> Inl (AppError 400 ''INVALID_ASSET'') | Inr v \<Rightarrow> Inr v)"

definition validateIssuer :: "sdk \<Rightarrow> string \<Rightarrow> unit res" where
  "validateIssuer s issuer = (if sdk_publicKey s issuer then Inr () else Inl (AppError 400 ''INVALID_ASSET''))"

definition assets_validateAsset :: "sdk \<Rightarrow> money_config \<Rightarrow> string \<Rightarrow> string option \<Rightarrow> validated_asset res" where
  "assets_validateAsset s cfg code issuer =
     res_bind (if truthy issuer then validateIssuer s (the issuer) else Inr ())
       (\<lambda>_. getAssetConfig s cfg code issuer)"

definition assets_validateAmount :: "string \<Rightarrow> string res" where
  "assets_validateAmount value =
     (case validateAmount value of Inl _ \<Rightarrow> Inl (AppError 400 ''INVALID_AMOUNT'') | Inr v \<Rightarrow> Inr (decimal v))"

definition validateAssetSpec :: "sdk \<Rightarrow> money_config \<Rightarrow> asset_spec \<Rightarrow> validated_asset res" where
  "validateAssetSpec s cfg spec = assets_validateAsset s cfg (as_code spec) (as_issuer spec)"

definition assetConfigToSpec :: "validated_asset \<Rightarrow> asset_spec" where
  "assetConfigToSpec a = \<lparr>as_code = va_code a, as_issuer = va_issuer a\<rparr>"

text \<open>Boot-time check of the configuration.\<close>

fun check_registry :: "string list \<Rightarrow> asset_entry list \<Rightarrow> unit res" where
  "check_registry seen [] = Inr ()"
| "check_registry seen (a # as) =
     (if to_upper (ae_code a) \<in> set seen then Inl (PlainError ''Duplicate asset code'')
      else if ae_type a = Issued \<and> \<not> truthy (ae_issuer a) then Inl (PlainError ''Issued asset requires a non-empty issuer'')
      else check_registry (to_upper (ae_code a) # seen) as)"

definition validateAssetConfig :: "sdk \<Rightarrow> money_config \<Rightarrow> string option \<Rightarrow> unit res" where
  "validateAssetConfig s cfg stableCodeVar =
     res_bind (check_registry [] (SUPPORTED_ASSETS cfg)) (\<lambda>_.
       case stableCodeVar of
         None \<Rightarrow> Inl (PlainError ''STABLE_ASSET_CODE must be set'')
       | Some raw \<Rightarrow>
           let stableCode = js_trim raw in
           if stableCode = [] then Inl (PlainError ''STABLE_ASSET_CODE must be set'')
           else case map_of (byCode cfg) (to_upper stableCode) of
             None \<Rightarrow> Inl (PlainError ''STABLE_ASSET_CODE is not one of the supported assets'')
           | Some stableAsset \<Rightarrow>
               if ae_type stableAsset = Issued then
                 (let issuer = js_trim (STABLE_ASSET_ISSUER cfg) in
                  if issuer = [] then Inl (PlainError ''STABLE_ASSET_ISSUER must be set'')
                  else if \<not> sdk_publicKey s issuer then Inl (PlainError ''STABLE_ASSET_ISSUER is not a valid Stellar public key'')
                  else Inr ())
               else Inr ())"

text \<open>\<^verbatim>\<open>config.issuer!\<close> asserts that a registered issued asset has its issuer.\<close>

definition toAsset :: "sdk \<Rightarrow> money_config \<Rightarrow> asset_spec \<Rightarrow> sdk_asset res" where
  "toAsset s cfg spec =
     res_bind (validateAssetSpec s cfg spec) (\<lambda>c.
       if va_type c = Native then Inr Native_asset
       else case va_issuer c of
              Some i \<Rightarrow> Inr (Issued_asset (va_code c) i)
            | None \<Rightarrow> Inl (PlainError ''Issuer cannot be null''))"

definition memoText :: "string \<Rightarrow> string" where
  "memoText code = (let text = ''MP:'' @ code in if 28 < length text then take 28 text else text)"

section \<open>Matching an envelope against its intent\<close>

record payment_expectation =
  pe_sourcePublicKey :: string
  pe_destination :: string
  pe_asset :: asset_spec
  pe_amount :: string
  pe_memoCode :: string
  pe_sourceSequence :: "string option"
  pe_maxFeeStroops :: "int option"
  pe_expiresAt :: "int option"
  pe_skipSourceSignatureCheck :: bool

definition MIN_FEE_STROOPS_PER_OP :: "sdk \<Rightarrow> int" where "MIN_FEE_STROOPS_PER_OP s = sdk_baseFee s"
definition MAX_FEE_STROOPS_PER_OP :: "sdk \<Rightarrow> int" where "MAX_FEE_STROOPS_PER_OP s = sdk_baseFee s * 2"

definition parseSignedPaymentXdr :: "sdk \<Rightarrow> string \<Rightarrow> envelope res" where
  "parseSignedPaymentXdr s signedXdr =
     (case sdk_fromXDR s signedXdr of
        None \<Rightarrow> Inl (AppError 400 ''XDR_MALFORMED'')
      | Some Fee_bump \<Rightarrow> Inl (AppError 400 ''XDR_MISMATCH'')
      | Some (Plain tx) \<Rightarrow> Inr tx)"

definition assertTimeBoundsValid :: "envelope \<Rightarrow> int option \<Rightarrow> int \<Rightarrow> unit res" where
  "assertTimeBoundsValid tx expiresAt now = assertTimeBoundsMatchIntent (readTimeBounds (tx_timeBounds tx)) expiresAt now"

definition verifySourceSignature :: "sdk \<Rightarrow> envelope \<Rightarrow> string \<Rightarrow> bool" where
  "verifySourceSignature s tx publicKey =
     (if tx_signatures tx = [] then False
      else case sdk_hint s publicKey of
        None \<Rightarrow> False
      | Some _ \<Rightarrow> (\<exists>(_, sig) \<in> set (tx_signatures tx). sdk_verify s publicKey (tx_hash tx) sig))"

definition hasValidSourceSignature :: "sdk \<Rightarrow> envelope \<Rightarrow> bool" where
  "hasValidSourceSignature s tx = verifySourceSignature s tx (tx_source tx)"

datatype intent_field =
    F_source | F_sequence | F_operationCount | F_fee | F_operationType | F_operationSource
  | F_destination | F_assetIssuer | F_asset | F_amount | F_memo

text \<open>Seven decimals, whatever trailing zeros were written; only the part after the first point counts.\<close>

definition normalize_7dp :: "string \<Rightarrow> string" where
  "normalize_7dp a =
     (case split_on CHR ''.'' a of
        w # f # _ \<Rightarrow> w @ ''.'' @ pad7 f
      | [w] \<Rightarrow> w @ ''.'' @ pad7 []
      | [] \<Rightarrow> ''.'' @ pad7 [])"

definition fee_accepted :: "js_number \<Rightarrow> int \<Rightarrow> int \<Rightarrow> bool" where
  "fee_accepted fee lo hi = (case fee of Fin f \<Rightarrow> of_int lo \<le> f \<and> f \<le> of_int hi | _ \<Rightarrow> False)"

definition matchPaymentIntent ::
  "sdk \<Rightarrow> money_config \<Rightarrow> envelope \<Rightarrow> payment_expectation \<Rightarrow> (intent_field option) res" where
  "matchPaymentIntent s cfg tx expected =
     (if tx_source tx \<noteq> pe_sourcePublicKey expected then Inr (Some F_source)
      else if (case pe_sourceSequence expected of Some q \<Rightarrow> tx_sequence tx \<noteq> q | None \<Rightarrow> False)
      then Inr (Some F_sequence)
      else if length (tx_operations tx) \<noteq> 1 then Inr (Some F_operationCount)
      else
        let n = int (length (tx_operations tx));
            maxFee = (case pe_maxFeeStroops expected of Some m \<Rightarrow> m | None \<Rightarrow> MAX_FEE_STROOPS_PER_OP s * n);
            oper = hd (tx_operations tx)
        in
        if \<not> fee_accepted (tx_fee tx) (MIN_FEE_STROOPS_PER_OP s * n) maxFee then Inr (Some F_fee)
        else if op_type oper \<noteq> ''payment'' then Inr (Some F_operationType)
        else if truthy (op_source oper) \<and> op_source oper \<noteq> Some (pe_sourcePublicKey expected)
        then Inr (Some F_operationSource)
        else if op_destination oper \<noteq> Some (pe_destination expected) then Inr (Some F_destination)
        else res_bind (toAsset s cfg (pe_asset expected)) (\<lambda>wantAsset.
          if op_asset oper \<noteq> wantAsset
          then Inr (Some (if asset_code (op_asset oper) = asset_code wantAsset then F_assetIssuer else F_asset))
          else if normalize_7dp (case op_amount oper of Some a \<Rightarrow> a | None \<Rightarrow> []) \<noteq> normalize_7dp (pe_amount expected)
          then Inr (Some F_amount)
          else if (case tx_memo tx of Some m \<Rightarrow> m | None \<Rightarrow> []) \<noteq> memoText (pe_memoCode expected)
          then Inr (Some F_memo)
          else Inr None))"

definition assertMatchesIntent :: "sdk \<Rightarrow> money_config \<Rightarrow> envelope \<Rightarrow> payment_expectation \<Rightarrow> unit res" where
  "assertMatchesIntent s cfg tx expected =
     res_bind (matchPaymentIntent s cfg tx expected) (\<lambda>m.
       case m of Some _ \<Rightarrow> Inl (AppError 400 ''XDR_MISMATCH'') | None \<Rightarrow> Inr ())"

definition verifySignedPaymentXdr ::
  "sdk \<Rightarrow> money_config \<Rightarrow> string \<Rightarrow> payment_expectation \<Rightarrow> int \<Rightarrow> envelope res" where
  "verifySignedPaymentXdr s cfg signedXdr expected now =
     res_bind (parseSignedPaymentXdr s signedXdr) (\<lambda>tx.
     res_bind (assertTimeBoundsValid tx (pe_expiresAt expected) now) (\<lambda>_.
       if \<not> hasValidSourceSignature s tx then Inl (AppError 400 ''XDR_UNSIGNED'')
       else res_bind (assertMatchesIntent s cfg tx expected) (\<lambda>_. Inr tx)))"

definition validateSignedPaymentXdr ::
  "sdk \<Rightarrow> money_config \<Rightarrow> string \<Rightarrow> payment_expectation \<Rightarrow> int \<Rightarrow> envelope res" where
  "validateSignedPaymentXdr s cfg signedXdr expected now =
     res_bind (parseSignedPaymentXdr s signedXdr) (\<lambda>tx.
     res_bind (assertTimeBoundsValid tx (pe_expiresAt expected) now) (\<lambda>_.
     res_bind (assertMatchesIntent s cfg tx expected) (\<lambda>_. Inr tx)))"

definition validatePaymentTx :: "sdk \<Rightarrow> money_config \<Rightarrow> envelope \<Rightarrow> payment_expectation \<Rightarrow> int \<Rightarrow> unit res" where
  "validatePaymentTx s cfg tx expected now =
     res_bind (assertTimeBoundsValid tx (pe_expiresAt expected) now) (\<lambda>_.
     res_bind (assertMatchesIntent s cfg tx expected) (\<lambda>_.
       if \<not> pe_skipSourceSignatureCheck expected \<and> \<not> verifySourceSignature s tx (pe_sourcePublicKey expected)
       then Inl (AppError 400 ''XDR_MISMATCH'') else Inr ()))"

definition validateSignedXdr ::
  "sdk \<Rightarrow> money_config \<Rightarrow> string \<Rightarrow> payment_expectation \<Rightarrow> int \<Rightarrow> (envelope \<times> string) res" where
  "validateSignedXdr s cfg signedXdr expected now =
     res_bind (parseSignedPaymentXdr s signedXdr) (\<lambda>tx.
     res_bind (validatePaymentTx s cfg tx expected now) (\<lambda>_. Inr (tx, tx_hash tx)))"

section \<open>Building a payment\<close>

record payment_params =
  pp_sourcePublicKey :: string
  pp_sourceSequence :: string
  pp_destination :: string
  pp_asset :: asset_spec
  pp_amount :: string
  pp_memoCode :: string
  pp_validitySeconds :: "int option"
  pp_feeStroops :: "int option"

text \<open>What is handed to the SDK's transaction builder.\<close>

record build_request =
  br_source :: string
  br_sequence :: string
  br_fee :: int
  br_destination :: string
  br_asset :: sdk_asset
  br_amount :: string
  br_memo :: string
  br_timeout :: int

definition buildPayment :: "sdk \<Rightarrow> money_config \<Rightarrow> payment_params \<Rightarrow> build_request res" where
  "buildPayment s cfg p =
     (if pp_sourcePublicKey p = [] \<or> \<not> sdk_publicKey s (pp_sourcePublicKey p)
      then Inl (AppError 400 ''INVALID_SOURCE_ACCOUNT'')
      else if pp_destination p = [] \<or> \<not> sdk_publicKey s (pp_destination p)
      then Inl (AppError 400 ''INVALID_DESTINATION_ACCOUNT'')
      else if pp_sourceSequence p = [] \<or> \<not> all_digits (pp_sourceSequence p)
      then Inl (AppError 400 ''INVALID_SEQUENCE'')
      else if truthy (as_issuer (pp_asset p)) \<and> \<not> sdk_publicKey s (the (as_issuer (pp_asset p)))
      then Inl (AppError 400 ''INVALID_ASSET_ISSUER'')
      else res_bind (toAsset s cfg (pp_asset p)) (\<lambda>asset. Inr
        \<lparr>br_source = pp_sourcePublicKey p, br_sequence = pp_sourceSequence p,
         br_fee = (case pp_feeStroops p of Some f \<Rightarrow> if f = 0 then sdk_baseFee s * 2 else f | None \<Rightarrow> sdk_baseFee s * 2),
         br_destination = pp_destination p, br_asset = asset, br_amount = pp_amount p,
         br_memo = memoText (pp_memoCode p),
         br_timeout = (case pp_validitySeconds p of Some v \<Rightarrow> v | None \<Rightarrow> INTENT_VALIDITY_SECONDS)\<rparr>))"

text \<open>The intent recorded for such a payment.\<close>

definition expectation_for :: "payment_params \<Rightarrow> int option \<Rightarrow> payment_expectation" where
  "expectation_for p expiresAt =
     \<lparr>pe_sourcePublicKey = pp_sourcePublicKey p, pe_destination = pp_destination p, pe_asset = pp_asset p,
      pe_amount = pp_amount p, pe_memoCode = pp_memoCode p, pe_sourceSequence = None, pe_maxFeeStroops = None,
      pe_expiresAt = expiresAt, pe_skipSourceSignatureCheck = False\<rparr>"

section \<open>Multisig\<close>

record multisig_requirement =
  ms_signers :: "string list"
  ms_threshold :: int

text \<open>The configured signer each signature verifies for, first match first.\<close>

fun matched_signers :: "sdk \<Rightarrow> string list \<Rightarrow> string \<Rightarrow> (string \<times> string) list \<Rightarrow> string list res" where
  "matched_signers s signers hash [] = Inr []"
| "matched_signers s signers hash ((_, sig) # sigs) =
     (case List.find (\<lambda>k. sdk_hint s k \<noteq> None \<and> sdk_verify s k hash sig) signers of
        None \<Rightarrow> Inl (AppError 401 ''UNAUTHORIZED'')
      | Some k \<Rightarrow> res_bind (matched_signers s signers hash sigs) (\<lambda>ks. Inr (List.insert k ks)))"

definition verifyMultisig :: "sdk \<Rightarrow> envelope \<Rightarrow> multisig_requirement \<Rightarrow> unit res" where
  "verifyMultisig s tx requirement =
     (if ms_signers requirement = [] then Inl (AppError 400 ''TREASURY_MISCONFIGURED'')
      else if tx_signatures tx = [] then Inl (AppError 401 ''UNAUTHORIZED'')
      else res_bind (matched_signers s (ms_signers requirement) (tx_hash tx) (tx_signatures tx)) (\<lambda>ks.
        if int (length ks) < ms_threshold requirement then Inl (AppError 401 ''UNAUTHORIZED'') else Inr ()))"

text \<open>The checks before a submission; \<open>submit\<close> is the call to Horizon.\<close>

definition submitPayment ::
  "sdk \<Rightarrow> money_config \<Rightarrow> (envelope \<Rightarrow> string res) \<Rightarrow> string \<Rightarrow> payment_expectation \<Rightarrow> int \<Rightarrow> string res" where
  "submitPayment s cfg submit signedXdr expected now =
     res_bind (parseSignedPaymentXdr s signedXdr) (\<lambda>tx.
     res_bind (validatePaymentTx s cfg tx expected now) (\<lambda>_. submit tx))"

definition submitMultisigPayment ::
  "sdk \<Rightarrow> money_config \<Rightarrow> (envelope \<Rightarrow> string res) \<Rightarrow> string \<Rightarrow> payment_expectation \<Rightarrow> multisig_requirement \<Rightarrow> int \<Rightarrow> string res" where
  "submitMultisigPayment s cfg submit signedXdr expected requirement now =
     res_bind (validateSignedXdr s cfg signedXdr (expected\<lparr>pe_skipSourceSignatureCheck := True\<rparr>) now) (\<lambda>(tx, _).
     res_bind (verifyMultisig s tx requirement) (\<lambda>_. submit tx))"

definition hashOf :: "sdk \<Rightarrow> string \<Rightarrow> string res" where
  "hashOf s signedXdr =
     (case sdk_transaction s signedXdr of Some tx \<Rightarrow> Inr (tx_hash tx) | None \<Rightarrow> Inl (PlainError ''invalid envelope''))"

section \<open>Intents of settlements and expenses\<close>

record intent_record =
  ir_shortCode :: "string option"
  ir_memoCode :: "string option"
  ir_amount :: string
  ir_assetCode :: string
  ir_assetIssuer :: "string option"
  ir_expiresAt :: "int option"
  ir_sourceSequence :: "string option"
  ir_from :: string
  ir_to :: string

definition intent_of :: "intent_record \<Rightarrow> string \<Rightarrow> payment_expectation" where
  "intent_of r memoCode =
     \<lparr>pe_sourcePublicKey = ir_from r, pe_destination = ir_to r,
      pe_asset = \<lparr>as_code = ir_assetCode r, as_issuer = ir_assetIssuer r\<rparr>, pe_amount = ir_amount r,
      pe_memoCode = memoCode, pe_sourceSequence = ir_sourceSequence r, pe_maxFeeStroops = None,
      pe_expiresAt = ir_expiresAt r, pe_skipSourceSignatureCheck = False\<rparr>"

definition settlementPaymentIntent :: "intent_record \<Rightarrow> payment_expectation" where
  "settlementPaymentIntent r = intent_of r (case ir_shortCode r of Some c \<Rightarrow> c | None \<Rightarrow> [])"

definition validateSettlementXdr :: "sdk \<Rightarrow> money_config \<Rightarrow> string \<Rightarrow> intent_record \<Rightarrow> int \<Rightarrow> (envelope \<times> string) res" where
  "validateSettlementXdr s cfg signedXdr r now = validateSignedXdr s cfg signedXdr (settlementPaymentIntent r) now"

definition isConfirmable :: "string \<Rightarrow> bool" where
  "isConfirmable status = (status \<in> {''pending'', ''failed''})"

definition assertSettlementConfirmable :: "string \<Rightarrow> unit res" where
  "assertSettlementConfirmable status =
     (if status = ''confirmed'' \<or> status = ''completed'' then Inl (AppError 409 ''ALREADY_SETTLED'') else Inr ())"

definition expensePaymentIntent :: "intent_record \<Rightarrow> payment_expectation" where
  "expensePaymentIntent r =
     intent_of r (case ir_memoCode r of Some c \<Rightarrow> c | None \<Rightarrow> (case ir_shortCode r of Some c \<Rightarrow> c | None \<Rightarrow> []))"

definition validateExpenseXdr :: "sdk \<Rightarrow> money_config \<Rightarrow> string \<Rightarrow> intent_record \<Rightarrow> int \<Rightarrow> (envelope \<times> string) res" where
  "validateExpenseXdr s cfg signedXdr r now = validateSignedXdr s cfg signedXdr (expensePaymentIntent r) now"

text \<open>\<open>submitSigned\<close> decodes the envelope again before the call to Horizon.\<close>

definition submitSigned :: "sdk \<Rightarrow> (envelope \<Rightarrow> string res) \<Rightarrow> string \<Rightarrow> string res" where
  "submitSigned s submit signedXdr =
     (case sdk_transaction s signedXdr of None \<Rightarrow> Inl (PlainError ''invalid envelope'') | Some tx \<Rightarrow> submit tx)"

definition submitExpenseXdr ::
  "sdk \<Rightarrow> money_config \<Rightarrow> (envelope \<Rightarrow> string res) \<Rightarrow> string \<Rightarrow> intent_record \<Rightarrow> int \<Rightarrow> string res" where
  "submitExpenseXdr s cfg submit signedXdr r now =
     res_bind (validateExpenseXdr s cfg signedXdr r now) (\<lambda>_. submitSigned s submit signedXdr)"

section \<open>Inspection without throwing\<close>

datatype rejection_field = Field intent_field | F_envelope | F_timeBounds | F_signature

datatype inspection =
    Accepted envelope
  | Rejected string rejection_field

definition isRejectionCode :: "string \<Rightarrow> bool" where
  "isRejectionCode code = (code \<in> {''xdr_malformed'', ''xdr_mismatch'', ''intent_expired'', ''xdr_unsigned''})"

text \<open>Errors other than \<^verbatim>\<open>AppError\<close> are thrown again.\<close>

definition fromAppError :: "exn \<Rightarrow> rejection_field \<Rightarrow> inspection res" where
  "fromAppError e field =
     (case e of
        AppError _ c \<Rightarrow> Inr (Rejected (if isRejectionCode (to_lower c) then to_lower c else ''xdr_mismatch'') field)
      | _ \<Rightarrow> Inl e)"

definition inspectSignedTransaction ::
  "sdk \<Rightarrow> money_config \<Rightarrow> string \<Rightarrow> payment_expectation \<Rightarrow> bool \<Rightarrow> int \<Rightarrow> inspection res" where
  "inspectSignedTransaction s cfg signedXdr expected requireSignature now =
     (case parseSignedPaymentXdr s signedXdr of
        Inl e \<Rightarrow> fromAppError e F_envelope
      | Inr tx \<Rightarrow>
          (case assertTimeBoundsValid tx (pe_expiresAt expected) now of
             Inl e \<Rightarrow> fromAppError e F_timeBounds
           | Inr _ \<Rightarrow>
               (case matchPaymentIntent s cfg tx expected of
                  Inl e \<Rightarrow> fromAppError e (Field F_asset)
                | Inr (Some f) \<Rightarrow> Inr (Rejected ''xdr_mismatch'' (Field f))
                | Inr None \<Rightarrow>
                    if requireSignature \<and> \<not> verifySourceSignature s tx (pe_sourcePublicKey expected)
                    then Inr (Rejected ''xdr_unsigned'' F_signature)
                    else Inr (Accepted tx))))"

definition assertSignedTransactionMatchesIntent ::
  "sdk \<Rightarrow> money_config \<Rightarrow> string \<Rightarrow> payment_expectation \<Rightarrow> bool \<Rightarrow> int \<Rightarrow> envelope res" where
  "assertSignedTransactionMatchesIntent s cfg signedXdr expected requireSignature now =
     res_bind (inspectSignedTransaction s cfg signedXdr expected requireSignature now) (\<lambda>r.
       case r of Accepted tx \<Rightarrow> Inr tx | Rejected code _ \<Rightarrow> Inl (AppError 400 (to_upper code)))"

section \<open>Endpoint failover\<close>

datatype 'a horizon_result = Success 'a | Failure "nat option"   \<comment> \<open>HTTP status of the failure, if any\<close>

definition isRetryableHorizonError :: "nat option \<Rightarrow> bool" where
  "isRetryableHorizonError status = (case status of None \<Rightarrow> True | Some c \<Rightarrow> c = 408 \<or> c = 429 \<or> 500 \<le> c)"

record endpoints =
  ep_count :: nat
  ep_active :: nat
  ep_failedUntil :: "(nat \<times> int) list"

definition quarantined_until :: "endpoints \<Rightarrow> nat \<Rightarrow> int" where
  "quarantined_until st i = (case map_of (ep_failedUntil st) i of Some t \<Rightarrow> t | None \<Rightarrow> 0)"

text \<open>\<^verbatim>\<open>server()\<close>: keep the active endpoint if it is available, else the first available one, else keep it.\<close>

definition select_server :: "int \<Rightarrow> endpoints \<Rightarrow> endpoints" where
  "select_server now st =
     (let available = filter (\<lambda>i. quarantined_until st i \<le> now) [0..<ep_count st] in
      st\<lparr>ep_active := (if ep_active st \<in> set available then ep_active st
                        else case available of i # _ \<Rightarrow> i | [] \<Rightarrow> ep_active st)\<rparr>)"

text \<open>One call: the outcome per attempt is given by \<open>operation\<close>, from the attempt number and the
  endpoint; the last component lists the endpoints called.\<close>

function failover_loop ::
  "(nat \<Rightarrow> nat \<Rightarrow> 'a horizon_result) \<Rightarrow> int \<Rightarrow> nat \<Rightarrow> nat list \<Rightarrow> nat option \<Rightarrow> endpoints
    \<Rightarrow> (nat option + 'a) \<times> endpoints \<times> nat list" where
  "failover_loop operation now attempt tried lastError st =
     (if attempt \<ge> ep_count st then (Inl lastError, st, [])
      else
        let index = ep_active st; tried' = List.insert index tried; st1 = select_server now st; called = ep_active st1 in
        case operation attempt called of
          Success a \<Rightarrow> (Inr a, st1, [called])
        | Failure status \<Rightarrow>
            if \<not> isRetryableHorizonError status then (Inl status, st1, [called])
            else
              let st2 = st1\<lparr>ep_failedUntil := AList.update index (now + 30000) (ep_failedUntil st1)\<rparr> in
              case List.find (\<lambda>i. i \<notin> set tried' \<and> quarantined_until st2 i \<le> now) [0..<ep_count st2] of
                None \<Rightarrow> (Inl status, st2, [called])
              | Some nextServer \<Rightarrow>
                  let (r, st3, calls) = failover_loop operation now (Suc attempt) tried' status (st2\<lparr>ep_active := nextServer\<rparr>)
                  in (r, st3, called # calls))"
  by pat_completeness auto
termination
  by (relation "measure (\<lambda>(_, _, attempt, _, _, st). ep_count st - attempt)")
    (auto simp: select_server_def Let_def split: if_splits)

declare failover_loop.simps [simp del]

definition withHorizonFailover ::
  "(nat \<Rightarrow> nat \<Rightarrow> 'a horizon_result) \<Rightarrow> int \<Rightarrow> endpoints \<Rightarrow> (nat option + 'a) \<times> endpoints \<times> nat list" where
  "withHorizonFailover operation now st = failover_loop operation now 0 [] None st"

section \<open>An accepted envelope is the intended payment\<close>

lemma normalize_7dp_denotes:
  assumes "denotes a m" "normalize_7dp a = normalize_7dp b" "denotes b n"
  shows "m = n"
proof -
  have parts: "\<exists>w f. all_digits w \<and> all_digits f \<and> length f \<le> 7 \<and> normalize_7dp s = w @ ''.'' @ pad7 f \<and>
      k = dec_val w * 10 ^ 7 + dec_val (pad7 f)" if "denotes s k" for s k
    using that
  proof cases
    case (den_whole)
    show ?thesis
      by (rule exI [of _ s], rule exI [of _ "[]"])
        (use den_whole in \<open>simp add: normalize_7dp_def split_on_none all_digits_no_dot dec_val_pad7\<close>)
  next
    case (den_frac w f)
    show ?thesis
      by (rule exI [of _ w], rule exI [of _ f])
        (use den_frac in \<open>simp add: normalize_7dp_def split_on_one split_on_none all_digits_no_dot dec_val_pad7\<close>)
  qed
  obtain w f where a: "all_digits w" "all_digits f" "length f \<le> 7" "normalize_7dp a = w @ ''.'' @ pad7 f"
      "m = dec_val w * 10 ^ 7 + dec_val (pad7 f)" using parts [OF assms(1)] by blast
  obtain v g where b: "all_digits v" "all_digits g" "length g \<le> 7" "normalize_7dp b = v @ ''.'' @ pad7 g"
      "n = dec_val v * 10 ^ 7 + dec_val (pad7 g)" using parts [OF assms(3)] by blast
  have "w @ ''.'' @ pad7 f = v @ ''.'' @ pad7 g" using a(4) b(4) assms(2) by simp
  then have "w = v \<and> pad7 f = pad7 g"
    using a(3) b(3) by (subst (asm) append_eq_append_conv) auto
  then show ?thesis using a(5) b(5) by simp
qed

lemma matchPaymentIntent_None:
  assumes "matchPaymentIntent s cfg tx expected = Inr None"
  shows "tx_source tx = pe_sourcePublicKey expected
    \<and> (pe_sourceSequence expected = None \<or> pe_sourceSequence expected = Some (tx_sequence tx))
    \<and> (\<exists>oper fee a. tx_operations tx = [oper] \<and> op_type oper = ''payment''
         \<and> (\<not> truthy (op_source oper) \<or> op_source oper = Some (pe_sourcePublicKey expected))
         \<and> op_destination oper = Some (pe_destination expected)
         \<and> toAsset s cfg (pe_asset expected) = Inr (op_asset oper)
         \<and> a = (case op_amount oper of Some x \<Rightarrow> x | None \<Rightarrow> [])
         \<and> normalize_7dp a = normalize_7dp (pe_amount expected)
         \<and> tx_fee tx = Fin fee \<and> of_int (sdk_baseFee s) \<le> fee
         \<and> fee \<le> of_int (case pe_maxFeeStroops expected of Some m \<Rightarrow> m | None \<Rightarrow> 2 * sdk_baseFee s))
    \<and> (case tx_memo tx of Some m \<Rightarrow> m | None \<Rightarrow> []) = memoText (pe_memoCode expected)"
proof -
  obtain oper where ops: "tx_operations tx = [oper]"
    using assms by (auto simp: matchPaymentIntent_def length_Suc_conv split: if_splits)
  show ?thesis
    using assms ops
    by (auto simp: matchPaymentIntent_def fee_accepted_def MIN_FEE_STROOPS_PER_OP_def MAX_FEE_STROOPS_PER_OP_def
        Let_def res_simps split: if_splits option.splits js_number.splits)
qed

lemma validateSignedXdr_Inr:
  "validateSignedXdr s cfg xdr expected now = Inr (tx, h) \<longleftrightarrow>
     sdk_fromXDR s xdr = Some (Plain tx) \<and> h = tx_hash tx
     \<and> assertTimeBoundsValid tx (pe_expiresAt expected) now = Inr ()
     \<and> matchPaymentIntent s cfg tx expected = Inr None
     \<and> (pe_skipSourceSignatureCheck expected \<or> verifySourceSignature s tx (pe_sourcePublicKey expected))"
  by (auto simp: validateSignedXdr_def parseSignedPaymentXdr_def validatePaymentTx_def assertMatchesIntent_def res_simps
      split: option.splits decoded.splits if_splits)

lemma verifySourceSignature_iff:
  "verifySourceSignature s tx k \<longleftrightarrow>
     sdk_hint s k \<noteq> None \<and> (\<exists>(hint, sig) \<in> set (tx_signatures tx). sdk_verify s k (tx_hash tx) sig)"
  by (auto simp: verifySourceSignature_def split: option.splits)

text \<open>C9. A validated envelope is the payment that was authorized: when \<open>validateSignedXdr\<close> accepts, the
  envelope is not a fee bump, spends from the intent's source, carries exactly one operation, a
  payment by that source of the intended asset to the intended destination, for the same number of
  stroops as intended, with the intent's memo, a fee within the accepted band and a validity window
  that is neither open-ended nor lapsed nor longer than the intent's; and, unless the caller checks
  multisig instead, the source's key signed its hash.\<close>

theorem validated_payment_is_intended:
  assumes "validateSignedXdr s cfg xdr expected now = Inr (tx, h)"
  shows "sdk_fromXDR s xdr = Some (Plain tx) \<and> h = tx_hash tx
    \<and> tx_source tx = pe_sourcePublicKey expected
    \<and> (\<exists>oper fee lo hi. tx_operations tx = [oper] \<and> op_type oper = ''payment''
         \<and> (\<not> truthy (op_source oper) \<or> op_source oper = Some (pe_sourcePublicKey expected))
         \<and> op_destination oper = Some (pe_destination expected)
         \<and> toAsset s cfg (pe_asset expected) = Inr (op_asset oper)
         \<and> (\<forall>a m n. op_amount oper = Some a \<longrightarrow> denotes a m \<longrightarrow> denotes (pe_amount expected) n \<longrightarrow> m = n)
         \<and> tx_fee tx = Fin fee \<and> of_int (sdk_baseFee s) \<le> fee
         \<and> fee \<le> of_int (case pe_maxFeeStroops expected of Some m \<Rightarrow> m | None \<Rightarrow> 2 * sdk_baseFee s)
         \<and> tx_timeBounds tx = Some \<lparr>minTime = Fin lo, maxTime = Fin hi\<rparr> \<and> 0 < hi
         \<and> of_int (nowSeconds now) - 30 \<le> hi \<and> lo \<le> of_int (nowSeconds now) + 30
         \<and> (\<forall>e. pe_expiresAt expected = Some e \<longrightarrow> hi \<le> of_int (nowSeconds e) + 30))
    \<and> (case tx_memo tx of Some m \<Rightarrow> m | None \<Rightarrow> []) = memoText (pe_memoCode expected)
    \<and> (pe_skipSourceSignatureCheck expected \<or>
       (\<exists>(hint, sig) \<in> set (tx_signatures tx). sdk_verify s (pe_sourcePublicKey expected) (tx_hash tx) sig))"
proof -
  note V = assms [unfolded validateSignedXdr_Inr assertTimeBoundsValid_def time_bounds_accepted verifySourceSignature_iff]
  obtain lo hi where bounds: "tx_timeBounds tx = Some \<lparr>minTime = Fin lo, maxTime = Fin hi\<rparr>" "0 < hi"
      "of_int (nowSeconds now) - 30 \<le> hi" "lo \<le> of_int (nowSeconds now) + 30"
      "\<forall>e. pe_expiresAt expected = Some e \<longrightarrow> hi \<le> of_int (nowSeconds e) + 30"
    using V by blast
  have match: "matchPaymentIntent s cfg tx expected = Inr None" using V by blast
  note M = matchPaymentIntent_None [OF match]
  obtain oper fee where ops: "tx_operations tx = [oper]" "op_type oper = ''payment''"
      "\<not> truthy (op_source oper) \<or> op_source oper = Some (pe_sourcePublicKey expected)"
      "op_destination oper = Some (pe_destination expected)"
      "toAsset s cfg (pe_asset expected) = Inr (op_asset oper)"
      "normalize_7dp (case op_amount oper of Some x \<Rightarrow> x | None \<Rightarrow> []) = normalize_7dp (pe_amount expected)"
      "tx_fee tx = Fin fee" "of_int (sdk_baseFee s) \<le> fee"
      "fee \<le> of_int (case pe_maxFeeStroops expected of Some m \<Rightarrow> m | None \<Rightarrow> 2 * sdk_baseFee s)"
    using M by blast
  have "\<forall>a m n. op_amount oper = Some a \<longrightarrow> denotes a m \<longrightarrow> denotes (pe_amount expected) n \<longrightarrow> m = n"
    using ops(6) normalize_7dp_denotes by auto
  then show ?thesis using V M bounds ops by (auto simp del: split_paired_Ex)
qed

text \<open>An envelope that carries a build request, as the SDK builds it: the sequence is the account's plus
  one, the amount is printed with seven decimals, and the timeout becomes the upper time bound.\<close>

definition carries :: "build_request \<Rightarrow> int \<Rightarrow> envelope \<Rightarrow> bool" where
  "carries q built tx \<longleftrightarrow>
     tx_source tx = br_source q \<and> tx_sequence tx = nat_to_dec (dec_val (br_sequence q) + 1)
     \<and> (\<exists>amount. tx_operations tx = [\<lparr>op_type = ''payment'', op_source = None, op_destination = Some (br_destination q),
          op_asset = br_asset q, op_amount = Some amount\<rparr>] \<and> normalize_7dp amount = normalize_7dp (br_amount q))
     \<and> tx_fee tx = Fin (of_int (br_fee q)) \<and> tx_memo tx = Some (br_memo q)
     \<and> tx_timeBounds tx = Some \<lparr>minTime = Fin 0, maxTime = Fin (of_int (nowSeconds built + br_timeout q))\<rparr>"


text \<open>A concrete network: one signed envelope, signatures that name their key.\<close>

definition demo_tx :: envelope where
  "demo_tx =
     \<lparr>tx_source = ''GA'', tx_sequence = ''8'',
      tx_operations = [\<lparr>op_type = ''payment'', op_source = None, op_destination = Some ''GB'',
        op_asset = Native_asset, op_amount = Some ''10.5000000''\<rparr>],
      tx_fee = Fin 200, tx_memo = Some ''MP:abc'', tx_timeBounds = Some \<lparr>minTime = Fin 0, maxTime = Fin 1300\<rparr>,
      tx_hash = ''h1'', tx_signatures = [(''A'', ''GA''), (''C'', ''GC'')]\<rparr>"

definition demo_sdk :: sdk where
  "demo_sdk =
     \<lparr>sdk_fromXDR = (\<lambda>x. if x = ''signed'' then Some (Plain demo_tx) else None),
      sdk_verify = (\<lambda>k h sig. sig = k), sdk_hint = (\<lambda>k. if k = [] then None else Some (tl k)),
      sdk_publicKey = (\<lambda>k. hd k = CHR ''G''), sdk_muxedKey = (\<lambda>_. False), sdk_baseFee = 100\<rparr>"

definition demo_expected :: payment_expectation where
  "demo_expected =
     \<lparr>pe_sourcePublicKey = ''GA'', pe_destination = ''GB'', pe_asset = \<lparr>as_code = ''xlm'', as_issuer = None\<rparr>,
      pe_amount = ''10.5'', pe_memoCode = ''abc'', pe_sourceSequence = None, pe_maxFeeStroops = None,
      pe_expiresAt = Some 1300000, pe_skipSourceSignatureCheck = False\<rparr>"

definition demo_payment_params :: payment_params where
  "demo_payment_params =
     \<lparr>pp_sourcePublicKey = ''GA'', pp_sourceSequence = ''7'', pp_destination = ''GB'',
      pp_asset = \<lparr>as_code = ''xlm'', as_issuer = None\<rparr>, pp_amount = ''10.5'', pp_memoCode = ''abc'',
      pp_validitySeconds = None, pp_feeStroops = None\<rparr>"

definition demo_request :: build_request where
  "demo_request =
     \<lparr>br_source = ''GA'', br_sequence = ''7'', br_fee = 200, br_destination = ''GB'', br_asset = Native_asset,
      br_amount = ''10.5'', br_memo = ''MP:abc'', br_timeout = 300\<rparr>"


lemma demo_validated: "validateSignedXdr demo_sdk demo_money_config ''signed'' demo_expected 1000000 = Inr (demo_tx, ''h1'')"
  by code_simp

theorem validated_payment_is_intended_witness:
  "tx_source demo_tx = ''GA'' \<and> (\<exists>oper. tx_operations demo_tx = [oper] \<and> op_destination oper = Some ''GB'')
   \<and> (\<exists>(hint, sig) \<in> set (tx_signatures demo_tx). sdk_verify demo_sdk ''GA'' ''h1'' sig)"
proof -
  note T = validated_payment_is_intended [OF demo_validated]
  have "tx_source demo_tx = ''GA''" using T by (simp add: demo_expected_def)
  moreover have "\<exists>oper. tx_operations demo_tx = [oper] \<and> op_destination oper = Some ''GB''"
    using T by (auto simp: demo_expected_def)
  moreover have "\<exists>(hint, sig) \<in> set (tx_signatures demo_tx). sdk_verify demo_sdk ''GA'' ''h1'' sig"
    using T by (simp add: demo_expected_def demo_tx_def)
  ultimately show ?thesis by blast
qed

section \<open>The inspector has no rules of its own\<close>

lemma match_ignores_skip [simp]:
  "matchPaymentIntent s cfg tx (expected\<lparr>pe_skipSourceSignatureCheck := b\<rparr>) = matchPaymentIntent s cfg tx expected"
  by (simp add: matchPaymentIntent_def Let_def)

lemma inspection_accepts:
  "inspectSignedTransaction s cfg xdr expected req now = Inr (Accepted tx) \<longleftrightarrow>
     sdk_fromXDR s xdr = Some (Plain tx) \<and> assertTimeBoundsValid tx (pe_expiresAt expected) now = Inr ()
     \<and> matchPaymentIntent s cfg tx expected = Inr None
     \<and> (\<not> req \<or> verifySourceSignature s tx (pe_sourcePublicKey expected))"
  by (auto simp: inspectSignedTransaction_def parseSignedPaymentXdr_def fromAppError_def
      split: option.splits decoded.splits sum.splits exn.splits if_splits)

lemma inspection_rejects:
  "inspectSignedTransaction s cfg xdr expected req now = Inr (Rejected code field) \<Longrightarrow>
   isRejectionCode code \<and> (\<nexists>tx. inspectSignedTransaction s cfg xdr expected req now = Inr (Accepted tx))"
proof -
  have codes: "isRejectionCode ''xdr_mismatch''" "isRejectionCode ''xdr_unsigned''" by (simp_all add: isRejectionCode_def)
  assume "inspectSignedTransaction s cfg xdr expected req now = Inr (Rejected code field)"
  then show ?thesis
    by (auto simp: inspectSignedTransaction_def fromAppError_def codes
        split: option.splits sum.splits exn.splits if_splits)
qed

text \<open>C25. The non-throwing inspector judges exactly like the validator of the submission paths: it accepts an
  envelope if and only if \<open>validateSignedXdr\<close> does, for the same requirement of a source signature, and
  when it rejects, the validator throws and the reported code is one of the four documented ones.\<close>

theorem inspection_agrees:
  "(inspectSignedTransaction s cfg xdr expected req now = Inr (Accepted tx) \<longleftrightarrow>
      validateSignedXdr s cfg xdr (expected\<lparr>pe_skipSourceSignatureCheck := \<not> req\<rparr>) now = Inr (tx, tx_hash tx))
   \<and> (inspectSignedTransaction s cfg xdr expected req now = Inr (Rejected code field) \<longrightarrow>
      isRejectionCode code \<and>
      (\<exists>e. validateSignedXdr s cfg xdr (expected\<lparr>pe_skipSourceSignatureCheck := \<not> req\<rparr>) now = Inl e))"
proof (intro conjI impI)
  let ?e = "expected\<lparr>pe_skipSourceSignatureCheck := \<not> req\<rparr>"
  have agree: "inspectSignedTransaction s cfg xdr expected req now = Inr (Accepted tx) \<longleftrightarrow>
      validateSignedXdr s cfg xdr ?e now = Inr (tx, tx_hash tx)" for tx
    unfolding inspection_accepts validateSignedXdr_Inr by simp
  show "inspectSignedTransaction s cfg xdr expected req now = Inr (Accepted tx) \<longleftrightarrow>
      validateSignedXdr s cfg xdr ?e now = Inr (tx, tx_hash tx)"
    by (rule agree)
  assume r: "inspectSignedTransaction s cfg xdr expected req now = Inr (Rejected code field)"
  show "isRejectionCode code" using inspection_rejects [OF r] by simp
  show "\<exists>e. validateSignedXdr s cfg xdr ?e now = Inl e"
  proof (cases "validateSignedXdr s cfg xdr ?e now")
    case (Inr p)
    then have "validateSignedXdr s cfg xdr ?e now = Inr (fst p, tx_hash (fst p))"
      by (cases p) (simp add: validateSignedXdr_Inr)
    then show ?thesis using inspection_rejects [OF r] agree by blast
  qed simp
qed

text \<open>Its acceptance and rejection at concrete envelopes.\<close>

theorem inspection_agrees_witness:
  "inspectSignedTransaction demo_sdk demo_money_config ''signed'' demo_expected True 1000000 = Inr (Accepted demo_tx)
   \<and> inspectSignedTransaction demo_sdk demo_money_config ''signed'' (demo_expected\<lparr>pe_amount := ''11''\<rparr>) True 1000000
       = Inr (Rejected ''xdr_mismatch'' (Field F_amount))
   \<and> (\<exists>e. validateSignedXdr demo_sdk demo_money_config ''signed'' (demo_expected\<lparr>pe_amount := ''11''\<rparr>) 1000000 = Inl e)"
proof -
  have same: "e\<lparr>pe_skipSourceSignatureCheck := False\<rparr> = e" if "\<not> pe_skipSourceSignatureCheck e" for e :: payment_expectation
    using that by (cases e) simp
  have acc: "inspectSignedTransaction demo_sdk demo_money_config ''signed'' demo_expected True 1000000 = Inr (Accepted demo_tx)"
    using inspection_agrees [of demo_sdk demo_money_config "''signed''" demo_expected True 1000000 demo_tx, THEN conjunct1]
      demo_validated by (simp add: same demo_expected_def) (simp add: demo_tx_def)
  have rej: "inspectSignedTransaction demo_sdk demo_money_config ''signed'' (demo_expected\<lparr>pe_amount := ''11''\<rparr>) True 1000000
       = Inr (Rejected ''xdr_mismatch'' (Field F_amount))" by code_simp
  from inspection_agrees [of demo_sdk demo_money_config "''signed''" "demo_expected\<lparr>pe_amount := ''11''\<rparr>" True 1000000
      demo_tx "''xdr_mismatch''" "Field F_amount", THEN conjunct2, THEN mp, OF rej]
  have "\<exists>e. validateSignedXdr demo_sdk demo_money_config ''signed'' (demo_expected\<lparr>pe_amount := ''11''\<rparr>) 1000000 = Inl e"
    by (simp add: same demo_expected_def)
  with acc rej show ?thesis by blast
qed

section \<open>Multisig\<close>

lemma matched_signers_Inr:
  "matched_signers s signers hash sigs = Inr ks \<Longrightarrow>
   distinct ks \<and> set ks \<subseteq> set signers \<and> (\<forall>k \<in> set ks. \<exists>(hint, sig) \<in> set sigs. sdk_verify s k hash sig)
   \<and> (\<forall>(hint, sig) \<in> set sigs. \<exists>k \<in> set ks. sdk_verify s k hash sig)"
proof (induction s signers hash sigs arbitrary: ks rule: matched_signers.induct)
  case (2 s signers hash hint sig sigs)
  obtain k ks' where k: "List.find (\<lambda>k. sdk_hint s k \<noteq> None \<and> sdk_verify s k hash sig) signers = Some k"
      "matched_signers s signers hash sigs = Inr ks'" "ks = List.insert k ks'"
    using 2(2) by (auto simp: res_simps split: option.splits)
  have "k \<in> set signers" "sdk_verify s k hash sig"
    using k(1) by (auto simp: find_Some_iff in_set_conv_nth)
  with 2(1) [OF k(1,2)] k(3) show ?case by fastforce
qed simp

text \<open>The multisig check passes only for envelopes that enough distinct configured signers signed: then at
  least the threshold's number of different configured keys each verify one of the signatures, and no
  signature on the envelope belongs to anybody else.\<close>

theorem verifyMultisig_sound:
  assumes "verifyMultisig s tx requirement = Inr ()"
  shows "(\<exists>ks. distinct ks \<and> set ks \<subseteq> set (ms_signers requirement) \<and> ms_threshold requirement \<le> int (length ks)
      \<and> (\<forall>k \<in> set ks. \<exists>(hint, sig) \<in> set (tx_signatures tx). sdk_verify s k (tx_hash tx) sig))
    \<and> (\<forall>(hint, sig) \<in> set (tx_signatures tx). \<exists>k \<in> set (ms_signers requirement). sdk_verify s k (tx_hash tx) sig)"
proof -
  obtain ks where ks: "matched_signers s (ms_signers requirement) (tx_hash tx) (tx_signatures tx) = Inr ks"
      "ms_threshold requirement \<le> int (length ks)"
    using assms by (auto simp: verifyMultisig_def res_simps split: if_splits)
  from matched_signers_Inr [OF ks(1)] ks(2) show ?thesis by fast
qed

theorem verifyMultisig_sound_witness:
  "\<exists>ks. distinct ks \<and> set ks \<subseteq> {''GA'', ''GB'', ''GC''} \<and> 2 \<le> int (length ks)
     \<and> (\<forall>k \<in> set ks. \<exists>(hint, sig) \<in> set (tx_signatures demo_tx). sdk_verify demo_sdk k ''h1'' sig)"
proof -
  have "verifyMultisig demo_sdk demo_tx \<lparr>ms_signers = [''GA'', ''GB'', ''GC''], ms_threshold = 2\<rparr> = Inr ()" by code_simp
  from verifyMultisig_sound [OF this, THEN conjunct1] show ?thesis by (simp add: demo_tx_def)
qed

section \<open>Failover\<close>

lemma select_server_keeps: "quarantined_until st (ep_active st) \<le> now \<Longrightarrow> ep_active st < ep_count st \<Longrightarrow>
  select_server now st = st"
  by (simp add: select_server_def Let_def)

text \<open>The loop body when the active endpoint is available.\<close>

lemma failover_unfold:
  assumes "quarantined_until st (ep_active st) \<le> now" "ep_active st < ep_count st" "attempt < ep_count st"
  shows "failover_loop operation now attempt tried lastError st =
    (case operation attempt (ep_active st) of
       Success a \<Rightarrow> (Inr a, st, [ep_active st])
     | Failure status \<Rightarrow>
         let st2 = st\<lparr>ep_failedUntil := AList.update (ep_active st) (now + 30000) (ep_failedUntil st)\<rparr> in
         if \<not> isRetryableHorizonError status then (Inl status, st, [ep_active st])
         else case List.find (\<lambda>i. i \<notin> set (List.insert (ep_active st) tried) \<and> quarantined_until st2 i \<le> now) [0..<ep_count st2] of
             None \<Rightarrow> (Inl status, st2, [ep_active st])
           | Some j \<Rightarrow>
               let (r, st3, calls) = failover_loop operation now (Suc attempt) (List.insert (ep_active st) tried) status (st2\<lparr>ep_active := j\<rparr>)
               in (r, st3, ep_active st # calls))"
  using assms select_server_keeps [OF assms(1,2)] 
  by (simp add: Let_def failover_loop.simps [of operation now attempt tried lastError st]
      cong: horizon_result.case_cong option.case_cong if_cong)

lemma failover_distinct:
  assumes "quarantined_until st (ep_active st) \<le> now" "ep_active st < ep_count st" "ep_active st \<notin> set tried"
    "failover_loop operation now attempt tried lastError st = (r, st', calls)"
  shows "distinct calls \<and> set calls \<inter> set tried = {} \<and> set calls \<subseteq> {..<ep_count st} \<and>
    (\<forall>a. r = Inr a \<longrightarrow> (\<exists>k < length calls. operation (attempt + k) (calls ! k) = Success a))"
  using assms
proof (induction "ep_count st - attempt" arbitrary: attempt tried lastError st r st' calls rule: less_induct)
  case less
  let ?i = "ep_active st" and ?tried = "List.insert (ep_active st) tried"
  define st2 where "st2 = st\<lparr>ep_failedUntil := AList.update ?i (now + 30000) (ep_failedUntil st)\<rparr>"
  show ?case
  proof (cases "attempt < ep_count st")
    case False
    then show ?thesis using less.prems(4) by (auto simp: failover_loop.simps)
  next
    case True
    note U = less.prems(4) [unfolded failover_unfold [OF less.prems(1,2) True], folded st2_def]
    show ?thesis
    proof (cases "operation attempt ?i")
      case (Success a)
      then show ?thesis using U less.prems(2,3) by auto
    next
      case (Failure status)
      show ?thesis
      proof (cases "isRetryableHorizonError status \<and>
          List.find (\<lambda>j. j \<notin> set ?tried \<and> quarantined_until st2 j \<le> now) [0..<ep_count st2] \<noteq> None")
        case False
        then show ?thesis using U Failure less.prems(2,3) by (auto simp: Let_def split: if_splits)
      next
        case retry: True
        then obtain j where j: "List.find (\<lambda>j. j \<notin> set ?tried \<and> quarantined_until st2 j \<le> now) [0..<ep_count st2] = Some j"
          by blast
        then have j': "j \<notin> set ?tried" "quarantined_until st2 j \<le> now" "j < ep_count st"
          by (auto simp: find_Some_iff st2_def)
        obtain r1 st3 calls1 where rec: "failover_loop operation now (Suc attempt) ?tried status (st2\<lparr>ep_active := j\<rparr>) = (r1, st3, calls1)"
          by (metis prod_cases3)
        have out: "r = r1" "calls = ?i # calls1" using U Failure retry j rec by (auto simp: Let_def)
        have "distinct calls1 \<and> set calls1 \<inter> set ?tried = {} \<and> set calls1 \<subseteq> {..<ep_count (st2\<lparr>ep_active := j\<rparr>)} \<and>
            (\<forall>a. r1 = Inr a \<longrightarrow> (\<exists>k < length calls1. operation (Suc attempt + k) (calls1 ! k) = Success a))"
          using True j' by (intro less.hyps [OF _ _ _ _ rec]) (auto simp: st2_def quarantined_until_def)
        then show ?thesis using out less.prems(2,3) by (fastforce simp: st2_def)
      qed
    qed
  qed
qed

lemma failover_calls_bounded:
  "failover_loop operation now attempt tried lastError st = (r, st', calls) \<Longrightarrow> length calls \<le> ep_count st - attempt"
proof (induction "ep_count st - attempt" arbitrary: attempt tried lastError st r st' calls rule: less_induct)
  case less
  have c: "ep_count (select_server now st) = ep_count st" by (simp add: select_server_def Let_def)
  note U = less.prems [unfolded failover_loop.simps [of operation now attempt tried lastError st] Let_def]
  show ?case
  proof (cases "attempt < ep_count st \<and> 1 < length calls")
    case True
    then obtain tried1 status st1 r1 calls1 where
      rec: "failover_loop operation now (Suc attempt) tried1 status st1 = (r1, st', calls1)"
      and eqs: "calls = ep_active (select_server now st) # calls1" "ep_count st1 = ep_count st"
      using U True by (auto simp: c split: if_splits horizon_result.splits option.splits prod.splits)
    have "length calls1 \<le> ep_count st - Suc attempt"
      using less.hyps [OF _ rec] True eqs(2) by (simp add: diff_less_mono2)
    then show ?thesis using True eqs(1) by auto
  next
    case False
    moreover have "calls = []" if "\<not> attempt < ep_count st" using U that by auto
    ultimately show ?thesis by (cases "attempt < ep_count st") auto
  qed
qed

text \<open>C37. Failover is bounded and, when the preferred endpoint is not quarantined, tries no endpoint twice: a call
  makes at most one attempt per configured endpoint, and a result it returns is the result of one of
  these attempts.\<close>

theorem failover_bounded:
  assumes "withHorizonFailover operation now st = (r, st', calls)"
  shows "length calls \<le> ep_count st \<and>
    (quarantined_until st (ep_active st) \<le> now \<and> ep_active st < ep_count st \<longrightarrow>
       distinct calls \<and> set calls \<subseteq> {..<ep_count st} \<and>
       (\<forall>a. r = Inr a \<longrightarrow> (\<exists>k < length calls. operation k (calls ! k) = Success a)))"
proof -
  have run: "failover_loop operation now 0 [] None st = (r, st', calls)"
    using assms by (simp only: withHorizonFailover_def)
  show ?thesis
    using failover_calls_bounded [OF run] failover_distinct [OF _ _ _ run] by simp
qed

definition fresh_endpoints :: endpoints where
  "fresh_endpoints = \<lparr>ep_count = 2, ep_active = 0, ep_failedUntil = []\<rparr>"

definition only_second :: "nat \<Rightarrow> nat \<Rightarrow> nat horizon_result" where
  "only_second attempt i = (if i = 1 then Success 7 else Failure (Some 503))"

theorem failover_bounded_witness:
  "\<exists>st' calls. withHorizonFailover only_second 5 fresh_endpoints = (Inr 7, st', calls) \<and> distinct calls \<and> length calls \<le> 2"
proof -
  obtain r st' calls where run: "withHorizonFailover only_second 5 fresh_endpoints = (r, st', calls)" by (metis prod_cases3)
  have "fst (withHorizonFailover only_second 5 fresh_endpoints) = Inr 7" by code_simp
  then have "r = Inr 7" by (simp add: run)
  with failover_bounded [OF run] run show ?thesis
    by (auto simp: fresh_endpoints_def quarantined_until_def)
qed

text \<open>A defect of the failover: an endpoint is recorded as tried and quarantined before the endpoint to call is
  chosen, so when the preferred endpoint is quarantined the wrong one is recorded. Starting from fresh
  endpoints, after an outage of the first and then of the second, the next call goes to the first
  endpoint twice and quarantines the second, which it never called.\<close>

theorem failover_repeats_endpoint:
  "let st1 = fst (snd (withHorizonFailover only_second 1000 fresh_endpoints));
       st2 = fst (snd (withHorizonFailover (\<lambda>_ _. Failure (Some 503) :: nat horizon_result) 11000 st1));
       (r, st3, calls) = withHorizonFailover (\<lambda>_ _. Failure (Some 503) :: nat horizon_result) 36000 st2
   in calls = [0, 0] \<and> quarantined_until st2 1 = 41000 \<and> quarantined_until st3 1 = 66000"
  by code_simp

end
