(* ===== verification/Treasury_Config.thy ===== *)
theory Treasury_Config
  imports Stellar_Payment
begin

text \<open>
  The signer configuration of a group treasury: \<^verbatim>\<open>src/src/services/treasury-policy.ts\<close>,
  \<^verbatim>\<open>treasury-validation.ts\<close>, \<^verbatim>\<open>treasury-multisig-verification.ts\<close> and the envelope policy of
  \<^verbatim>\<open>treasury-stellar.ts\<close>. The account snapshot that \<^verbatim>\<open>stellar.loadAccount\<close> returns is an argument.

  The lemmas say what a configuration, a policy check, a verification result and an accepted
  treasury envelope guarantee.
\<close>

section \<open>Snapshots\<close>

record account_balance =
  ab_assetCode :: string
  ab_assetIssuer :: "string option"
  ab_balance :: string

record thresholds =
  th_low :: rat
  th_med :: rat
  th_high :: rat

record account_snapshot =
  sn_exists :: bool
  sn_sequence :: string
  sn_balances :: "account_balance list"
  sn_signers :: "(string \<times> rat) list"
  sn_thresholds :: thresholds

text \<open>\<^verbatim>\<open>new Map(pairs)\<close>: a later pair replaces an earlier one.\<close>

definition js_map :: "('k \<times> 'v) list \<Rightarrow> 'k \<Rightarrow> 'v option" where
  "js_map ps k = map_of (rev ps) k"

text \<open>\<^verbatim>\<open>[...new Set(xs)]\<close>: first occurrences, in order.\<close>

definition js_set :: "'a list \<Rightarrow> 'a list" where
  "js_set xs = rev (remdups (rev xs))"

lemma js_set_set [simp]: "set (js_set xs) = set xs" "distinct (js_set xs)"
  by (simp_all add: js_set_def)

definition is_integral :: "rat \<Rightarrow> bool" where
  "is_integral q = (of_int \<lfloor>q\<rfloor> = q)"

section \<open>The on-chain policy\<close>

definition signer_ok :: "string \<Rightarrow> string list \<Rightarrow> string \<times> rat \<Rightarrow> bool" where
  "signer_ok treasuryKey expected signer =
     (if fst signer = treasuryKey then snd signer = 0
      else \<not> (fst signer \<notin> set expected \<and> snd signer > 0))"

text \<open>The member keys are the persisted policy; empty keys are dropped and the \<^verbatim>\<open>Set\<close> removes duplicates.\<close>

definition expected_signers :: "string list \<Rightarrow> string list" where
  "expected_signers memberKeys = js_set (filter (\<lambda>k. k \<noteq> []) memberKeys)"

definition assertTreasuryPolicy :: "string list \<Rightarrow> string \<Rightarrow> rat \<Rightarrow> account_snapshot \<Rightarrow> unit res" where
  "assertTreasuryPolicy memberKeys treasuryKey requiredSigners snapshot =
     (let expected = expected_signers memberKeys;
          weight = js_map (sn_signers snapshot);
          high = th_high (sn_thresholds snapshot)
      in
      if \<not> sn_exists snapshot then Inl (AppError 400 ''TREASURY_UNFUNDED'')
      else if \<not> is_integral requiredSigners \<or> requiredSigners < 1 then Inl (AppError 400 ''INVALID_TREASURY_POLICY'')
      else if high \<noteq> requiredSigners then Inl (AppError 400 ''STALE_TREASURY_POLICY'')
      else if expected = [] then Inl (AppError 400 ''INVALID_TREASURY_POLICY'')
      else if \<not> list_all (signer_ok treasuryKey expected) (sn_signers snapshot) then Inl (AppError 400 ''STALE_TREASURY_POLICY'')
      else if \<not> list_all (\<lambda>k. case weight k of Some w \<Rightarrow> 0 < w | None \<Rightarrow> False) expected
      then Inl (AppError 400 ''STALE_TREASURY_POLICY'')
      else if sum_list (map (\<lambda>k. the (weight k)) expected) < high
      then Inl (AppError 400 ''INSUFFICIENT_TREASURY_WEIGHT'')
      else Inr ())"

section \<open>Proposed signer configurations\<close>

record signer_config =
  sc_signers :: "(string \<times> rat) list"
  sc_thresholds :: thresholds

definition isValidSignerWeight :: "rat \<Rightarrow> bool" where
  "isValidSignerWeight w = (is_integral w \<and> 0 \<le> w \<and> w \<le> 255)"

definition isValidThreshold :: "rat \<Rightarrow> bool" where
  "isValidThreshold t = (is_integral t \<and> 0 \<le> t \<and> t \<le> 255)"

fun has_duplicates :: "string list \<Rightarrow> string list \<Rightarrow> bool" where
  "has_duplicates keys [] = False"
| "has_duplicates keys (k # ks) = (if k \<in> set keys then True else has_duplicates (k # keys) ks)"

definition hasDuplicateSigners :: "(string \<times> rat) list \<Rightarrow> bool" where
  "hasDuplicateSigners signers = has_duplicates [] (map fst signers)"

definition canSatisfyThreshold :: "signer_config \<Rightarrow> bool" where
  "canSatisfyThreshold c = (sum_list (map snd (sc_signers c)) \<ge> th_high (sc_thresholds c))"

datatype config_error =
    Invalid_weight string | Duplicate_keys | Invalid_low | Invalid_medium | Invalid_high
  | Low_exceeds_medium | Medium_exceeds_high | Insufficient_weights | Not_on_account string | Invalid_key string

definition validateProposedSignerConfig ::
  "(string \<Rightarrow> bool) \<Rightarrow> signer_config \<Rightarrow> account_snapshot option \<Rightarrow> config_error list" where
  "validateProposedSignerConfig validKey c current =
     (let th = sc_thresholds c; keys = map fst (sc_signers c) in
      map (\<lambda>sg. Invalid_weight (fst sg)) (filter (\<lambda>sg. \<not> isValidSignerWeight (snd sg)) (sc_signers c))
      @ (if hasDuplicateSigners (sc_signers c) then [Duplicate_keys] else [])
      @ (if \<not> isValidThreshold (th_low th) then [Invalid_low] else [])
      @ (if \<not> isValidThreshold (th_med th) then [Invalid_medium] else [])
      @ (if \<not> isValidThreshold (th_high th) then [Invalid_high] else [])
      @ (if th_low th > th_med th then [Low_exceeds_medium] else [])
      @ (if th_med th > th_high th then [Medium_exceeds_high] else [])
      @ (if \<not> canSatisfyThreshold c then [Insufficient_weights] else [])
      @ (case current of
           Some sn \<Rightarrow>
             if sn_exists sn then
               (let currentKeys = map fst (sn_signers sn) in
                map Not_on_account (filter (\<lambda>k. k \<notin> set currentKeys) (js_set keys))
                @ map Invalid_key (filter (\<lambda>k. k \<notin> set currentKeys \<and> \<not> validKey k) keys))
             else map Invalid_key (filter (\<lambda>k. \<not> validKey k) keys)
         | None \<Rightarrow> map Invalid_key (filter (\<lambda>k. \<not> validKey k) keys)))"

definition validateSignerChangeAgainstAccount :: "(string \<Rightarrow> bool) \<Rightarrow> signer_config \<Rightarrow> account_snapshot \<Rightarrow> unit res" where
  "validateSignerChangeAgainstAccount validKey c current =
     (if \<not> sn_exists current then Inl (AppError 400 ''ACCOUNT_UNFUNDED'')
      else if validateProposedSignerConfig validKey c (Some current) \<noteq> [] then Inl (AppError 400 ''INVALID_SIGNER_CONFIG'')
      else if th_high (sc_thresholds c) \<noteq> th_high (sn_thresholds current) then Inl (AppError 400 ''THRESHOLD_MISMATCH'')
      else Inr ())"

definition snapshotToSignerConfig :: "account_snapshot \<Rightarrow> signer_config" where
  "snapshotToSignerConfig sn = \<lparr>sc_signers = sn_signers sn, sc_thresholds = sn_thresholds sn\<rparr>"

section \<open>The proposal status machine\<close>

definition TERMINAL_PROPOSAL_STATUSES :: "string list" where
  "TERMINAL_PROPOSAL_STATUSES = [''confirmed'', ''failed'', ''rejected'']"

definition VALID_PROPOSAL_STATUS_TRANSITIONS :: "(string \<times> string list) list" where
  "VALID_PROPOSAL_STATUS_TRANSITIONS =
     [(''pending'', [''awaiting_signatures'', ''ready'', ''submitted'', ''failed'', ''rejected'']),
      (''awaiting_signatures'', [''ready'', ''submitted'', ''failed'', ''rejected'']),
      (''ready'', [''submitted'', ''failed'', ''rejected'']),
      (''submitted'', [''confirmed'', ''failed'']),
      (''confirmed'', []), (''failed'', []), (''rejected'', [])]"

definition canTransitionProposalStatus :: "string \<Rightarrow> string \<Rightarrow> bool" where
  "canTransitionProposalStatus fromStatus toStatus =
     (case map_of VALID_PROPOSAL_STATUS_TRANSITIONS (to_lower fromStatus) of
        Some allowed \<Rightarrow> to_lower toStatus \<in> set allowed
      | None \<Rightarrow> False)"

definition assertValidProposalTransition :: "string \<Rightarrow> string \<Rightarrow> unit res" where
  "assertValidProposalTransition fromStatus toStatus =
     (if to_lower fromStatus \<in> set TERMINAL_PROPOSAL_STATUSES then Inl (AppError 409 ''PROPOSAL_TERMINAL_STATE'')
      else if \<not> canTransitionProposalStatus (to_lower fromStatus) (to_lower toStatus)
      then Inl (AppError 409 ''INVALID_STATE_TRANSITION'')
      else Inr ())"

definition assertCanAcceptSignatures :: "string \<Rightarrow> unit res" where
  "assertCanAcceptSignatures status =
     (let normalized = to_lower status in
      if normalized = ''submitted'' \<or> normalized = ''confirmed'' then Inl (AppError 409 ''ALREADY_SUBMITTED'')
      else if normalized = ''failed'' \<or> normalized = ''rejected'' then Inl (AppError 409 ''PROPOSAL_FAILED'')
      else if normalized \<notin> {''pending'', ''awaiting_signatures'', ''ready''} then Inl (AppError 409 ''INVALID_PROPOSAL_STATE'')
      else Inr ())"

definition assertUniqueSignerSubmission :: "string list \<Rightarrow> string \<Rightarrow> unit res" where
  "assertUniqueSignerSubmission existing k =
     (if k \<in> set existing then Inl (AppError 409 ''DUPLICATE_SIGNER_SIGNATURE'') else Inr ())"

definition assertProposalExecutionThreshold :: "rat \<Rightarrow> rat \<Rightarrow> unit res" where
  "assertProposalExecutionThreshold accumulated required =
     (if accumulated < required then Inl (AppError 400 ''THRESHOLD_UNMET'') else Inr ())"

section \<open>Verification of a partially signed envelope\<close>

record verified_signature =
  vs_publicKey :: string
  vs_weight :: rat
  vs_verified :: bool

record multisig_verification =
  mv_meetsThreshold :: bool
  mv_totalWeight :: rat
  mv_requiredWeight :: rat
  mv_signatureCount :: nat
  mv_signatures :: "verified_signature list"
  mv_sourceAccount :: string

definition inspect_signature :: "sdk \<Rightarrow> string list \<Rightarrow> (string \<Rightarrow> rat option) \<Rightarrow> string \<Rightarrow> string \<times> string \<Rightarrow> verified_signature" where
  "inspect_signature s authorized weight hash d =
     (case List.find (\<lambda>k. sdk_hint s k = Some (fst d)) authorized of
        None \<Rightarrow> \<lparr>vs_publicKey = ''unknown'', vs_weight = 0, vs_verified = False\<rparr>
      | Some k \<Rightarrow> \<lparr>vs_publicKey = k, vs_weight = (case weight k of Some w \<Rightarrow> w | None \<Rightarrow> 0),
                   vs_verified = sdk_verify s k hash (snd d)\<rparr>)"

text \<open>The map of verified keys to their weight; a key is entered only with a positive weight.\<close>

definition add_verified :: "verified_signature \<Rightarrow> (string \<times> rat) list \<Rightarrow> (string \<times> rat) list" where
  "add_verified v m =
     (if vs_verified v \<and> vs_publicKey v \<noteq> ''unknown'' then
        (let existing = (case map_of m (vs_publicKey v) of Some w \<Rightarrow> w | None \<Rightarrow> 0) in
         if vs_weight v > existing then AList.update (vs_publicKey v) (vs_weight v) m else m)
      else m)"

definition verifyMultisigSignatures ::
  "sdk \<Rightarrow> (string \<Rightarrow> account_snapshot) \<Rightarrow> string \<Rightarrow> string \<Rightarrow> string list \<Rightarrow> multisig_verification res" where
  "verifyMultisigSignatures s loadAccount xdr treasuryKey authorized =
     (case sdk_transaction s xdr of
        None \<Rightarrow> Inl (AppError 400 ''XDR_PARSE_FAILED'')
      | Some tx \<Rightarrow>
          if tx_source tx \<noteq> treasuryKey then Inl (AppError 400 ''SOURCE_ACCOUNT_MISMATCH'')
          else
            let account = loadAccount treasuryKey in
            if \<not> sn_exists account then Inl (AppError 400 ''TREASURY_UNFUNDED'')
            else
              let requiredWeight = th_high (sn_thresholds account);
                  signatures = map (inspect_signature s authorized (js_map (sn_signers account)) (tx_hash tx)) (tx_signatures tx);
                  totalWeight = sum_list (map snd (fold add_verified signatures []))
              in Inr \<lparr>mv_meetsThreshold = (totalWeight \<ge> requiredWeight), mv_totalWeight = totalWeight,
                      mv_requiredWeight = requiredWeight, mv_signatureCount = length (filter vs_verified signatures),
                      mv_signatures = signatures, mv_sourceAccount = tx_source tx\<rparr>)"

definition analyzeMultisigRequirements ::
  "sdk \<Rightarrow> (string \<Rightarrow> account_snapshot) \<Rightarrow> string \<Rightarrow> string \<Rightarrow> (rat \<times> string \<times> (string \<times> rat) list) res" where
  "analyzeMultisigRequirements s loadAccount xdr treasuryKey =
     (case sdk_transaction s xdr of
        None \<Rightarrow> Inl (AppError 400 ''XDR_PARSE_FAILED'')
      | Some tx \<Rightarrow>
          if tx_source tx \<noteq> treasuryKey then Inl (AppError 400 ''SOURCE_ACCOUNT_MISMATCH'')
          else
            let account = loadAccount treasuryKey in
            if \<not> sn_exists account then Inl (AppError 400 ''TREASURY_UNFUNDED'')
            else Inr (th_high (sn_thresholds account), tx_source tx, sn_signers account))"

section \<open>The treasury envelope policy\<close>

definition MAX_TREASURY_OPERATIONS :: nat where "MAX_TREASURY_OPERATIONS = 10"

definition POSITIVE_AMOUNT_OPERATIONS :: "string list" where
  "POSITIVE_AMOUNT_OPERATIONS = [''payment'']"

definition ACCOUNT_DESTINATION_OPERATIONS :: "string list" where
  "ACCOUNT_DESTINATION_OPERATIONS = [''payment'', ''createAccount'', ''accountMerge'']"

text \<open>The rule that rejected an envelope; the HTTP error is 400 \<^verbatim>\<open>XDR_MISMATCH\<close> for all of them.\<close>

datatype policy_rule = R_fee_bump | R_source_account | R_operations | R_operation_source | R_operation_amount
  | R_operation_destination | R_fee

datatype policy_error = Policy policy_rule | Thrown exn

record envelope_policy =
  ep_treasuryAccountPublicKey :: string
  ep_maxOperations :: "nat option"
  ep_maxFeeStroops :: "int option"

definition or_empty :: "string option \<Rightarrow> string" where
  "or_empty x = (case x of Some v \<Rightarrow> v | None \<Rightarrow> [])"

definition operation_rule :: "sdk \<Rightarrow> string \<Rightarrow> operation \<Rightarrow> policy_rule option" where
  "operation_rule s treasuryKey oper =
     (if truthy (op_source oper) \<and> op_source oper \<noteq> Some treasuryKey then Some R_operation_source
      else if op_type oper \<in> set POSITIVE_AMOUNT_OPERATIONS \<and> isl (validateAmount (or_empty (op_amount oper)))
      then Some R_operation_amount
      else if op_type oper \<in> set ACCOUNT_DESTINATION_OPERATIONS \<and>
        \<not> sdk_publicKey s (or_empty (op_destination oper)) \<and> \<not> sdk_muxedKey s (or_empty (op_destination oper))
      then Some R_operation_destination
      else None)"

definition first_rule :: "sdk \<Rightarrow> string \<Rightarrow> operation list \<Rightarrow> policy_rule option" where
  "first_rule s treasuryKey opers = fold (\<lambda>oper r. case r of Some x \<Rightarrow> Some x | None \<Rightarrow> operation_rule s treasuryKey oper) opers None"

definition parseTreasuryXdr :: "sdk \<Rightarrow> string \<Rightarrow> policy_error + envelope" where
  "parseTreasuryXdr s xdr =
     (case sdk_fromXDR s xdr of
        None \<Rightarrow> Inl (Thrown (AppError 400 ''XDR_MALFORMED''))
      | Some Fee_bump \<Rightarrow> Inl (Policy R_fee_bump)
      | Some (Plain tx) \<Rightarrow> Inr tx)"

definition assertTreasuryEnvelopePolicy ::
  "sdk \<Rightarrow> envelope \<Rightarrow> envelope_policy \<Rightarrow> int \<Rightarrow> policy_error + (string list \<times> rat)" where
  "assertTreasuryEnvelopePolicy s tx policy now =
     (let n = length (tx_operations tx);
          treasuryKey = ep_treasuryAccountPublicKey policy;
          maxOperations = (case ep_maxOperations policy of Some m \<Rightarrow> m | None \<Rightarrow> MAX_TREASURY_OPERATIONS);
          maxFee = (case ep_maxFeeStroops policy of Some m \<Rightarrow> m | None \<Rightarrow> MAX_FEE_STROOPS_PER_OP s * int n)
      in
      if tx_source tx \<noteq> treasuryKey then Inl (Policy R_source_account)
      else if n = 0 then Inl (Policy R_operations)
      else if maxOperations < n then Inl (Policy R_operations)
      else case first_rule s treasuryKey (tx_operations tx) of
        Some r \<Rightarrow> Inl (Policy r)
      | None \<Rightarrow>
          (case tx_fee tx of
             Fin fee \<Rightarrow>
               if fee < of_int (MIN_FEE_STROOPS_PER_OP s * int n) then Inl (Policy R_fee)
               else if fee > of_int maxFee then Inl (Policy R_fee)
               else (case assertTimeBoundsValid tx None now of
                       Inl e \<Rightarrow> Inl (Thrown e)
                     | Inr _ \<Rightarrow> Inr (map op_type (tx_operations tx), fee))
           | _ \<Rightarrow> Inl (Policy R_fee)))"

definition inspectTreasuryXdr :: "sdk \<Rightarrow> string \<Rightarrow> envelope_policy \<Rightarrow> int \<Rightarrow> policy_error + (string list \<times> rat)" where
  "inspectTreasuryXdr s xdr policy now =
     res_bind (parseTreasuryXdr s xdr) (\<lambda>tx. assertTreasuryEnvelopePolicy s tx policy now)"

definition policy_exn :: "policy_error \<Rightarrow> exn" where
  "policy_exn e = (case e of Policy _ \<Rightarrow> AppError 400 ''XDR_MISMATCH'' | Thrown x \<Rightarrow> x)"

definition assertSignedXdrMatchesIntent :: "sdk \<Rightarrow> string \<Rightarrow> string \<Rightarrow> unit res" where
  "assertSignedXdrMatchesIntent s signedXdr intendedTxHash =
     (case hashOf s signedXdr of
        Inl (AppError st c) \<Rightarrow> Inl (AppError st c)
      | Inl _ \<Rightarrow> Inl (AppError 400 ''XDR_MALFORMED'')
      | Inr h \<Rightarrow> if h \<noteq> intendedTxHash then Inl (AppError 400 ''XDR_MISMATCH'') else Inr ())"

definition getTreasuryMultisigRequirement :: "(string \<Rightarrow> account_snapshot) \<Rightarrow> string \<Rightarrow> int \<Rightarrow> multisig_requirement res" where
  "getTreasuryMultisigRequirement loadAccount publicKey requiredSigners =
     (let account = loadAccount publicKey in
      if \<not> sn_exists account then Inl (AppError 400 ''TREASURY_UNFUNDED'')
      else Inr \<lparr>ms_signers = map fst (sn_signers account), ms_threshold = requiredSigners\<rparr>)"

section \<open>Properties of the configuration\<close>

lemma has_duplicates_iff: "has_duplicates seen ks \<longleftrightarrow> \<not> (distinct ks \<and> set ks \<inter> set seen = {})"
  by (induction ks arbitrary: seen) auto

lemma js_map_keyed:
  assumes "distinct (map fst ps)"
  shows "js_map ps k = map_of ps k"
  unfolding js_map_def using assms by (metis map_of_inject_set rev_map distinct_rev set_rev)


definition demo_account :: account_snapshot where
  "demo_account =
     \<lparr>sn_exists = True, sn_sequence = ''7'', sn_balances = [],
      sn_signers = [(''GT'', 0), (''GA'', 1), (''GC'', 1)], sn_thresholds = \<lparr>th_low = 1, th_med = 1, th_high = 2\<rparr>\<rparr>"


lemma integral_bounds: "is_integral q \<and> 0 \<le> q \<and> q \<le> 255 \<longleftrightarrow> (\<exists>n::nat. n \<le> 255 \<and> q = of_nat n)"
proof
  assume q: "is_integral q \<and> 0 \<le> q \<and> q \<le> 255"
  then have eq: "q = of_int \<lfloor>q\<rfloor>" unfolding is_integral_def by metis
  have "0 \<le> \<lfloor>q\<rfloor>" "\<lfloor>q\<rfloor> \<le> 255" using q by (auto simp: le_floor_iff floor_le_iff)
  then have "nat \<lfloor>q\<rfloor> \<le> 255" "(of_nat (nat \<lfloor>q\<rfloor>) :: rat) = of_int \<lfloor>q\<rfloor>" by linarith+
  with eq show "\<exists>n::nat. n \<le> 255 \<and> q = of_nat n" by metis
qed (auto simp: is_integral_def intro: of_int_of_nat_eq [symmetric] exI [of _ "int n" for n])

lemma if_singleton_Nil: "(if b then [x] else []) = [] \<longleftrightarrow> \<not> b"
  by simp

lemma threshold_order:
  "(isValidThreshold lo \<and> isValidThreshold me \<and> isValidThreshold hi \<and> lo \<le> me \<and> me \<le> hi) \<longleftrightarrow>
   (\<exists>(l::nat) (m::nat) (h::nat). l \<le> m \<and> m \<le> h \<and> h \<le> 255
      \<and> \<lparr>th_low = lo, th_med = me, th_high = hi\<rparr> = \<lparr>th_low = of_nat l, th_med = of_nat m, th_high = of_nat h\<rparr>)"
  (is "?L \<longleftrightarrow> ?R")
proof
  assume ?L
  then obtain l m h :: nat where "lo = of_nat l" "me = of_nat m" "hi = of_nat h" "h \<le> 255"
    unfolding isValidThreshold_def integral_bounds by blast
  with \<open>?L\<close> show ?R by (intro exI [of _ l] exI [of _ m] exI [of _ h]) simp
next
  assume ?R
  then obtain l m h :: nat where *: "lo = of_nat l" "me = of_nat m" "hi = of_nat h" "l \<le> m" "m \<le> h" "h \<le> 255" by auto
  then have "l \<le> 255" "m \<le> 255" by linarith+
  with * show ?L unfolding isValidThreshold_def integral_bounds by (metis of_nat_le_iff)
qed

lemma validateProposedSignerConfig_no_errors:
  assumes "sn_exists current"
  shows "validateProposedSignerConfig validKey c (Some current) = [] \<longleftrightarrow>
    (\<forall>(k, w) \<in> set (sc_signers c). isValidSignerWeight w) \<and> distinct (map fst (sc_signers c))
    \<and> (isValidThreshold (th_low (sc_thresholds c)) \<and> isValidThreshold (th_med (sc_thresholds c))
       \<and> isValidThreshold (th_high (sc_thresholds c))
       \<and> th_low (sc_thresholds c) \<le> th_med (sc_thresholds c) \<and> th_med (sc_thresholds c) \<le> th_high (sc_thresholds c))
    \<and> th_high (sc_thresholds c) \<le> sum_list (map snd (sc_signers c))
    \<and> fst ` set (sc_signers c) \<subseteq> fst ` set (sn_signers current)"
proof -
  have weights: "filter (\<lambda>sg. \<not> isValidSignerWeight (snd sg)) (sc_signers c) = []
    \<longleftrightarrow> (\<forall>(k, w) \<in> set (sc_signers c). isValidSignerWeight w)"
    by (auto simp: filter_empty_conv)
  have known: "filter (\<lambda>k. k \<notin> set (map fst (sn_signers current))) (js_set (map fst (sc_signers c))) = []
      \<and> filter (\<lambda>k. k \<notin> set (map fst (sn_signers current)) \<and> \<not> validKey k) (map fst (sc_signers c)) = []
    \<longleftrightarrow> fst ` set (sc_signers c) \<subseteq> fst ` set (sn_signers current)"
    unfolding filter_empty_conv js_set_set set_map by blast
  have dups: "\<not> has_duplicates [] (map fst (sc_signers c)) \<longleftrightarrow> distinct (map fst (sc_signers c))"
    by (simp add: has_duplicates_iff)
  show ?thesis
    unfolding validateProposedSignerConfig_def Let_def append_is_Nil_conv if_singleton_Nil option.case if_P [OF assms]
      map_is_Nil_conv weights known dups hasDuplicateSigners_def canSatisfyThreshold_def not_less not_not
    by (simp only: conj_assoc)
qed

text \<open>C34. The signer configurations that validate, against a funded account, are exactly the workable ones on that
  account: whole weights and thresholds from 0 to 255, no key twice, low at most medium at most high, enough
  total weight for the high threshold, and only keys the account already lists.\<close>

theorem validateProposedSignerConfig_iff:
  assumes "sn_exists current"
  shows "validateProposedSignerConfig validKey c (Some current) = [] \<longleftrightarrow>
    (\<forall>(k, w) \<in> set (sc_signers c). \<exists>n::nat. n \<le> 255 \<and> w = of_nat n)
    \<and> distinct (map fst (sc_signers c))
    \<and> (\<exists>(l::nat) (m::nat) (h::nat). l \<le> m \<and> m \<le> h \<and> h \<le> 255
         \<and> sc_thresholds c = \<lparr>th_low = of_nat l, th_med = of_nat m, th_high = of_nat h\<rparr>)
    \<and> th_high (sc_thresholds c) \<le> sum_list (map snd (sc_signers c))
    \<and> fst ` set (sc_signers c) \<subseteq> fst ` set (sn_signers current)"
proof -
  obtain lo me hi where th: "sc_thresholds c = \<lparr>th_low = lo, th_med = me, th_high = hi\<rparr>"
    by (cases "sc_thresholds c") auto
  show ?thesis
    unfolding validateProposedSignerConfig_no_errors [OF assms] th thresholds.simps threshold_order isValidSignerWeight_def integral_bounds
    by simp
qed

theorem validateProposedSignerConfig_iff_witness:
  "validateProposedSignerConfig (\<lambda>_. True) \<lparr>sc_signers = [(''GA'', 1), (''GC'', 2)],
      sc_thresholds = \<lparr>th_low = 0, th_med = 1, th_high = 3\<rparr>\<rparr> (Some demo_account) = []"
proof -
  have "\<exists>(l::nat) (m::nat) (h::nat). l \<le> m \<and> m \<le> h \<and> h \<le> 255 \<and> (0::rat) = of_nat l \<and> (1::rat) = of_nat m \<and> (3::rat) = of_nat h"
    by (rule exI [of _ 0], rule exI [of _ 1], rule exI [of _ 3]) simp
  moreover have "\<exists>n::nat. n \<le> 255 \<and> (1::rat) = of_nat n" "\<exists>n::nat. n \<le> 255 \<and> (2::rat) = of_nat n"
    by (rule exI [of _ 1], simp) (rule exI [of _ 2], simp)
  moreover have "sn_exists demo_account" by (simp add: demo_account_def)
  ultimately show ?thesis by (subst validateProposedSignerConfig_iff) (auto simp: demo_account_def)
qed

section \<open>Properties of verification\<close>

lemma sum_list_alist:
  assumes "distinct (map fst m)"
  shows "sum_list (map snd m) = (\<Sum>k \<in> fst ` set m. the (map_of m k))"
  using assms
proof (induction m)
  case (Cons p m)
  have "(\<Sum>k \<in> fst ` set m. the (map_of (p # m) k)) = (\<Sum>k \<in> fst ` set m. the (map_of m k))"
  proof (intro sum.cong refl)
    fix k assume "k \<in> fst ` set m"
    then have "k \<noteq> fst p" using Cons.prems by (metis distinct.simps(2) list.set_map list.simps(9))
    then show "the (map_of (p # m) k) = the (map_of m k)" by simp
  qed
  with Cons show ?case by (cases p) auto
qed simp

definition counted :: "(string \<Rightarrow> rat) \<Rightarrow> verified_signature list \<Rightarrow> string set" where
  "counted W vs = {vs_publicKey v | v. v \<in> set vs \<and> vs_verified v \<and> vs_publicKey v \<noteq> ''unknown'' \<and> 0 < W (vs_publicKey v)}"

lemma counted_Cons:
  "counted W (v # vs) =
     (if vs_verified v \<and> vs_publicKey v \<noteq> ''unknown'' \<and> 0 < W (vs_publicKey v) then insert (vs_publicKey v) (counted W vs)
      else counted W vs)"
  by (auto simp: counted_def)

lemma fold_add_verified:
  assumes "\<forall>v \<in> set vs. vs_publicKey v \<noteq> ''unknown'' \<longrightarrow> vs_weight v = W (vs_publicKey v)"
    and "distinct (map fst m)" "\<forall>k w. map_of m k = Some w \<longrightarrow> w = W k \<and> 0 < w"
  shows "distinct (map fst (fold add_verified vs m))"
    and "map_of (fold add_verified vs m) = (\<lambda>k. if k \<in> counted W vs \<union> fst ` set m then Some (W k) else None)"
proof -
  have "distinct (map fst (fold add_verified vs m))
    \<and> (\<forall>k. map_of (fold add_verified vs m) k = (if k \<in> counted W vs \<union> fst ` set m then Some (W k) else None))"
    using assms
  proof (induction vs arbitrary: m)
    case Nil
    have "map_of m k = (if k \<in> fst ` set m then Some (W k) else None)" for k
    proof (cases "map_of m k")
      case None
      then show ?thesis by (simp add: map_of_eq_None_iff)
    next
      case (Some w)
      then have "k \<in> fst ` set m" by (metis domI dom_map_of_conv_image_fst)
      with Some Nil.prems(3) show ?thesis by auto
    qed
    moreover have "counted W [] = {}" by (simp add: counted_def)
    ultimately show ?case using Nil.prems(2) by simp
  next
    case (Cons v vs)
    show ?case
    proof (cases "vs_verified v \<and> vs_publicKey v \<noteq> ''unknown'' \<and> map_of m (vs_publicKey v) = None \<and> 0 < W (vs_publicKey v)")
      case True
      have step: "add_verified v m = AList.update (vs_publicKey v) (W (vs_publicKey v)) m"
        using True Cons.prems(1) by (simp add: add_verified_def)
      have "\<forall>k w. map_of (add_verified v m) k = Some w \<longrightarrow> w = W k \<and> 0 < w"
        using Cons.prems(3) True by (auto simp: step update_conv' split: if_splits)
      moreover have "distinct (map fst (add_verified v m))" using Cons.prems(2) by (simp add: step distinct_update)
      moreover have "counted W (v # vs) \<union> fst ` set m = counted W vs \<union> fst ` set (add_verified v m)"
        using True by (simp add: step counted_Cons dom_update)
      ultimately show ?thesis using Cons.IH [of "add_verified v m"] Cons.prems(1) by simp
    next
      case False
      then have step: "add_verified v m = m"
        using Cons.prems by (auto simp: add_verified_def split: option.splits)
      have "vs_publicKey v \<in> fst ` set m" if "map_of m (vs_publicKey v) \<noteq> None"
        using that by (simp add: map_of_eq_None_iff)
      then have "counted W (v # vs) \<union> fst ` set m = counted W vs \<union> fst ` set m"
        using False unfolding counted_Cons by auto
      then show ?thesis using Cons.IH [of m] Cons.prems by (simp add: step)
    qed
  qed
  then show "distinct (map fst (fold add_verified vs m))"
    and "map_of (fold add_verified vs m) = (\<lambda>k. if k \<in> counted W vs \<union> fst ` set m then Some (W k) else None)"
    by (auto intro!: ext)
qed

lemma verified_total:
  assumes "\<forall>v \<in> set vs. vs_publicKey v \<noteq> ''unknown'' \<longrightarrow> vs_weight v = W (vs_publicKey v)"
  shows "sum_list (map snd (fold add_verified vs [])) = (\<Sum>k \<in> counted W vs. W k)"
proof -
  let ?m = "fold add_verified vs []"
  have d: "distinct (map fst ?m)" and eq: "map_of ?m = (\<lambda>k. if k \<in> counted W vs then Some (W k) else None)"
    using fold_add_verified [OF assms, of "[]"] by simp_all
  have "dom (map_of ?m) = counted W vs" unfolding eq by (auto simp: dom_def)
  then have "fst ` set ?m = counted W vs" by (simp add: dom_map_of_conv_image_fst)
  then show ?thesis unfolding sum_list_alist [OF d] by (intro sum.cong) (simp_all add: eq)
qed

text \<open>C22. The reported weight of a partially signed treasury envelope counts every key once and only for
  signatures that verify: the total is the sum of the on-chain weights of those authorized keys that have
  a verifying signature on the envelope, and the verdict compares it with the account's high threshold.
  The keys are looked up by hint among the authorized ones, so the statement quantifies over the lookup.\<close>

theorem verifyMultisigSignatures_total:
  assumes "verifyMultisigSignatures s loadAccount xdr treasuryKey authorized = Inr r"
    and "''unknown'' \<notin> set authorized"
  shows "\<exists>tx. sdk_transaction s xdr = Some tx \<and> tx_source tx = treasuryKey \<and> sn_exists (loadAccount treasuryKey)
    \<and> mv_totalWeight r = (\<Sum>k \<in> {k. \<exists>(hint, sig) \<in> set (tx_signatures tx).
          List.find (\<lambda>a. sdk_hint s a = Some hint) authorized = Some k \<and> sdk_verify s k (tx_hash tx) sig
          \<and> (\<exists>w > 0. js_map (sn_signers (loadAccount treasuryKey)) k = Some w)}.
        the (js_map (sn_signers (loadAccount treasuryKey)) k))
    \<and> mv_meetsThreshold r = (th_high (sn_thresholds (loadAccount treasuryKey)) \<le> mv_totalWeight r)"
proof -
  let ?weight = "js_map (sn_signers (loadAccount treasuryKey))"
  let ?W = "\<lambda>k. case ?weight k of Some w \<Rightarrow> w | None \<Rightarrow> 0"
  from assms(1) obtain tx where tx: "sdk_transaction s xdr = Some tx" "tx_source tx = treasuryKey"
    "sn_exists (loadAccount treasuryKey)"
    and total: "mv_totalWeight r = sum_list (map snd (fold add_verified
        (map (inspect_signature s authorized ?weight (tx_hash tx)) (tx_signatures tx)) []))"
    and verdict: "mv_meetsThreshold r = (th_high (sn_thresholds (loadAccount treasuryKey)) \<le> mv_totalWeight r)"
    by (auto simp: verifyMultisigSignatures_def Let_def split: option.splits if_splits)
  let ?vs = "map (inspect_signature s authorized ?weight (tx_hash tx)) (tx_signatures tx)"
  let ?K = "{k. \<exists>(hint, sig) \<in> set (tx_signatures tx).
          List.find (\<lambda>a. sdk_hint s a = Some hint) authorized = Some k \<and> sdk_verify s k (tx_hash tx) sig
          \<and> (\<exists>w > 0. ?weight k = Some w)}"
  have found: "k \<noteq> ''unknown''" if "List.find P authorized = Some k" for P k
    using that assms(2) by (metis find_Some_iff nth_mem)
  have "(let v = inspect_signature s authorized ?weight (tx_hash tx) d in
      k = vs_publicKey v \<and> vs_verified v \<and> vs_publicKey v \<noteq> ''unknown'' \<and> 0 < ?W (vs_publicKey v))
    \<longleftrightarrow> List.find (\<lambda>a. sdk_hint s a = Some (fst d)) authorized = Some k \<and> sdk_verify s k (tx_hash tx) (snd d)
      \<and> (\<exists>w > 0. ?weight k = Some w)" for d k
    using found by (auto simp: inspect_signature_def Let_def split: option.splits)
  note each = this [unfolded Let_def]
  have "counted ?W ?vs = {k. \<exists>d \<in> set (tx_signatures tx). k = vs_publicKey (inspect_signature s authorized ?weight (tx_hash tx) d)
      \<and> vs_verified (inspect_signature s authorized ?weight (tx_hash tx) d)
      \<and> vs_publicKey (inspect_signature s authorized ?weight (tx_hash tx) d) \<noteq> ''unknown''
      \<and> 0 < ?W (vs_publicKey (inspect_signature s authorized ?weight (tx_hash tx) d))}"
    unfolding counted_def set_map by blast
  also have "\<dots> = ?K" unfolding each by (auto simp: case_prod_beta)
  finally have "counted ?W ?vs = ?K" .
  moreover have "mv_totalWeight r = (\<Sum>k \<in> counted ?W ?vs. ?W k)"
    unfolding total by (rule verified_total) (auto simp: inspect_signature_def split: option.splits)
  moreover have "(\<Sum>k \<in> ?K. ?W k) = (\<Sum>k \<in> ?K. the (?weight k))" by (intro sum.cong) auto
  ultimately show ?thesis using tx verdict by (intro exI [of _ tx]) simp
qed

definition demo_pair :: envelope where
  "demo_pair = demo_tx\<lparr>tx_source := ''GT'', tx_signatures := [(''a'', ''sig-a''), (''a'', ''sig-a''), (''c'', ''forged'')]\<rparr>"

definition demo_pair_sdk :: sdk where
  "demo_pair_sdk = demo_sdk\<lparr>sdk_fromXDR := (\<lambda>x. if x = ''AAAA'' then Some (Plain demo_pair) else None),
     sdk_hint := (\<lambda>k. map_of [(''GA'', ''a''), (''GC'', ''c'')] k),
     sdk_verify := (\<lambda>k h sig. (k, sig) \<in> set [(''GA'', ''sig-a''), (''GC'', ''sig-c'')])\<rparr>"

theorem verifyMultisigSignatures_total_witness:
  "\<exists>r. verifyMultisigSignatures demo_pair_sdk (\<lambda>_. demo_account) ''AAAA'' ''GT'' [''GA'', ''GC''] = Inr r
     \<and> mv_totalWeight r = 1 \<and> mv_meetsThreshold r = (2 \<le> mv_totalWeight r)"
proof -
  obtain r where r: "verifyMultisigSignatures demo_pair_sdk (\<lambda>_. demo_account) ''AAAA'' ''GT'' [''GA'', ''GC''] = Inr r"
    "mv_totalWeight r = 1"
    by (simp add: verifyMultisigSignatures_def demo_pair_sdk_def demo_pair_def demo_tx_def demo_account_def Let_def
        sdk_transaction_def inspect_signature_def js_map_def add_verified_def)
  have "mv_meetsThreshold r = (th_high (sn_thresholds demo_account) \<le> mv_totalWeight r)"
    using verifyMultisigSignatures_total [OF r(1)] by auto
  with r show ?thesis by (intro exI [of _ r]) (simp add: demo_account_def)
qed

section \<open>Properties of the envelope policy\<close>

lemma first_rule_None: "first_rule s treasuryKey opers = None \<longleftrightarrow> (\<forall>oper \<in> set opers. operation_rule s treasuryKey oper = None)"
proof -
  have stuck: "fold (\<lambda>oper r. case r of Some x \<Rightarrow> Some x | None \<Rightarrow> operation_rule s treasuryKey oper) os (Some r) = Some r" for os r
    by (induction os) simp_all
  show ?thesis
    unfolding first_rule_def
  proof (induction opers)
    case (Cons oper opers)
    then show ?case by (cases "operation_rule s treasuryKey oper") (simp_all add: stuck)
  qed simp
qed

text \<open>C21. An envelope the signature collector accepts spends only from the treasury and within bounds: it is
  sourced at the treasury account, has between one and the allowed number of operations, none of them
  sourced elsewhere, every payment has a valid positive amount and a valid destination, the fee lies in
  the per-operation band, and the time bounds are open. Conversely each rule is the reason for a
  rejection, so nothing else is refused.\<close>

theorem assertTreasuryEnvelopePolicy_iff:
  "(\<exists>summary. assertTreasuryEnvelopePolicy s tx policy now = Inr summary) \<longleftrightarrow>
    tx_source tx = ep_treasuryAccountPublicKey policy
    \<and> 1 \<le> length (tx_operations tx)
    \<and> length (tx_operations tx) \<le> (case ep_maxOperations policy of Some m \<Rightarrow> m | None \<Rightarrow> 10)
    \<and> (\<forall>oper \<in> set (tx_operations tx).
         (truthy (op_source oper) \<longrightarrow> op_source oper = Some (ep_treasuryAccountPublicKey policy))
         \<and> (op_type oper = ''payment'' \<longrightarrow> (\<exists>v. validateAmount (or_empty (op_amount oper)) = Inr v))
         \<and> (op_type oper \<in> {''payment'', ''createAccount'', ''accountMerge''} \<longrightarrow>
              sdk_publicKey s (or_empty (op_destination oper)) \<or> sdk_muxedKey s (or_empty (op_destination oper))))
    \<and> (\<exists>fee. tx_fee tx = Fin fee \<and> of_int (sdk_baseFee s * int (length (tx_operations tx))) \<le> fee
         \<and> fee \<le> of_int (case ep_maxFeeStroops policy of Some m \<Rightarrow> m | None \<Rightarrow> 2 * sdk_baseFee s * int (length (tx_operations tx))))
    \<and> assertTimeBoundsValid tx None now = Inr ()"
proof -
  have rule: "operation_rule s key oper = None \<longleftrightarrow>
      (truthy (op_source oper) \<longrightarrow> op_source oper = Some key)
      \<and> (op_type oper = ''payment'' \<longrightarrow> (\<exists>v. validateAmount (or_empty (op_amount oper)) = Inr v))
      \<and> (op_type oper \<in> {''payment'', ''createAccount'', ''accountMerge''} \<longrightarrow>
           sdk_publicKey s (or_empty (op_destination oper)) \<or> sdk_muxedKey s (or_empty (op_destination oper)))" for key oper
    unfolding operation_rule_def POSITIVE_AMOUNT_OPERATIONS_def ACCOUNT_DESTINATION_OPERATIONS_def
    by (cases "validateAmount (or_empty (op_amount oper))") auto
  have fee: "MAX_FEE_STROOPS_PER_OP s * int n = 2 * sdk_baseFee s * int n" for n
    by (simp add: MAX_FEE_STROOPS_PER_OP_def)
  show ?thesis
    unfolding assertTreasuryEnvelopePolicy_def Let_def fee MIN_FEE_STROOPS_PER_OP_def MAX_TREASURY_OPERATIONS_def
      rule [symmetric] first_rule_None [symmetric]
    by (auto simp: not_less Suc_le_eq split: option.splits js_number.splits sum.splits)
qed

theorem assertTreasuryEnvelopePolicy_iff_witness:
  "\<exists>summary. assertTreasuryEnvelopePolicy demo_sdk demo_pair
     \<lparr>ep_treasuryAccountPublicKey = ''GT'', ep_maxOperations = None, ep_maxFeeStroops = None\<rparr> 1000000 = Inr summary"
proof (rule iffD2 [OF assertTreasuryEnvelopePolicy_iff], intro conjI)
  have "validateAmount ''10.5000000'' \<noteq> Inl e" for e by code_simp
  then have "\<exists>v. validateAmount ''10.5000000'' = Inr v" by (metis sumE)
  then show "\<forall>oper \<in> set (tx_operations demo_pair).
      (truthy (op_source oper) \<longrightarrow> op_source oper = Some (ep_treasuryAccountPublicKey
         \<lparr>ep_treasuryAccountPublicKey = ''GT'', ep_maxOperations = None, ep_maxFeeStroops = None\<rparr>))
      \<and> (op_type oper = ''payment'' \<longrightarrow> (\<exists>v. validateAmount (or_empty (op_amount oper)) = Inr v))
      \<and> (op_type oper \<in> {''payment'', ''createAccount'', ''accountMerge''} \<longrightarrow>
           sdk_publicKey demo_sdk (or_empty (op_destination oper)) \<or> sdk_muxedKey demo_sdk (or_empty (op_destination oper)))"
    by (simp add: demo_pair_def demo_tx_def demo_sdk_def or_empty_def truthy_def)
  show "assertTimeBoundsValid demo_pair None 1000000 = Inr ()" by code_simp
qed (simp_all add: demo_pair_def demo_tx_def demo_sdk_def)

end
