(* ===== verification/Treasury_Proposals.thy ===== *)
theory Treasury_Proposals
  imports Treasury_Config Audit_Log
begin

text \<open>
  Treasury payments by proposal: \<^verbatim>\<open>src/src/services/treasury-proposals.ts\<close> and the multisig audit helper of
  \<^verbatim>\<open>audit.ts\<close>. A proposal stores an unsigned envelope; members send back signed copies, their signatures
  are collected, and at the threshold the merged envelope goes to Horizon.

  The call runs in one database transaction, here a read (\<open>submit_read\<close>) followed by the rest
  (\<open>submit_write\<close>); an exception rolls every write back (\<open>in_transaction\<close>). \<open>submitSignatures\<close> is both
  without interruption. \<open>proposal_step\<close> lets other calls commit between the two, which is what the
  plain \<^verbatim>\<open>findUnique\<close> of the source allows at the default isolation level.

  Parameters are the SDK, Horizon's answers (\<open>loadAccount\<close>, \<open>submit\<close>), the envelope builder, fresh
  identifiers, the random memo and the clock.
\<close>

section \<open>Rows\<close>

record group_row =
  gr_treasuryEnabled :: bool
  gr_treasuryAccountPublicKey :: "string option"

record member_row =
  mb_groupId :: string
  mb_userId :: string
  mb_stellarPublicKey :: string
  mb_role :: string

record stored_signature =
  st_publicKey :: string
  st_signature :: string
  st_signedAt :: int

record proposal_row =
  pr_groupId :: string
  pr_creatorId :: string
  pr_xdr :: string
  pr_txHash :: string
  pr_threshold :: int
  pr_signatures :: "stored_signature list"
  pr_status :: string
  pr_stellarTxHash :: "string option"
  pr_failureReason :: "string option"
  pr_createdAt :: int

record approval_row =
  av_proposalId :: string
  av_userId :: string
  av_txHash :: string
  av_signature :: string

record treasury_db =
  td_groups :: "group_row table"
  td_members :: "member_row list"
  td_proposals :: "proposal_row table"
  td_approvals :: "approval_row list"
  td_audit :: "audit_row list"

text \<open>What the service uses of the SDK to attach a signature and to serialize; \<open>None\<close> when it throws.\<close>

record envelope_ops =
  eo_build :: "build_request \<Rightarrow> thrown + string"
  eo_addSignature :: "envelope \<Rightarrow> string \<Rightarrow> string \<Rightarrow> envelope option"
  eo_toXDR :: "envelope \<Rightarrow> string"

text \<open>\<^verbatim>\<open>prisma.$transaction\<close>: an exception leaves the database as it was.\<close>

definition in_transaction :: "('s \<Rightarrow> 'a res \<times> 's) \<Rightarrow> 's \<Rightarrow> 'a res \<times> 's" where
  "in_transaction body db = (case body db of (Inl e, _) \<Rightarrow> (Inl e, db) | (Inr r, db') \<Rightarrow> (Inr r, db'))"

section \<open>Audit\<close>

record multisig_audit =
  mu_userId :: "string option"
  mu_groupId :: string
  mu_proposalId :: string
  mu_action :: string
  mu_entityType :: "string option"
  mu_actorPublicKey :: "string option"
  mu_outcome :: "string option"
  mu_metadata :: "(string \<times> json) list"

definition auditMultisigActionTx :: "multisig_audit \<Rightarrow> audit_row list \<Rightarrow> audit_row list" where
  "auditMultisigActionTx p rows =
     auditTx
       \<lparr>ap_userId = mu_userId p, ap_groupId = Some (mu_groupId p), ap_action = mu_action p,
        ap_entityType = (case mu_entityType p of Some t \<Rightarrow> t | None \<Rightarrow> ''treasury_proposal''),
        ap_entityId = mu_proposalId p,
        ap_outcome = Some (case mu_outcome p of Some r \<Rightarrow> r | None \<Rightarrow> ''success''),
        ap_actorType = None, ap_actorPublicKey = mu_actorPublicKey p, ap_metadata = mu_metadata p\<rparr> rows"

definition JInt :: "int \<Rightarrow> json" where "JInt n = JNum (Fin (of_int n))"

section \<open>Creating a proposal\<close>

definition classifyProposalBuildError :: "thrown \<Rightarrow> exn" where
  "classifyProposalBuildError e =
     (case e of App_error status code _ \<Rightarrow> AppError status code
      | _ \<Rightarrow>
        (let msg = (case e of Js_error _ m \<Rightarrow> to_lower m | _ \<Rightarrow> []) in
         if str_includes msg ''threshold'' \<or> str_includes msg ''signer''
         then AppError 400 ''MULTISIG_CONFIGURATION_INVALID''
         else if str_includes msg ''sequence'' \<or> str_includes msg ''bad_seq''
         then AppError 400 ''MULTISIG_SEQUENCE_INVALID''
         else if str_includes msg ''unique constraint'' \<or> str_includes msg ''p2002''
         then AppError 409 ''PROPOSAL_DUPLICATE''
         else AppError 502 ''UPSTREAM_ERROR''))"

text \<open>The exceptions of \<open>buildPayment\<close> as caught values; all but one are application errors.\<close>

definition caught :: "exn \<Rightarrow> thrown" where
  "caught e = (case e of AppError st c \<Rightarrow> App_error st c [] | PlainError m \<Rightarrow> Js_error ''Error'' m | _ \<Rightarrow> Js_error ''Error'' [])"

record create_params =
  cp_groupId :: string
  cp_creatorId :: string
  cp_creatorPublicKey :: string
  cp_destination :: string
  cp_amount :: string
  cp_assetCode :: string
  cp_assetIssuer :: "string option"
  cp_memo :: "string option"

definition build_proposal ::
  "sdk \<Rightarrow> money_config \<Rightarrow> envelope_ops \<Rightarrow> (string \<Rightarrow> thrown + account_snapshot) \<Rightarrow> string \<Rightarrow> string \<Rightarrow> create_params
    \<Rightarrow> thrown + (string \<times> string)" where
  "build_proposal s cfg ops loadAccount runes treasuryKey p =
     res_bind (loadAccount treasuryKey) (\<lambda>acct.
       if \<not> sn_exists acct then Inl (App_error 400 ''TREASURY_UNFUNDED'' [])
       else
         let textMemo = (case cp_memo p of Some m \<Rightarrow> m | None \<Rightarrow> ''MP:'' @ runes);
             intent = \<lparr>pp_sourcePublicKey = treasuryKey, pp_sourceSequence = sn_sequence acct,
               pp_destination = cp_destination p, pp_asset = \<lparr>as_code = cp_assetCode p, as_issuer = cp_assetIssuer p\<rparr>,
               pp_amount = cp_amount p, pp_memoCode = textMemo, pp_validitySeconds = None, pp_feeStroops = None\<rparr>
         in (case buildPayment s cfg intent of
              Inl e \<Rightarrow> Inl (caught e)
            | Inr request \<Rightarrow> res_bind (eo_build ops request) (\<lambda>xdr.
                case sdk_transaction s xdr of
                  None \<Rightarrow> Inl (Js_error ''Error'' [])
                | Some tx \<Rightarrow> Inr (xdr, tx_hash tx))))"

definition build_failed :: "create_params \<Rightarrow> audit_row list \<Rightarrow> audit_row list" where
  "build_failed p rows =
     auditTx
       \<lparr>ap_userId = Some (cp_creatorId p), ap_groupId = Some (cp_groupId p), ap_action = ''treasury.proposal.failed'',
        ap_entityType = ''treasury_proposal_build'', ap_entityId = cp_groupId p @ '':'' @ cp_creatorId p,
        ap_outcome = Some ''failure'', ap_actorType = None, ap_actorPublicKey = Some (cp_creatorPublicKey p),
        ap_metadata = [(''errorCode'', JStr ''AppError'')]\<rparr> rows"

text \<open>The insert fails on a taken identifier, with a unique-constraint error that is classified in turn.\<close>

definition create ::
  "sdk \<Rightarrow> money_config \<Rightarrow> envelope_ops \<Rightarrow> (string \<Rightarrow> thrown + account_snapshot) \<Rightarrow> string \<Rightarrow> string \<Rightarrow> create_params \<Rightarrow> int
    \<Rightarrow> int \<Rightarrow> treasury_db \<Rightarrow> (string \<times> string) res \<times> treasury_db" where
  "create s cfg ops loadAccount runes newId p threshold now db =
     (case find_row (cp_groupId p) (td_groups db) of
        None \<Rightarrow> (Inl (AppError 400 ''TREASURY_DISABLED''), db)
      | Some g \<Rightarrow>
          if \<not> gr_treasuryEnabled g \<or> \<not> truthy (gr_treasuryAccountPublicKey g)
          then (Inl (AppError 400 ''TREASURY_DISABLED''), db)
          else
            let treasuryKey = the (gr_treasuryAccountPublicKey g) in
            (case build_proposal s cfg ops loadAccount runes treasuryKey p of
              Inl e \<Rightarrow> (Inl (classifyProposalBuildError e), db\<lparr>td_audit := build_failed p (td_audit db)\<rparr>)
            | Inr (xdr, txHash) \<Rightarrow>
                if find_row newId (td_proposals db) \<noteq> None
                then (Inl (classifyProposalBuildError (Js_error ''PrismaClientKnownRequestError'' ''Unique constraint failed'')),
                      db\<lparr>td_audit := build_failed p (td_audit db)\<rparr>)
                else
                  (Inr (newId, xdr),
                   db\<lparr>td_proposals := (newId,
                        \<lparr>pr_groupId = cp_groupId p, pr_creatorId = cp_creatorId p, pr_xdr = xdr, pr_txHash = txHash,
                         pr_threshold = threshold, pr_signatures = [],
                         pr_status = (if threshold > 1 then ''awaiting_signatures'' else ''pending''),
                         pr_stellarTxHash = None, pr_failureReason = None, pr_createdAt = now\<rparr>) # td_proposals db,
                      td_audit := auditMultisigActionTx
                        \<lparr>mu_userId = Some (cp_creatorId p), mu_groupId = cp_groupId p, mu_proposalId = newId,
                         mu_action = ''treasury.proposal.created'', mu_entityType = None,
                         mu_actorPublicKey = Some (cp_creatorPublicKey p), mu_outcome = None,
                         mu_metadata = [(''sourceAccount'', JStr treasuryKey), (''txHash'', JStr txHash),
                           (''destination'', JStr (cp_destination p)), (''amount'', JStr (cp_amount p)),
                           (''assetCode'', JStr (cp_assetCode p)), (''threshold'', JInt threshold)]\<rparr> (td_audit db)\<rparr>)))"

section \<open>Collecting signatures\<close>

record submit_args =
  sa_proposalId :: string
  sa_groupId :: string
  sa_memberPublicKeys :: "string list"
  sa_signedXdr :: string
  sa_userId :: string
  sa_actorPublicKey :: "string option"

text \<open>What the call has read: the proposal, the users who approved it, and the members' user ids by key.\<close>

record submit_snapshot =
  ss_proposal :: proposal_row
  ss_approved :: "string list"
  ss_userIds :: "(string \<times> string) list"

definition submit_read :: "sdk \<Rightarrow> submit_args \<Rightarrow> treasury_db \<Rightarrow> (submit_snapshot \<times> envelope) res" where
  "submit_read s a db =
     (case find_row (sa_proposalId a) (td_proposals db) of
        None \<Rightarrow> Inl (AppError 404 ''NOT_FOUND'')
      | Some p \<Rightarrow>
          if pr_groupId p \<noteq> sa_groupId a then Inl (AppError 404 ''NOT_FOUND'')
          else if pr_status p \<in> {''confirmed'', ''submitted''} then Inl (AppError 409 ''ALREADY_SUBMITTED'')
          else if pr_status p = ''failed'' then Inl (AppError 409 ''PROPOSAL_FAILED'')
          else (case sdk_transaction s (pr_xdr p) of
            None \<Rightarrow> Inl (PlainError ''stored envelope'')
          | Some baseTx \<Rightarrow>
              (case sdk_transaction s (sa_signedXdr a) of
                 None \<Rightarrow> Inl (AppError 400 ''INVALID_XDR'')
               | Some submitted \<Rightarrow>
                   if tx_hash submitted \<noteq> pr_txHash p then Inl (AppError 400 ''XDR_MISMATCH'')
                   else if tx_hash submitted \<noteq> tx_hash baseTx then Inl (AppError 400 ''XDR_MISMATCH'')
                   else Inr
                     (\<lparr>ss_proposal = p,
                       ss_approved = map av_userId (filter (\<lambda>v. av_proposalId v = sa_proposalId a \<and> av_txHash v = pr_txHash p)
                         (td_approvals db)),
                       ss_userIds = map (\<lambda>m. (mb_stellarPublicKey m, mb_userId m))
                         (filter (\<lambda>m. mb_groupId m = sa_groupId a) (td_members db))\<rparr>,
                      submitted))))"

text \<open>The loop over the signatures: approvals, approved users and accepted signatures so far. The set
  \<^verbatim>\<open>existingKeys\<close> always holds the keys of \<^verbatim>\<open>verified\<close>.\<close>

type_synonym collect_state = "approval_row list \<times> string list \<times> stored_signature list"

definition collect_one ::
  "sdk \<Rightarrow> submit_args \<Rightarrow> submit_snapshot \<Rightarrow> string \<Rightarrow> int \<Rightarrow> string \<times> string \<Rightarrow> collect_state \<Rightarrow> collect_state res" where
  "collect_one s a sn hash now d st =
     (case st of (approvals, approved, verified) \<Rightarrow>
      case List.find (\<lambda>k. sdk_hint s k = Some (fst d)) (js_set (sa_memberPublicKeys a)) of
        None \<Rightarrow> Inr st
      | Some matched \<Rightarrow>
          let memberUserId = js_map (ss_userIds sn) matched;
              accepted = verified @ [\<lparr>st_publicKey = matched, st_signature = snd d, st_signedAt = now\<rparr>]
          in
          if truthy memberUserId \<and> the memberUserId \<in> set approved then Inr st
          else if matched \<in> st_publicKey ` set verified then Inr st
          else if \<not> sdk_verify s matched hash (snd d) then Inl (AppError 400 ''INVALID_SIGNATURE'')
          else if truthy memberUserId then
            (if \<exists>v \<in> set approvals. av_proposalId v = sa_proposalId a \<and> av_userId v = the memberUserId then Inr st
             else Inr (approvals @ [\<lparr>av_proposalId = sa_proposalId a, av_userId = the memberUserId,
                                     av_txHash = pr_txHash (ss_proposal sn), av_signature = snd d\<rparr>],
                       the memberUserId # approved, accepted))
          else Inr (approvals, approved, accepted))"

definition add_all :: "envelope_ops \<Rightarrow> (string \<times> string) list \<Rightarrow> envelope \<Rightarrow> envelope" where
  "add_all ops sigs tx = fold (\<lambda>(k, sig) t. case eo_addSignature ops t k sig of Some t' \<Rightarrow> t' | None \<Rightarrow> t) sigs tx"

record submit_result =
  sr_status :: string
  sr_signatureCount :: nat
  sr_threshold :: int
  sr_stellarTxHash :: "string option"

definition mergeAndSubmit ::
  "sdk \<Rightarrow> envelope_ops \<Rightarrow> (envelope \<Rightarrow> string res) \<Rightarrow> (exn \<Rightarrow> string) \<Rightarrow> string \<Rightarrow> stored_signature list \<Rightarrow> string option
    \<Rightarrow> string option \<Rightarrow> treasury_db \<Rightarrow> submit_result res \<times> treasury_db" where
  "mergeAndSubmit s ops submit message_of proposalId sigs actorPublicKey actorUserId db =
     (case find_row proposalId (td_proposals db) of
        None \<Rightarrow> (Inl (AppError 404 ''NOT_FOUND''), db)
      | Some p \<Rightarrow>
          (case sdk_transaction s (pr_xdr p) of
             None \<Rightarrow> (Inl (PlainError ''stored envelope''), db)
           | Some baseTx \<Rightarrow>
               let signedXdr = eo_toXDR ops (add_all ops (map (\<lambda>g. (st_publicKey g, st_signature g)) sigs) baseTx);
                   entry = \<lparr>mu_userId = actorUserId, mu_groupId = pr_groupId p, mu_proposalId = proposalId,
                     mu_action = ''treasury.proposal.submitted'', mu_entityType = None, mu_actorPublicKey = actorPublicKey,
                     mu_outcome = None, mu_metadata = []\<rparr>
               in (case submitSigned s submit signedXdr of
                 Inr hash \<Rightarrow>
                   (Inr \<lparr>sr_status = ''confirmed'', sr_signatureCount = length sigs, sr_threshold = pr_threshold p,
                         sr_stellarTxHash = Some hash\<rparr>,
                    db\<lparr>td_proposals := update_row proposalId
                         (\<lambda>r. r\<lparr>pr_status := ''confirmed'', pr_stellarTxHash := Some hash\<rparr>) (td_proposals db),
                       td_audit := auditMultisigActionTx (entry\<lparr>mu_metadata :=
                         [(''sourceAccount'', JStr (tx_source baseTx)), (''txHash'', JStr (pr_txHash p)),
                          (''signatureCount'', JInt (int (length sigs))), (''threshold'', JInt (pr_threshold p)),
                          (''stellarTxHash'', JStr hash)]\<rparr>) (td_audit db)\<rparr>)
               | Inl e \<Rightarrow>
                   (Inl (AppError 502 ''UPSTREAM_ERROR''),
                    db\<lparr>td_proposals := update_row proposalId
                         (\<lambda>r. r\<lparr>pr_status := ''failed'', pr_failureReason := Some (message_of e)\<rparr>) (td_proposals db),
                       td_audit := auditMultisigActionTx (entry\<lparr>mu_action := ''treasury.proposal.failed'',
                         mu_outcome := Some ''failure'', mu_metadata :=
                         [(''txHash'', JStr (pr_txHash p)), (''signatureCount'', JInt (int (length sigs))),
                          (''threshold'', JInt (pr_threshold p)), (''reason'', JStr (message_of e))]\<rparr>) (td_audit db)\<rparr>))))"

definition signed_entry :: "submit_args \<Rightarrow> submit_snapshot \<Rightarrow> nat \<Rightarrow> stored_signature \<Rightarrow> multisig_audit" where
  "signed_entry a sn n g =
     \<lparr>mu_userId = js_map (ss_userIds sn) (st_publicKey g), mu_groupId = pr_groupId (ss_proposal sn),
      mu_proposalId = sa_proposalId a, mu_action = ''treasury.proposal.signed'', mu_entityType = None,
      mu_actorPublicKey = Some (st_publicKey g), mu_outcome = None,
      mu_metadata = [(''signerPublicKey'', JStr (st_publicKey g)), (''txHash'', JStr (pr_txHash (ss_proposal sn))),
        (''signatureCount'', JInt (int n)), (''threshold'', JInt (pr_threshold (ss_proposal sn)))]\<rparr>"

definition submit_write ::
  "sdk \<Rightarrow> envelope_ops \<Rightarrow> (envelope \<Rightarrow> string res) \<Rightarrow> (exn \<Rightarrow> string) \<Rightarrow> submit_args \<Rightarrow> int \<Rightarrow> submit_snapshot \<times> envelope
    \<Rightarrow> treasury_db \<Rightarrow> submit_result res \<times> treasury_db" where
  "submit_write s ops submit message_of a now read db =
     (case read of (sn, submitted) \<Rightarrow>
      let p = ss_proposal sn; stored = pr_signatures p in
      case fold_res (collect_one s a sn (tx_hash submitted) now) (tx_signatures submitted)
             (td_approvals db, ss_approved sn, stored) of
        Inl e \<Rightarrow> (Inl e, db)
      | Inr (approvals, _, verified) \<Rightarrow>
          let meets = (int (length verified) \<ge> pr_threshold p);
              db1 = db\<lparr>td_approvals := approvals,
                       td_proposals := update_row (sa_proposalId a)
                         (\<lambda>r. r\<lparr>pr_signatures := verified,
                               pr_status := (if meets then ''submitted'' else ''awaiting_signatures'')\<rparr>) (td_proposals db),
                       td_audit := fold (\<lambda>g. auditMultisigActionTx (signed_entry a sn (length verified) g))
                         (drop (length stored) verified) (td_audit db)\<rparr>
          in if \<not> meets
             then (Inr \<lparr>sr_status = ''awaiting_signatures'', sr_signatureCount = length verified,
                        sr_threshold = pr_threshold p, sr_stellarTxHash = None\<rparr>, db1)
             else mergeAndSubmit s ops submit message_of (sa_proposalId a) verified
                    (case sa_actorPublicKey a of Some k \<Rightarrow> Some k
                     | None \<Rightarrow> if verified = [] then None else Some (st_publicKey (last verified)))
                    (Some (sa_userId a)) db1)"

definition submitSignatures ::
  "sdk \<Rightarrow> envelope_ops \<Rightarrow> (envelope \<Rightarrow> string res) \<Rightarrow> (exn \<Rightarrow> string) \<Rightarrow> submit_args \<Rightarrow> int \<Rightarrow> treasury_db
    \<Rightarrow> submit_result res \<times> treasury_db" where
  "submitSignatures s ops submit message_of a now =
     in_transaction (\<lambda>db. case submit_read s a db of
        Inl e \<Rightarrow> (Inl e, db)
      | Inr read \<Rightarrow> submit_write s ops submit message_of a now read db)"

section \<open>The expiry sweep\<close>

text \<open>\<^verbatim>\<open>src/src/worker/cleanupProposals.ts\<close>: the oldest pending proposals past the cutoff, each in its own transaction.\<close>

definition proposalExpiryCutoff :: "int \<Rightarrow> int \<Rightarrow> int" where
  "proposalExpiryCutoff now ageDays = now - ageDays * 24 * 60 * 60 * 1000"

definition expireOne :: "int \<Rightarrow> string \<times> proposal_row \<Rightarrow> treasury_db \<Rightarrow> bool \<times> treasury_db" where
  "expireOne now found db =
     (let (pid, p) = found;
          (n, rows) = update_where (\<lambda>i r. i = pid \<and> pr_status r = ''pending'')
            (\<lambda>r. r\<lparr>pr_status := ''expired'', pr_failureReason := Some ''Proposal expired before reaching its signature threshold''\<rparr>)
            (td_proposals db)
      in if n = 0 then (False, db)
         else (True,
           db\<lparr>td_proposals := rows,
              td_audit := auditTx
                \<lparr>ap_userId = Some (pr_creatorId p), ap_groupId = Some (pr_groupId p), ap_action = ''treasury_proposal.expired'',
                 ap_entityType = ''treasury_proposal'', ap_entityId = pid, ap_outcome = None, ap_actorType = Some ''worker'',
                 ap_actorPublicKey = None,
                 ap_metadata = [(''from'', JStr ''pending''), (''to'', JStr ''expired''),
                   (''ageMs'', JInt (now - pr_createdAt p)), (''source'', JStr ''worker'')]\<rparr> (td_audit db)\<rparr>))"

definition expireStaleProposals :: "int \<Rightarrow> int \<Rightarrow> nat \<Rightarrow> treasury_db \<Rightarrow> (nat \<times> int) \<times> treasury_db" where
  "expireStaleProposals now ageDays batchSize db =
     (let olderThan = proposalExpiryCutoff now ageDays;
          stale = take batchSize (sort_key (\<lambda>(_, r). pr_createdAt r)
            (filter (\<lambda>(_, r). pr_status r = ''pending'' \<and> pr_createdAt r < olderThan) (td_proposals db)));
          (expired, db') = fold (\<lambda>found (n, d). case expireOne now found d of (changed, d') \<Rightarrow> (if changed then n + 1 else n, d'))
            stale (0, db)
      in ((expired, olderThan), db'))"

section \<open>Interleaved calls\<close>

text \<open>The database and the calls that have read and not yet written. Horizon may answer anything at any time.\<close>

type_synonym proposal_world = "treasury_db \<times> (submit_args \<times> submit_snapshot \<times> envelope) list"

inductive proposal_step :: "sdk \<Rightarrow> money_config \<Rightarrow> envelope_ops \<Rightarrow> (exn \<Rightarrow> string) \<Rightarrow> proposal_world \<Rightarrow> proposal_world \<Rightarrow> bool"
  for s cfg ops message_of where
  creates: "proposal_step s cfg ops message_of (db, calls) (snd (create s cfg ops loadAccount runes newId p threshold now db), calls)"
| reads: "submit_read s a db = Inr r \<Longrightarrow> proposal_step s cfg ops message_of (db, calls) (db, (a, r) # calls)"
| writes: "(a, r) \<in> set calls \<Longrightarrow>
    proposal_step s cfg ops message_of (db, calls)
      (snd (in_transaction (submit_write s ops submit message_of a now r) db), remove1 (a, r) calls)"
| expires: "proposal_step s cfg ops message_of (db, calls) (snd (expireOne now (pid, p) db), calls)"

inductive_cases proposal_stepE: "proposal_step s cfg ops message_of (db, calls) w"

definition proposal_reachable :: "sdk \<Rightarrow> money_config \<Rightarrow> envelope_ops \<Rightarrow> (exn \<Rightarrow> string) \<Rightarrow> proposal_world \<Rightarrow> bool" where
  "proposal_reachable s cfg ops message_of w \<longleftrightarrow>
     (\<exists>db. td_proposals db = [] \<and> (proposal_step s cfg ops message_of)\<^sup>*\<^sup>* (db, []) w)"

section \<open>The invariant of proposals\<close>

definition good_signatures :: "sdk \<Rightarrow> string \<Rightarrow> stored_signature list \<Rightarrow> bool" where
  "good_signatures s hash gs \<longleftrightarrow>
     distinct (map st_publicKey gs) \<and> (\<forall>g \<in> set gs. sdk_verify s (st_publicKey g) hash (st_signature g))"

definition good_proposal :: "sdk \<Rightarrow> proposal_row \<Rightarrow> bool" where
  "good_proposal s r \<longleftrightarrow>
     map_option tx_hash (sdk_transaction s (pr_xdr r)) = Some (pr_txHash r)
     \<and> good_signatures s (pr_txHash r) (pr_signatures r)
     \<and> pr_status r \<in> {''pending'', ''awaiting_signatures'', ''confirmed'', ''expired''}
     \<and> (pr_status r = ''confirmed'' \<longrightarrow> pr_threshold r \<le> int (length (pr_signatures r)))"

text \<open>What never changes of a row.\<close>

definition fixed_part :: "proposal_row \<Rightarrow> string \<times> string \<times> int \<times> string" where
  "fixed_part r = (pr_xdr r, pr_txHash r, pr_threshold r, pr_groupId r)"

definition good_call :: "sdk \<Rightarrow> treasury_db \<Rightarrow> submit_args \<times> submit_snapshot \<times> envelope \<Rightarrow> bool" where
  "good_call s db c \<longleftrightarrow>
     (case c of (a, sn, tx) \<Rightarrow>
        map_option fixed_part (find_row (sa_proposalId a) (td_proposals db)) = Some (fixed_part (ss_proposal sn))
        \<and> good_proposal s (ss_proposal sn) \<and> tx_hash tx = pr_txHash (ss_proposal sn))"

definition good_world :: "sdk \<Rightarrow> proposal_world \<Rightarrow> bool" where
  "good_world s w \<longleftrightarrow>
     (\<forall>pid r. find_row pid (td_proposals (fst w)) = Some r \<longrightarrow> good_proposal s r) \<and> (\<forall>c \<in> set (snd w). good_call s (fst w) c)"

lemma collect_one_good:
  assumes "collect_one s a sn hash now d (approvals, approved, verified) = Inr (approvals', approved', verified')"
    and "good_signatures s hash verified"
  shows "good_signatures s hash verified'"
  using assms
  by (auto simp: collect_one_def Let_def good_signatures_def split: option.splits if_splits)

lemma collect_good:
  assumes "fold_res (collect_one s a sn hash now) ds (approvals, approved, stored) = Inr (approvals', approved', verified)"
    and "good_signatures s hash stored"
  shows "good_signatures s hash verified"
proof -
  have "case (approvals', approved', verified) of (_, _, v) \<Rightarrow> good_signatures s hash v"
    using assms(1)
    by (rule fold_res_invariant [where P = "\<lambda>(_, _, v). good_signatures s hash v"])
      (use assms(2) in \<open>auto dest: collect_one_good\<close>)
  then show ?thesis by simp
qed

text \<open>A committed write replaces the signatures by good ones; at the threshold Horizon has accepted the merged envelope.\<close>

lemma submit_write_commits:
  assumes "submit_write s ops submit message_of a now (sn, tx) db = (Inr res, db')"
    and "good_call s db (a, sn, tx)"
  obtains verified upd where
    "good_signatures s (pr_txHash (ss_proposal sn)) verified"
    "td_proposals db' = update_row (sa_proposalId a) upd (td_proposals db)"
    "\<And>r. fixed_part (upd r) = fixed_part r"
    "\<And>r. pr_signatures (upd r) = verified"
    "\<And>r. pr_status (upd r) = sr_status res"
    "sr_status res = ''awaiting_signatures'' \<or> sr_status res = ''confirmed''"
    "sr_status res = ''confirmed'' \<longrightarrow> pr_threshold (ss_proposal sn) \<le> int (length verified)"
proof -
  let ?p = "ss_proposal sn"
  have hash: "tx_hash tx = pr_txHash ?p" and stored: "good_signatures s (pr_txHash ?p) (pr_signatures ?p)"
    using assms(2) by (simp_all add: good_call_def good_proposal_def)
  from assms(1) obtain approvals approved verified where
    fold: "fold_res (collect_one s a sn (pr_txHash ?p) now) (tx_signatures tx) (td_approvals db, ss_approved sn, pr_signatures ?p)
      = Inr (approvals, approved, verified)"
    by (auto simp: submit_write_def Let_def hash split: sum.splits)
  have good: "good_signatures s (pr_txHash ?p) verified" by (rule collect_good [OF fold stored])
  show thesis
  proof (cases "pr_threshold ?p \<le> int (length verified)")
    case False
    show thesis
      by (rule that [of verified "\<lambda>r. r\<lparr>pr_signatures := verified, pr_status := ''awaiting_signatures''\<rparr>"])
        (use assms(1) fold False good in \<open>auto simp: submit_write_def Let_def hash fixed_part_def\<close>)
  next
    case True
    from assms(1) fold True obtain h where
      db': "td_proposals db' = update_row (sa_proposalId a) (\<lambda>r. r\<lparr>pr_status := ''confirmed'', pr_stellarTxHash := Some h\<rparr>)
        (update_row (sa_proposalId a) (\<lambda>r. r\<lparr>pr_signatures := verified, pr_status := ''submitted''\<rparr>) (td_proposals db))"
      and res: "sr_status res = ''confirmed''"
      by (auto simp: submit_write_def mergeAndSubmit_def Let_def hash split: option.splits sum.splits)
    show thesis
      by (rule that [of verified "\<lambda>r. r\<lparr>pr_signatures := verified, pr_status := ''confirmed'', pr_stellarTxHash := Some h\<rparr>"])
        (use db' res True good in \<open>auto simp: fixed_part_def update_row_def update_where_def\<close>)
  qed
qed

lemma good_call_mono:
  assumes "good_call s db c"
    and "\<And>pid r. find_row pid (td_proposals db) = Some r \<Longrightarrow>
      map_option fixed_part (find_row pid (td_proposals db')) = Some (fixed_part r)"
  shows "good_call s db' c"
proof -
  obtain a sn tx where c: "c = (a, sn, tx)" by (cases c) auto
  then obtain r where "find_row (sa_proposalId a) (td_proposals db) = Some r" "fixed_part r = fixed_part (ss_proposal sn)"
    using assms(1) by (auto simp: good_call_def)
  then show ?thesis using assms(1) assms(2) [of "sa_proposalId a" r] c by (simp add: good_call_def)
qed

lemma create_good:
  assumes "good_world s (db, calls)"
  shows "good_world s (snd (create s cfg ops loadAccount runes newId p threshold now db), calls)"
proof (cases "td_proposals (snd (create s cfg ops loadAccount runes newId p threshold now db)) = td_proposals db")
  case True
  then show ?thesis using assms by (simp add: good_world_def good_call_def split: prod.splits)
next
  case False
  let ?db' = "snd (create s cfg ops loadAccount runes newId p threshold now db)"
  from False obtain treasuryKey xdr txHash r where
    built: "build_proposal s cfg ops loadAccount runes treasuryKey p = Inr (xdr, txHash)"
    and fresh: "find_row newId (td_proposals db) = None"
    and db': "td_proposals ?db' = (newId, r) # td_proposals db"
    and r: "pr_xdr r = xdr" "pr_txHash r = txHash" "pr_signatures r = []"
      "pr_status r = (if threshold > 1 then ''awaiting_signatures'' else ''pending'')"
    by (auto simp: create_def Let_def split: option.splits if_splits sum.splits prod.splits)
  have "map_option tx_hash (sdk_transaction s xdr) = Some txHash"
    using built by (auto simp: build_proposal_def Let_def res_simps split: if_splits sum.splits option.splits)
  then have "good_proposal s r" using r by (simp add: good_proposal_def good_signatures_def)
  moreover have "map_option fixed_part (find_row pid (td_proposals ?db')) = Some (fixed_part q)"
    if "find_row pid (td_proposals db) = Some q" for pid q
    using that fresh by (auto simp: db' find_row_def)
  ultimately show ?thesis
    using assms good_call_mono [of s db _ ?db'] unfolding good_world_def by (auto simp: db' find_row_def)
qed

lemma submit_read_good:
  assumes "good_world s (db, calls)" and "submit_read s a db = Inr r"
  shows "good_call s db (a, r)"
  using assms
  by (auto simp: submit_read_def good_world_def good_call_def split: option.splits if_splits)

lemma submit_write_good:
  assumes "good_world s (db, calls)" and "(a, r) \<in> set calls"
  shows "good_world s (snd (in_transaction (submit_write s ops submit message_of a now r) db), remove1 (a, r) calls)"
proof (cases "submit_write s ops submit message_of a now r db")
  case (Pair res db')
  have subset: "set (remove1 (a, r) calls) \<subseteq> set calls" by (rule set_remove1_subset)
  show ?thesis
  proof (cases res)
    case (Inl e)
    then show ?thesis using assms(1) Pair subset by (auto simp: in_transaction_def good_world_def)
  next
    case (Inr ok)
    obtain sn tx where r: "r = (sn, tx)" by force
    have call: "good_call s db (a, sn, tx)" using assms r by (auto simp: good_world_def)
    obtain verified upd where
      good: "good_signatures s (pr_txHash (ss_proposal sn)) verified"
      and db': "td_proposals db' = update_row (sa_proposalId a) upd (td_proposals db)"
      and upd: "\<And>r. fixed_part (upd r) = fixed_part r" "\<And>r. pr_signatures (upd r) = verified" "\<And>r. pr_status (upd r) = sr_status ok"
      and status: "sr_status ok = ''awaiting_signatures'' \<or> sr_status ok = ''confirmed''"
        "sr_status ok = ''confirmed'' \<longrightarrow> pr_threshold (ss_proposal sn) \<le> int (length verified)"
      using submit_write_commits [OF Pair [unfolded r Inr] call] by metis
    have row: "good_proposal s (upd q)" if q: "find_row (sa_proposalId a) (td_proposals db) = Some q" for q
    proof -
      have "fixed_part (upd q) = fixed_part (ss_proposal sn)" using call q upd(1) by (simp add: good_call_def)
      moreover have "good_proposal s q" using q assms(1) by (auto simp: good_world_def)
      ultimately show ?thesis
        using good status upd(1) [of q] upd(2,3) by (auto simp: good_proposal_def fixed_part_def)
    qed
    have "find_row pid (td_proposals db') = Some q \<Longrightarrow> good_proposal s q" for pid q
      using row assms(1) by (auto simp: db' table_simps good_world_def split: if_splits)
    moreover have "good_call s db' c" if "c \<in> set calls" for c
      using assms(1) that upd(1)
      by (intro good_call_mono [of s db c db']) (auto simp: good_world_def db' table_simps)
    ultimately show ?thesis
      using subset Pair Inr by (auto simp: in_transaction_def good_world_def r)
  qed
qed

lemma expireOne_rows:
  "td_proposals (snd (expireOne now (pid, p) db)) = td_proposals db \<or>
   td_proposals (snd (expireOne now (pid, p) db)) = snd (update_where (\<lambda>i r. i = pid \<and> pr_status r = ''pending'')
     (\<lambda>r. r\<lparr>pr_status := ''expired'', pr_failureReason := Some ''Proposal expired before reaching its signature threshold''\<rparr>)
     (td_proposals db))"
  by (simp add: expireOne_def Let_def case_prod_beta)

lemma expireOne_proposals:
  "find_row i (td_proposals (snd (expireOne now (pid, p) db))) = Some r \<Longrightarrow>
     find_row i (td_proposals db) = Some r \<or>
     (\<exists>q. find_row i (td_proposals db) = Some q \<and> fixed_part r = fixed_part q \<and> pr_signatures r = pr_signatures q \<and> pr_status r = ''expired'')"
  "find_row i (td_proposals db) = Some q \<Longrightarrow>
     map_option fixed_part (find_row i (td_proposals (snd (expireOne now (pid, p) db)))) = Some (fixed_part q)"
  using expireOne_rows [of now pid p db] by (auto simp: table_simps fixed_part_def split: if_splits) blast

lemma expireOne_good:
  assumes "good_world s (db, calls)"
  shows "good_world s (snd (expireOne now (pid, p) db), calls)"
proof -
  let ?db' = "snd (expireOne now (pid, p) db)"
  have "good_proposal s r" if "find_row i (td_proposals ?db') = Some r" for i r
    using expireOne_proposals(1) [OF that] assms by (auto simp: good_world_def good_proposal_def fixed_part_def)
  moreover have "good_call s ?db' c" if "c \<in> set calls" for c
    using assms that by (intro good_call_mono [of s db c ?db'] expireOne_proposals(2)) (auto simp: good_world_def)
  ultimately show ?thesis by (auto simp: good_world_def)
qed

lemma good_world_step:
  assumes "proposal_step s cfg ops message_of w w'" and "good_world s w"
  shows "good_world s w'"
  using assms
proof (cases rule: proposal_step.cases)
  case (reads a db r calls)
  then show ?thesis using assms(2) submit_read_good [of s db calls a r] by (auto simp: good_world_def)
qed (simp_all add: create_good submit_write_good expireOne_good)

lemma good_world_reachable:
  assumes "proposal_reachable s cfg ops message_of w"
  shows "good_world s w"
proof -
  obtain db where start: "td_proposals db = []" and steps: "(proposal_step s cfg ops message_of)\<^sup>*\<^sup>* (db, []) w"
    using assms by (auto simp: proposal_reachable_def)
  from steps show ?thesis
  proof (induction rule: rtranclp_induct)
    case base
    show ?case by (simp add: good_world_def find_row_def start)
  qed (rule good_world_step)
qed


section \<open>What Horizon receives\<close>

text \<open>Documented behaviour of the SDK: a serialized envelope decodes to nothing else than itself, and a verifying
  signature is appended.\<close>

definition codec_law :: "sdk \<Rightarrow> envelope_ops \<Rightarrow> bool" where
  "codec_law s ops \<longleftrightarrow> (\<forall>tx tx'. sdk_transaction s (eo_toXDR ops tx) = Some tx' \<longrightarrow> tx' = tx)"

definition addSignature_law :: "sdk \<Rightarrow> envelope_ops \<Rightarrow> bool" where
  "addSignature_law s ops \<longleftrightarrow> (\<forall>tx k sig. sdk_verify s k (tx_hash tx) sig \<longrightarrow>
     (\<exists>hint. eo_addSignature ops tx k sig = Some (tx\<lparr>tx_signatures := tx_signatures tx @ [(hint, sig)]\<rparr>)))"

lemma add_all_appends:
  assumes "addSignature_law s ops" and "\<forall>(k, sig) \<in> set sigs. sdk_verify s k (tx_hash tx) sig"
  shows "\<exists>ds. add_all ops sigs tx = tx\<lparr>tx_signatures := tx_signatures tx @ ds\<rparr> \<and> map snd ds = map snd sigs"
  using assms(2)
proof (induction sigs arbitrary: tx)
  case Nil
  show ?case by (simp add: add_all_def)
next
  case (Cons d sigs)
  obtain k sig where d: "d = (k, sig)" by force
  obtain hint where add: "eo_addSignature ops tx k sig = Some (tx\<lparr>tx_signatures := tx_signatures tx @ [(hint, sig)]\<rparr>)"
    using assms(1) Cons.prems d unfolding addSignature_law_def by fastforce
  let ?tx = "tx\<lparr>tx_signatures := tx_signatures tx @ [(hint, sig)]\<rparr>"
  obtain ds where ds: "add_all ops sigs ?tx = ?tx\<lparr>tx_signatures := tx_signatures ?tx @ ds\<rparr>" "map snd ds = map snd sigs"
    using Cons.IH [of ?tx] Cons.prems by auto
  have "add_all ops (d # sigs) tx = add_all ops sigs ?tx" by (simp add: add_all_def d add)
  with ds show ?case by (intro exI [of _ "(hint, sig) # ds"]) (simp add: d)
qed

lemma mergeAndSubmit_sends:
  assumes "mergeAndSubmit s ops submit message_of pid sigs actor user db = (Inr res, db')"
    and "codec_law s ops" "addSignature_law s ops"
    and "find_row pid (td_proposals db) = Some r"
      "map_option tx_hash (sdk_transaction s (pr_xdr r)) = Some (pr_txHash r)" "good_signatures s (pr_txHash r) sigs"
  shows "\<exists>base ds hash. sdk_transaction s (pr_xdr r) = Some base
    \<and> submit (base\<lparr>tx_signatures := tx_signatures base @ ds\<rparr>) = Inr hash \<and> sr_stellarTxHash res = Some hash
    \<and> map snd ds = map st_signature sigs"
proof -
  obtain base where base: "sdk_transaction s (pr_xdr r) = Some base" "tx_hash base = pr_txHash r" using assms(5) by auto
  let ?sigs = "map (\<lambda>g. (st_publicKey g, st_signature g)) sigs"
  have "\<forall>(k, sig) \<in> set ?sigs. sdk_verify s k (tx_hash base) sig"
    using assms(6) base(2) by (auto simp: good_signatures_def)
  then obtain ds where ds: "add_all ops ?sigs base = base\<lparr>tx_signatures := tx_signatures base @ ds\<rparr>" "map snd ds = map snd ?sigs"
    using add_all_appends [OF assms(3)] by blast
  obtain hash where sent: "submitSigned s submit (eo_toXDR ops (add_all ops ?sigs base)) = Inr hash" "sr_stellarTxHash res = Some hash"
    using assms(1,4) base(1) by (auto simp: mergeAndSubmit_def Let_def split: sum.splits)
  then have "submit (base\<lparr>tx_signatures := tx_signatures base @ ds\<rparr>) = Inr hash"
    using assms(2) unfolding ds(1) by (auto simp: submitSigned_def codec_law_def split: option.splits)
  with sent(2) have "submit (base\<lparr>tx_signatures := tx_signatures base @ ds\<rparr>) = Inr hash" "sr_stellarTxHash res = Some hash" by simp_all
  with base ds show ?thesis by (intro exI [of _ base] exI [of _ ds] exI [of _ hash]) (simp add: comp_def)
qed

lemma submit_read_row:
  assumes "submit_read s a db = Inr (sn, tx)"
  shows "find_row (sa_proposalId a) (td_proposals db) = Some (ss_proposal sn)"
  using assms by (auto simp: submit_read_def split: option.splits if_splits)

lemma submit_read_sees:
  assumes "submit_read s a db = Inr (sn, tx)"
  shows "ss_approved sn = map av_userId (filter (\<lambda>v. av_proposalId v = sa_proposalId a \<and> av_txHash v = pr_txHash (ss_proposal sn))
      (td_approvals db))"
    and "ss_userIds sn = map (\<lambda>m. (mb_stellarPublicKey m, mb_userId m)) (filter (\<lambda>m. mb_groupId m = sa_groupId a) (td_members db))"
  using assms by (auto simp: submit_read_def split: option.splits if_splits)


section \<open>A concrete treasury\<close>

definition demo_base :: envelope where
  "demo_base =
     \<lparr>tx_source = ''GT'', tx_sequence = ''8'',
      tx_operations = [\<lparr>op_type = ''payment'', op_source = None, op_destination = Some ''GB'',
        op_asset = Native_asset, op_amount = Some ''10''\<rparr>],
      tx_fee = Fin 200, tx_memo = Some ''MP:x'',
      tx_timeBounds = Some \<lparr>minTime = Fin 0, maxTime = Fin 1300\<rparr>, tx_hash = ''h'', tx_signatures = []\<rparr>"

definition demo_envelopes :: "(string \<times> envelope) list" where
  "demo_envelopes =
     [(''base'', demo_base),
      (''by-a'', demo_base\<lparr>tx_signatures := [(''GA'', ''GA'')]\<rparr>),
      (''by-c'', demo_base\<lparr>tx_signatures := [(''GC'', ''GC'')]\<rparr>),
      (''by-both'', demo_base\<lparr>tx_signatures := [(''GA'', ''GA''), (''GC'', ''GC'')]\<rparr>)]"

definition demo_net :: sdk where
  "demo_net =
     \<lparr>sdk_fromXDR = (\<lambda>x. map_option Plain (map_of demo_envelopes x)),
      sdk_verify = (\<lambda>k h sig. sig = k), sdk_hint = (\<lambda>k. if k = [] then None else Some k),
      sdk_publicKey = (\<lambda>k. hd k = CHR ''G''), sdk_muxedKey = (\<lambda>_. False), sdk_baseFee = 100\<rparr>"

definition demo_ops :: envelope_ops where
  "demo_ops =
     \<lparr>eo_build = (\<lambda>_. Inr ''base''),
      eo_addSignature = (\<lambda>tx k sig. if sig = k then Some (tx\<lparr>tx_signatures := tx_signatures tx @ [(k, sig)]\<rparr>) else None),
      eo_toXDR = (\<lambda>tx. case List.find (\<lambda>(x, t). t = tx) demo_envelopes of Some (x, _) \<Rightarrow> x | None \<Rightarrow> ''?'')\<rparr>"

definition demo_treasury :: treasury_db where
  "demo_treasury =
     \<lparr>td_groups = [(''g'', \<lparr>gr_treasuryEnabled = True, gr_treasuryAccountPublicKey = Some ''GT''\<rparr>)],
      td_members = [\<lparr>mb_groupId = ''g'', mb_userId = ''ua'', mb_stellarPublicKey = ''GA'', mb_role = ''admin''\<rparr>,
                    \<lparr>mb_groupId = ''g'', mb_userId = ''uc'', mb_stellarPublicKey = ''GC'', mb_role = ''admin''\<rparr>],
      td_proposals = [], td_approvals = [], td_audit = []\<rparr>"

definition demo_create :: create_params where
  "demo_create =
     \<lparr>cp_groupId = ''g'', cp_creatorId = ''ua'', cp_creatorPublicKey = ''GA'', cp_destination = ''GB'', cp_amount = ''10'',
      cp_assetCode = ''XLM'', cp_assetIssuer = None, cp_memo = Some ''x''\<rparr>"

definition demo_proposed :: treasury_db where
  "demo_proposed = snd (create demo_net demo_money_config demo_ops (\<lambda>_. Inr demo_account) [] ''p'' demo_create 2 0 demo_treasury)"

definition demo_submit :: "string \<Rightarrow> string \<Rightarrow> submit_args" where
  "demo_submit user xdr =
     \<lparr>sa_proposalId = ''p'', sa_groupId = ''g'', sa_memberPublicKeys = [''GA'', ''GC''], sa_signedXdr = xdr, sa_userId = user,
      sa_actorPublicKey = None\<rparr>"

lemma demo_proposed_reachable:
  "proposal_reachable demo_net demo_money_config demo_ops (\<lambda>_. []) (demo_proposed, [])"
  unfolding proposal_reachable_def demo_proposed_def
  by (rule exI [of _ demo_treasury]) (auto simp: demo_treasury_def intro!: r_into_rtranclp proposal_step.creates)

lemma demo_proposed_row:
  "find_row ''p'' (td_proposals demo_proposed) =
     Some \<lparr>pr_groupId = ''g'', pr_creatorId = ''ua'', pr_xdr = ''base'', pr_txHash = ''h'', pr_threshold = 2, pr_signatures = [],
       pr_status = ''awaiting_signatures'', pr_stellarTxHash = None, pr_failureReason = None, pr_createdAt = 0\<rparr>"
  by code_simp


lemma demo_codec: "codec_law demo_net demo_ops"
  unfolding codec_law_def demo_ops_def demo_net_def sdk_transaction_def demo_envelopes_def
  by (auto split: if_splits option.splits)

lemma demo_addSignature: "addSignature_law demo_net demo_ops"
  by (auto simp: addSignature_law_def demo_ops_def demo_net_def)


section \<open>The lost update\<close>

text \<open>Both members' calls read the proposal before either writes; the second write replaces the first one's
  signature, while both approvals stay.\<close>

definition demo_read :: "string \<Rightarrow> string \<Rightarrow> submit_snapshot \<times> envelope" where
  "demo_read user xdr = (case submit_read demo_net (demo_submit user xdr) demo_proposed of Inr r \<Rightarrow> r | Inl _ \<Rightarrow> undefined)"

definition demo_write :: "string \<Rightarrow> string \<Rightarrow> treasury_db \<Rightarrow> treasury_db" where
  "demo_write user xdr db =
     snd (in_transaction (submit_write demo_net demo_ops (\<lambda>_. Inr ''done'') (\<lambda>_. []) (demo_submit user xdr) 5 (demo_read user xdr)) db)"

definition demo_lost :: treasury_db where
  "demo_lost = demo_write ''uc'' ''by-c'' (demo_write ''ua'' ''by-a'' demo_proposed)"

lemma demo_read_ok:
  "submit_read demo_net (demo_submit ''ua'' ''by-a'') demo_proposed = Inr (demo_read ''ua'' ''by-a'')"
  "submit_read demo_net (demo_submit ''uc'' ''by-c'') demo_proposed = Inr (demo_read ''uc'' ''by-c'')"
  by (code_simp, code_simp)

lemma demo_lost_reachable: "proposal_reachable demo_net demo_money_config demo_ops (\<lambda>_. []) (demo_lost, [])"
proof -
  let ?step = "proposal_step demo_net demo_money_config demo_ops (\<lambda>_. [])"
  let ?a = "(demo_submit ''ua'' ''by-a'', demo_read ''ua'' ''by-a'')" and ?c = "(demo_submit ''uc'' ''by-c'', demo_read ''uc'' ''by-c'')"
  obtain db0 where start: "td_proposals db0 = []" "?step\<^sup>*\<^sup>* (db0, []) (demo_proposed, [])"
    using demo_proposed_reachable by (auto simp: proposal_reachable_def)
  let ?db = "demo_write ''ua'' ''by-a'' demo_proposed"
  have s1: "?step (demo_proposed, []) (demo_proposed, [?a])" by (intro proposal_step.reads demo_read_ok)
  have s2: "?step (demo_proposed, [?a]) (demo_proposed, [?c, ?a])" by (intro proposal_step.reads demo_read_ok)
  have "?step (demo_proposed, [?c, ?a]) (?db, remove1 ?a [?c, ?a])"
    unfolding demo_write_def by (rule proposal_step.writes) simp
  then have s3: "?step (demo_proposed, [?c, ?a]) (?db, [?c])" by (simp add: demo_submit_def)
  have "?step (db, [?c]) (demo_write ''uc'' ''by-c'' db, remove1 ?c [?c])" for db
    unfolding demo_write_def by (rule proposal_step.writes) simp
  then have s4: "?step (?db, [?c]) (demo_lost, [])" by (simp add: demo_lost_def)
  from start(2) s1 have "?step\<^sup>*\<^sup>* (db0, []) (demo_proposed, [?a])" by (rule rtranclp.rtrancl_into_rtrancl)
  from this s2 have "?step\<^sup>*\<^sup>* (db0, []) (demo_proposed, [?c, ?a])" by (rule rtranclp.rtrancl_into_rtrancl)
  from this s3 have "?step\<^sup>*\<^sup>* (db0, []) (?db, [?c])" by (rule rtranclp.rtrancl_into_rtrancl)
  from this s4 have "?step\<^sup>*\<^sup>* (db0, []) (demo_lost, [])" by (rule rtranclp.rtrancl_into_rtrancl)
  with start(1) show ?thesis unfolding proposal_reachable_def by blast
qed

lemma demo_lost_row:
  "map_option (\<lambda>r. (map st_publicKey (pr_signatures r), pr_threshold r, pr_status r)) (find_row ''p'' (td_proposals demo_lost))
     = Some ([''GC''], 2, ''awaiting_signatures'')"
  "map av_userId (td_approvals demo_lost) = [''ua'', ''uc'']"
  by (code_simp, code_simp)

text \<open>A submission that matches only keys whose user has approved adds nothing.\<close>

lemma collect_one_approved:
  assumes "set (sa_memberPublicKeys a) \<subseteq> {k. truthy (js_map (ss_userIds sn) k) \<and> the (js_map (ss_userIds sn) k) \<in> set approved}"
  shows "collect_one s a sn hash now d (approvals, approved, verified) = Inr (approvals, approved, verified)"
proof (cases "List.find (\<lambda>k. sdk_hint s k = Some (fst d)) (js_set (sa_memberPublicKeys a))")
  case (Some k)
  then have "k \<in> set (sa_memberPublicKeys a)" by (metis find_Some_iff js_set_set(1) nth_mem)
  then show ?thesis using Some assms by (auto simp: collect_one_def Let_def)
qed (simp add: collect_one_def)

lemma collect_approved:
  assumes "set (sa_memberPublicKeys a) \<subseteq> {k. truthy (js_map (ss_userIds sn) k) \<and> the (js_map (ss_userIds sn) k) \<in> set approved}"
  shows "fold_res (collect_one s a sn hash now) ds (approvals, approved, verified) = Inr (approvals, approved, verified)"
  by (induction ds) (simp_all add: collect_one_approved [OF assms])

lemma submit_all_approved:
  assumes "submit_read s a db = Inr (sn, tx)"
    and "set (sa_memberPublicKeys a) \<subseteq> {k. truthy (js_map (ss_userIds sn) k) \<and> the (js_map (ss_userIds sn) k) \<in> set (ss_approved sn)}"
    and "int (length (pr_signatures (ss_proposal sn))) < pr_threshold (ss_proposal sn)"
  shows "fst (submitSignatures s ops submit message_of a now db) =
    Inr \<lparr>sr_status = ''awaiting_signatures'', sr_signatureCount = length (pr_signatures (ss_proposal sn)),
         sr_threshold = pr_threshold (ss_proposal sn), sr_stellarTxHash = None\<rparr>"
  using assms(1,3)
  by (simp add: submitSignatures_def in_transaction_def submit_write_def Let_def collect_approved [OF assms(2)])

text \<open>C39. Collected signatures can be lost, against the description that the row is locked. In a group of two whose
  proposal needs both signatures, each member's call may read the proposal before the other has written. Then one
  signature is overwritten although both approvals are stored, and no later submission of either member's signature
  changes the count: whatever envelope over the transaction is sent, the answer is one signature of two.\<close>

theorem concurrent_signature_lost:
  "proposal_reachable demo_net demo_money_config demo_ops (\<lambda>_. []) (demo_lost, [])
   \<and> map av_userId (td_approvals demo_lost) = [''ua'', ''uc'']
   \<and> (\<forall>user xdr ops submit message_of now.
        fst (submitSignatures demo_net ops submit message_of (demo_submit user xdr) now demo_lost)
          \<in> {Inl (AppError 400 ''INVALID_XDR''), Inl (AppError 400 ''XDR_MISMATCH''),
             Inr \<lparr>sr_status = ''awaiting_signatures'', sr_signatureCount = 1, sr_threshold = 2, sr_stellarTxHash = None\<rparr>})"
proof -
  have read: "submit_read demo_net (demo_submit user xdr) demo_lost
      \<in> {Inl (AppError 400 ''INVALID_XDR''), Inl (AppError 400 ''XDR_MISMATCH'')} \<union> range Inr" for user xdr
  proof -
    obtain r where row: "find_row ''p'' (td_proposals demo_lost) = Some r" using demo_lost_row(1) by auto
    have "map_option (\<lambda>r. (pr_groupId r, pr_xdr r, pr_status r)) (find_row ''p'' (td_proposals demo_lost)) = Some (''g'', ''base'', ''awaiting_signatures'')"
      by code_simp
    moreover have "sdk_transaction demo_net ''base'' = Some demo_base" by code_simp
    ultimately show ?thesis using row by (auto simp: submit_read_def demo_submit_def split: option.splits)
  qed
  have seen: "ss_approved sn = [''ua'', ''uc''] \<and> ss_userIds sn = [(''GA'', ''ua''), (''GC'', ''uc'')]
      \<and> length (pr_signatures (ss_proposal sn)) = 1 \<and> pr_threshold (ss_proposal sn) = 2"
    if "submit_read demo_net (demo_submit user xdr) demo_lost = Inr (sn, tx)" for user xdr sn tx
  proof -
    have row: "find_row ''p'' (td_proposals demo_lost) = Some (ss_proposal sn)"
      using submit_read_row [OF that] by (simp add: demo_submit_def)
    have "map_option (\<lambda>r. (pr_txHash r, length (pr_signatures r), pr_threshold r)) (find_row ''p'' (td_proposals demo_lost)) = Some (''h'', 1, 2)"
      "map av_userId (filter (\<lambda>v. av_proposalId v = ''p'' \<and> av_txHash v = ''h'') (td_approvals demo_lost)) = [''ua'', ''uc'']"
      "map (\<lambda>m. (mb_stellarPublicKey m, mb_userId m)) (filter (\<lambda>m. mb_groupId m = ''g'') (td_members demo_lost))
         = [(''GA'', ''ua''), (''GC'', ''uc'')]"
      by (code_simp, code_simp, code_simp)
    then show ?thesis using submit_read_sees [OF that] row by (simp add: demo_submit_def)
  qed
  have "fst (submitSignatures demo_net ops submit message_of (demo_submit user xdr) now demo_lost)
      \<in> {Inl (AppError 400 ''INVALID_XDR''), Inl (AppError 400 ''XDR_MISMATCH''),
         Inr \<lparr>sr_status = ''awaiting_signatures'', sr_signatureCount = 1, sr_threshold = 2, sr_stellarTxHash = None\<rparr>}"
    for user xdr ops submit message_of now
  proof (cases "submit_read demo_net (demo_submit user xdr) demo_lost")
    case (Inl e)
    then show ?thesis using read [of user xdr] by (auto simp: submitSignatures_def in_transaction_def)
  next
    case (Inr r)
    obtain sn tx where r: "r = (sn, tx)" by force
    note S = seen [OF Inr [unfolded r]]
    have "set (sa_memberPublicKeys (demo_submit user xdr)) \<subseteq> {k. truthy (js_map (ss_userIds sn) k) \<and> the (js_map (ss_userIds sn) k) \<in> set (ss_approved sn)}"
      using S by (simp add: demo_submit_def js_map_def truthy_def)
    then show ?thesis using submit_all_approved [OF Inr [unfolded r]] S by simp
  qed
  then show ?thesis using demo_lost_reachable demo_lost_row(2) by blast
qed

section \<open>Expired proposals\<close>

definition demo_expired :: treasury_db where
  "demo_expired =
     snd (expireStaleProposals 1000000000 7 10
       (snd (create demo_net demo_money_config demo_ops (\<lambda>_. Inr demo_account) [] ''p'' demo_create 1 0 demo_treasury)))"

text \<open>Expiry does not stop a payment. A proposal of one signature that the sweep has moved to \<^verbatim>\<open>expired\<close> still accepts a
  signature, is sent to Horizon and becomes \<^verbatim>\<open>confirmed\<close>; a proposal of several signatures is never swept, since it
  is created as \<^verbatim>\<open>awaiting_signatures\<close>.\<close>

theorem expired_proposal_executes:
  "map_option pr_status (find_row ''p'' (td_proposals demo_expired)) = Some ''expired''
   \<and> fst (submitSignatures demo_net demo_ops (\<lambda>_. Inr ''done'') (\<lambda>_. []) (demo_submit ''ua'' ''by-a'') 1000000001 demo_expired)
       = Inr \<lparr>sr_status = ''confirmed'', sr_signatureCount = 1, sr_threshold = 1, sr_stellarTxHash = Some ''done''\<rparr>
   \<and> fst (expireStaleProposals 1000000000 7 10 demo_proposed) = (0, 395200000)"
proof (intro conjI)
  show "map_option pr_status (find_row ''p'' (td_proposals demo_expired)) = Some ''expired''" by code_simp
  show "fst (submitSignatures demo_net demo_ops (\<lambda>_. Inr ''done'') (\<lambda>_. []) (demo_submit ''ua'' ''by-a'') 1000000001 demo_expired)
       = Inr \<lparr>sr_status = ''confirmed'', sr_signatureCount = 1, sr_threshold = 1, sr_stellarTxHash = Some ''done''\<rparr>"
    by code_simp
  show "fst (expireStaleProposals 1000000000 7 10 demo_proposed) = (0, 395200000)" by code_simp
qed

end
