(* ===== verification/Treasury_Signatures.thy ===== *)
theory Treasury_Signatures
  imports Treasury_Proposals
begin

text \<open>
  The signature collector for envelopes built elsewhere: \<^verbatim>\<open>src/src/services/treasury-signatures.ts\<close>.
  Admins sign a stored envelope; every signature carries the on-chain weight its key had when it was
  verified, and at the account's high threshold the merged envelope goes to Horizon.

  As in \<open>Treasury_Proposals\<close> a call reads first (\<open>collector_read\<close>, which also verifies the submitted
  signatures), then writes (\<open>collector_write\<close>), and other calls may commit in between.
\<close>

section \<open>Rows\<close>

record tx_proposal_row =
  tp_groupId :: string
  tp_creatorId :: string
  tp_xdr :: string
  tp_description :: "string option"
  tp_txHash :: string
  tp_sourceAccount :: string
  tp_requiredWeight :: rat
  tp_status :: string
  tp_stellarTxHash :: "string option"
  tp_failureReason :: "string option"

record signature_row =
  sg_proposalId :: string
  sg_signerUserId :: string
  sg_signerPublicKey :: string
  sg_signature :: string
  sg_weight :: rat

record collector_db =
  cd_groups :: "group_row table"
  cd_members :: "member_row list"
  cd_proposals :: "tx_proposal_row table"
  cd_signatures :: "signature_row list"
  cd_audit :: "audit_row list"

section \<open>Creating a proposal\<close>

record create_tx_params =
  ct_groupId :: string
  ct_creatorId :: string
  ct_creatorPublicKey :: string
  ct_xdr :: string
  ct_description :: "string option"

definition treasury_policy :: "string \<Rightarrow> envelope_policy" where
  "treasury_policy key = \<lparr>ep_treasuryAccountPublicKey = key, ep_maxOperations = None, ep_maxFeeStroops = None\<rparr>"

definition accepted_envelope :: "sdk \<Rightarrow> string \<Rightarrow> string \<Rightarrow> int \<Rightarrow> envelope res" where
  "accepted_envelope s treasuryKey xdr now =
     (case parseTreasuryXdr s xdr of
        Inl e \<Rightarrow> Inl (policy_exn e)
      | Inr tx \<Rightarrow>
          if tx_signatures tx \<noteq> [] then Inl (AppError 400 ''XDR_NOT_UNSIGNED'')
          else (case assertTreasuryEnvelopePolicy s tx (treasury_policy treasuryKey) now of
                  Inl e \<Rightarrow> Inl (policy_exn e)
                | Inr _ \<Rightarrow> Inr tx))"

definition createProposal ::
  "sdk \<Rightarrow> (string \<Rightarrow> account_snapshot res) \<Rightarrow> int \<Rightarrow> string \<Rightarrow> create_tx_params \<Rightarrow> collector_db \<Rightarrow> string res \<times> collector_db" where
  "createProposal s loadAccount now newId p db =
     (case find_row (ct_groupId p) (cd_groups db) of
        None \<Rightarrow> (Inl (AppError 400 ''TREASURY_DISABLED''), db)
      | Some g \<Rightarrow>
          if \<not> gr_treasuryEnabled g \<or> \<not> truthy (gr_treasuryAccountPublicKey g)
          then (Inl (AppError 400 ''TREASURY_DISABLED''), db)
          else
            let key = the (gr_treasuryAccountPublicKey g) in
            (case accepted_envelope s key (ct_xdr p) now of
               Inl e \<Rightarrow> (Inl e, db)
             | Inr tx \<Rightarrow>
                 (case loadAccount key of
                    Inl e \<Rightarrow> (Inl e, db)
                  | Inr account \<Rightarrow>
                      if \<not> sn_exists account then (Inl (AppError 400 ''TREASURY_UNFUNDED''), db)
                      else if find_row newId (cd_proposals db) \<noteq> None then (Inl (PlainError ''Unique constraint failed''), db)
                      else
                        let row = \<lparr>tp_groupId = ct_groupId p, tp_creatorId = ct_creatorId p, tp_xdr = ct_xdr p,
                                   tp_description = ct_description p, tp_txHash = tx_hash tx, tp_sourceAccount = key,
                                   tp_requiredWeight = th_high (sn_thresholds account), tp_status = ''PENDING_SIGNATURES'',
                                   tp_stellarTxHash = None, tp_failureReason = None\<rparr>
                        in (Inr newId,
                            db\<lparr>cd_proposals := (newId, row) # cd_proposals db,
                               cd_audit := auditMultisigActionTx
                                 \<lparr>mu_userId = Some (ct_creatorId p), mu_groupId = ct_groupId p, mu_proposalId = newId,
                                  mu_action = ''treasury.tx_proposal.created'', mu_entityType = Some ''treasury_tx_proposal'',
                                  mu_actorPublicKey = Some (ct_creatorPublicKey p), mu_outcome = None,
                                  mu_metadata = [(''sourceAccount'', JStr key), (''txHash'', JStr (tx_hash tx)),
                                    (''requiredWeight'', JNum (Fin (tp_requiredWeight row)))]
                                    @ (case ct_description p of
                                         Some t \<Rightarrow> if t = [] then [] else [(''description'', JStr t)]
                                       | None \<Rightarrow> [])\<rparr> (cd_audit db)\<rparr>))))"

section \<open>Collecting a signature\<close>

record signature_args =
  sb_proposalId :: string
  sb_groupId :: string
  sb_userId :: string
  sb_signedXdr :: string
  sb_actorPublicKey :: "string option"

record admin_signer =
  ad_userId :: string
  ad_publicKey :: string
  ad_weight :: rat

definition authorized_admins :: "member_row list \<Rightarrow> string \<Rightarrow> account_snapshot \<Rightarrow> admin_signer list" where
  "authorized_admins members groupId account =
     filter (\<lambda>a. ad_weight a > 0)
       (map (\<lambda>m. \<lparr>ad_userId = mb_userId m, ad_publicKey = mb_stellarPublicKey m,
                  ad_weight = (case js_map (sn_signers account) (mb_stellarPublicKey m) of Some w \<Rightarrow> w | None \<Rightarrow> 0)\<rparr>)
         (filter (\<lambda>m. mb_groupId m = groupId \<and> mb_role m = ''admin'') members))"

text \<open>One signature of the envelope; the state holds the new signatures, whose users are \<^verbatim>\<open>seenThisRequest\<close>.\<close>

definition verify_one ::
  "sdk \<Rightarrow> admin_signer list \<Rightarrow> string \<Rightarrow> string list \<Rightarrow> string \<times> string \<Rightarrow> (admin_signer \<times> string) list
    \<Rightarrow> (admin_signer \<times> string) list res" where
  "verify_one s admins hash signedUserIds d news =
     (case List.find (\<lambda>a. sdk_hint s (ad_publicKey a) = Some (fst d)) admins of
        None \<Rightarrow> Inl (AppError 400 ''UNAUTHORIZED_SIGNER'')
      | Some a \<Rightarrow>
          if \<not> sdk_verify s (ad_publicKey a) hash (snd d) then Inl (AppError 400 ''INVALID_SIGNATURE'')
          else if ad_userId a \<in> set signedUserIds \<or> ad_userId a \<in> (\<lambda>n. ad_userId (fst n)) ` set news then Inr news
          else Inr (news @ [(a, snd d)]))"

record collector_snapshot =
  cs_proposal :: tx_proposal_row
  cs_actor :: "string option"
  cs_news :: "(admin_signer \<times> string) list"
  cs_required :: rat

definition collector_read ::
  "sdk \<Rightarrow> (string \<Rightarrow> account_snapshot res) \<Rightarrow> int \<Rightarrow> signature_args \<Rightarrow> collector_db \<Rightarrow> collector_snapshot res" where
  "collector_read s loadAccount now a db =
     (case find_row (sb_proposalId a) (cd_proposals db) of
        None \<Rightarrow> Inl (AppError 404 ''NOT_FOUND'')
      | Some p \<Rightarrow>
          if tp_groupId p \<noteq> sb_groupId a then Inl (AppError 404 ''NOT_FOUND'')
          else if tp_status p = ''SUBMITTED'' then Inl (AppError 409 ''ALREADY_SUBMITTED'')
          else if tp_status p = ''FAILED'' then Inl (AppError 409 ''PROPOSAL_FAILED'')
          else (case loadAccount (tp_sourceAccount p) of
             Inl e \<Rightarrow> Inl e
           | Inr account \<Rightarrow>
               if \<not> sn_exists account then Inl (AppError 400 ''TREASURY_UNFUNDED'')
               else
                 let admins = authorized_admins (cd_members db) (sb_groupId a) account;
                     actor = (case List.find (\<lambda>d. ad_userId d = sb_userId a) admins of
                                Some d \<Rightarrow> Some (ad_publicKey d) | None \<Rightarrow> sb_actorPublicKey a)
                 in (case parseTreasuryXdr s (sb_signedXdr a) of
                   Inl e \<Rightarrow> Inl (policy_exn e)
                 | Inr submitted \<Rightarrow>
                     if tx_hash submitted \<noteq> tp_txHash p then Inl (AppError 400 ''XDR_MISMATCH'')
                     else if tx_signatures submitted = [] then Inl (AppError 400 ''XDR_UNSIGNED'')
                     else (case assertTreasuryEnvelopePolicy s submitted (treasury_policy (tp_sourceAccount p)) now of
                       Inl e \<Rightarrow> Inl (policy_exn e)
                     | Inr _ \<Rightarrow>
                         res_bind (fold_res (verify_one s admins (tx_hash submitted)
                             (map sg_signerUserId (filter (\<lambda>g. sg_proposalId g = sb_proposalId a) (cd_signatures db))))
                             (tx_signatures submitted) [])
                           (\<lambda>news. Inr \<lparr>cs_proposal = p, cs_actor = actor, cs_news = news,
                                        cs_required = th_high (sn_thresholds account)\<rparr>)))))"

definition collector_entry :: "signature_args \<Rightarrow> collector_snapshot \<Rightarrow> string option \<Rightarrow> string option \<Rightarrow> string
    \<Rightarrow> (string \<times> json) list \<Rightarrow> multisig_audit" where
  "collector_entry a sn user actor action metadata =
     \<lparr>mu_userId = user, mu_groupId = tp_groupId (cs_proposal sn), mu_proposalId = sb_proposalId a, mu_action = action,
      mu_entityType = Some ''treasury_tx_proposal'', mu_actorPublicKey = actor, mu_outcome = None, mu_metadata = metadata\<rparr>"

text \<open>The insert of one signature: a violated unique constraint skips it.\<close>

definition insert_signature ::
  "signature_args \<Rightarrow> collector_snapshot \<Rightarrow> admin_signer \<times> string \<Rightarrow> signature_row list \<times> audit_row list
    \<Rightarrow> signature_row list \<times> audit_row list" where
  "insert_signature a sn n st =
     (if \<exists>g \<in> set (fst st). sg_proposalId g = sb_proposalId a \<and> sg_signerUserId g = ad_userId (fst n) then st
      else
        (fst st @ [\<lparr>sg_proposalId = sb_proposalId a, sg_signerUserId = ad_userId (fst n),
                    sg_signerPublicKey = ad_publicKey (fst n), sg_signature = snd n, sg_weight = ad_weight (fst n)\<rparr>],
         auditMultisigActionTx (collector_entry a sn (Some (ad_userId (fst n))) (Some (ad_publicKey (fst n)))
           ''treasury.tx_proposal.signature_added''
           [(''signerPublicKey'', JStr (ad_publicKey (fst n))), (''txHash'', JStr (tp_txHash (cs_proposal sn))),
            (''weight'', JNum (Fin (ad_weight (fst n))))]) (snd st)))"

definition signatures_of :: "string \<Rightarrow> signature_row list \<Rightarrow> signature_row list" where
  "signatures_of pid rows = filter (\<lambda>g. sg_proposalId g = pid) rows"

record collector_result =
  cr_status :: string
  cr_totalWeight :: rat
  cr_requiredWeight :: rat
  cr_stellarTxHash :: "string option"

definition collector_write ::
  "sdk \<Rightarrow> envelope_ops \<Rightarrow> (envelope \<Rightarrow> string res) \<Rightarrow> (exn \<Rightarrow> string) \<Rightarrow> signature_args \<Rightarrow> collector_snapshot \<Rightarrow> collector_db
    \<Rightarrow> collector_result res \<times> collector_db" where
  "collector_write s ops submit message_of a sn db =
     (let pid = sb_proposalId a; p = cs_proposal sn; required = cs_required sn;
          (rows, entries) = fold (insert_signature a sn) (cs_news sn) (cd_signatures db, cd_audit db);
          all = signatures_of pid rows;
          total = sum_list (map sg_weight all);
          weights = [(''totalWeight'', JNum (Fin total)), (''requiredWeight'', JNum (Fin required))];
          setStatus = (\<lambda>st. update_row pid (\<lambda>r. r\<lparr>tp_status := st, tp_requiredWeight := required\<rparr>) (cd_proposals db))
      in
      if total < required
      then (Inr \<lparr>cr_status = ''PENDING_SIGNATURES'', cr_totalWeight = total, cr_requiredWeight = required, cr_stellarTxHash = None\<rparr>,
            db\<lparr>cd_signatures := rows, cd_audit := entries, cd_proposals := setStatus ''PENDING_SIGNATURES''\<rparr>)
      else
        let entries1 = auditMultisigActionTx (collector_entry a sn (Some (sb_userId a)) (cs_actor sn) ''treasury.tx_proposal.ready''
                     (weights @ [(''txHash'', JStr (tp_txHash p))])) entries;
            db1 = db\<lparr>cd_signatures := rows, cd_audit := entries1, cd_proposals := setStatus ''READY''\<rparr>
        in (case parseTreasuryXdr s (tp_xdr p) of
              Inl e \<Rightarrow> (Inl (policy_exn e), db1)
            | Inr base \<Rightarrow>
                (case submitSigned s submit (eo_toXDR ops (add_all ops (map (\<lambda>g. (sg_signerPublicKey g, sg_signature g)) all) base)) of
                   Inr hash \<Rightarrow>
                     (Inr \<lparr>cr_status = ''SUBMITTED'', cr_totalWeight = total, cr_requiredWeight = required, cr_stellarTxHash = Some hash\<rparr>,
                      db1\<lparr>cd_proposals := update_row pid (\<lambda>r. r\<lparr>tp_status := ''SUBMITTED'', tp_stellarTxHash := Some hash\<rparr>) (cd_proposals db1),
                          cd_audit := auditMultisigActionTx (collector_entry a sn (Some (sb_userId a)) (cs_actor sn)
                            ''treasury.tx_proposal.submitted''
                            ((''stellarTxHash'', JStr hash) # weights @ [(''txHash'', JStr (tp_txHash p))])) entries1\<rparr>)
                 | Inl e \<Rightarrow>
                     (Inl (AppError 502 ''UPSTREAM_ERROR''),
                      db1\<lparr>cd_proposals := update_row pid
                            (\<lambda>r. r\<lparr>tp_status := ''FAILED'', tp_failureReason := Some (message_of e)\<rparr>) (cd_proposals db1),
                          cd_audit := auditMultisigActionTx ((collector_entry a sn (Some (sb_userId a)) (cs_actor sn)
                            ''treasury.tx_proposal.failed''
                            ((''reason'', JStr (message_of e)) # weights @ [(''txHash'', JStr (tp_txHash p))]))
                            \<lparr>mu_outcome := Some ''failure''\<rparr>) entries1\<rparr>))))"

definition submitSignature ::
  "sdk \<Rightarrow> envelope_ops \<Rightarrow> (string \<Rightarrow> account_snapshot res) \<Rightarrow> (envelope \<Rightarrow> string res) \<Rightarrow> (exn \<Rightarrow> string) \<Rightarrow> int \<Rightarrow> signature_args
    \<Rightarrow> collector_db \<Rightarrow> collector_result res \<times> collector_db" where
  "submitSignature s ops loadAccount submit message_of now a =
     in_transaction (\<lambda>db. case collector_read s loadAccount now a db of
        Inl e \<Rightarrow> (Inl e, db)
      | Inr sn \<Rightarrow> collector_write s ops submit message_of a sn db)"

section \<open>Interleaved calls\<close>

type_synonym collector_world = "collector_db \<times> (signature_args \<times> collector_snapshot) list"

inductive collector_step :: "sdk \<Rightarrow> envelope_ops \<Rightarrow> (exn \<Rightarrow> string) \<Rightarrow> collector_world \<Rightarrow> collector_world \<Rightarrow> bool"
  for s ops message_of where
  creates: "collector_step s ops message_of (db, calls) (snd (createProposal s loadAccount now newId p db), calls)"
| reads: "collector_read s loadAccount now a db = Inr sn \<Longrightarrow> collector_step s ops message_of (db, calls) (db, (a, sn) # calls)"
| writes: "(a, sn) \<in> set calls \<Longrightarrow>
    collector_step s ops message_of (db, calls)
      (snd (in_transaction (collector_write s ops submit message_of a sn) db), remove1 (a, sn) calls)"

definition collector_reachable :: "sdk \<Rightarrow> envelope_ops \<Rightarrow> (exn \<Rightarrow> string) \<Rightarrow> collector_world \<Rightarrow> bool" where
  "collector_reachable s ops message_of w \<longleftrightarrow>
     (\<exists>db. cd_proposals db = [] \<and> cd_signatures db = [] \<and> (collector_step s ops message_of)\<^sup>*\<^sup>* (db, []) w)"

section \<open>The invariant of the collector\<close>

text \<open>The stored envelope was acceptable for its account when it was stored, and is what the hash says.\<close>

definition good_tx_proposal :: "sdk \<Rightarrow> tx_proposal_row \<Rightarrow> bool" where
  "good_tx_proposal s r \<longleftrightarrow>
     (\<exists>tx now summary. parseTreasuryXdr s (tp_xdr r) = Inr tx \<and> tx_hash tx = tp_txHash r \<and> tx_signatures tx = []
        \<and> assertTreasuryEnvelopePolicy s tx (treasury_policy (tp_sourceAccount r)) now = Inr summary)"

definition fixed_tx_part :: "tx_proposal_row \<Rightarrow> string \<times> string \<times> string" where
  "fixed_tx_part r = (tp_xdr r, tp_txHash r, tp_sourceAccount r)"

definition good_rows :: "sdk \<Rightarrow> (string \<Rightarrow> string option) \<Rightarrow> signature_row list \<Rightarrow> bool" where
  "good_rows s hash_of rows \<longleftrightarrow>
     distinct (map (\<lambda>g. (sg_proposalId g, sg_signerUserId g)) rows)
     \<and> (\<forall>g \<in> set rows. 0 < sg_weight g
          \<and> (\<exists>h. hash_of (sg_proposalId g) = Some h \<and> sdk_verify s (sg_signerPublicKey g) h (sg_signature g)))"

definition hash_of :: "collector_db \<Rightarrow> string \<Rightarrow> string option" where
  "hash_of db pid = map_option tp_txHash (find_row pid (cd_proposals db))"

definition good_status :: "signature_row list \<Rightarrow> string \<Rightarrow> tx_proposal_row \<Rightarrow> bool" where
  "good_status rows pid r \<longleftrightarrow>
     tp_status r \<in> {''PENDING_SIGNATURES'', ''SUBMITTED''}
     \<and> (tp_status r = ''SUBMITTED'' \<longrightarrow> tp_requiredWeight r \<le> sum_list (map sg_weight (signatures_of pid rows)))"

definition good_collector_call :: "sdk \<Rightarrow> collector_db \<Rightarrow> signature_args \<times> collector_snapshot \<Rightarrow> bool" where
  "good_collector_call s db c \<longleftrightarrow>
     map_option fixed_tx_part (find_row (sb_proposalId (fst c)) (cd_proposals db)) = Some (fixed_tx_part (cs_proposal (snd c)))
     \<and> (\<forall>n \<in> set (cs_news (snd c)). 0 < ad_weight (fst n)
          \<and> sdk_verify s (ad_publicKey (fst n)) (tp_txHash (cs_proposal (snd c))) (snd n))"

definition good_collector :: "sdk \<Rightarrow> collector_world \<Rightarrow> bool" where
  "good_collector s w \<longleftrightarrow>
     (\<forall>pid r. find_row pid (cd_proposals (fst w)) = Some r \<longrightarrow> good_tx_proposal s r \<and> good_status (cd_signatures (fst w)) pid r)
     \<and> good_rows s (hash_of (fst w)) (cd_signatures (fst w))
     \<and> (\<forall>c \<in> set (snd w). good_collector_call s (fst w) c)"

lemma verify_all_good:
  assumes "fold_res (verify_one s admins hash signedUserIds) ds [] = Inr news"
    and "\<forall>a \<in> set admins. 0 < ad_weight a"
  shows "\<forall>n \<in> set news. 0 < ad_weight (fst n) \<and> sdk_verify s (ad_publicKey (fst n)) hash (snd n)"
proof (rule fold_res_invariant [OF assms(1), where P = "\<lambda>news. \<forall>n \<in> set news. 0 < ad_weight (fst n) \<and> sdk_verify s (ad_publicKey (fst n)) hash (snd n)"])
  fix d news news'
  assume step: "verify_one s admins hash signedUserIds d news = Inr news'"
    and ok: "\<forall>n \<in> set news. 0 < ad_weight (fst n) \<and> sdk_verify s (ad_publicKey (fst n)) hash (snd n)"
  then show "\<forall>n \<in> set news'. 0 < ad_weight (fst n) \<and> sdk_verify s (ad_publicKey (fst n)) hash (snd n)"
    using assms(2) by (auto simp: verify_one_def find_Some_iff split: option.splits if_splits)
qed simp

lemma authorized_admins_positive: "a \<in> set (authorized_admins members groupId account) \<Longrightarrow> 0 < ad_weight a"
  by (auto simp: authorized_admins_def)

lemma collector_read_good:
  assumes "collector_read s loadAccount now a db = Inr sn"
  shows "good_collector_call s db (a, sn)"
proof -
  obtain p where row: "find_row (sb_proposalId a) (cd_proposals db) = Some p"
    using assms by (cases "find_row (sb_proposalId a) (cd_proposals db)") (auto simp: collector_read_def)
  obtain account where account: "loadAccount (tp_sourceAccount p) = Inr account"
    using assms row by (auto simp: collector_read_def split: if_splits sum.splits)
  obtain submitted where submitted: "parseTreasuryXdr s (sb_signedXdr a) = Inr submitted"
    using assms row account by (auto simp: collector_read_def Let_def split: if_splits sum.splits)
  let ?admins = "authorized_admins (cd_members db) (sb_groupId a) account"
  have read: "tx_hash submitted = tp_txHash p \<and> cs_proposal sn = p
    \<and> fold_res (verify_one s ?admins (tx_hash submitted)
        (map sg_signerUserId (filter (\<lambda>g. sg_proposalId g = sb_proposalId a) (cd_signatures db)))) (tx_signatures submitted) []
      = Inr (cs_news sn)"
    using assms row account submitted by (auto simp: collector_read_def Let_def res_simps split: if_splits sum.splits)
  have "\<forall>n \<in> set (cs_news sn). 0 < ad_weight (fst n) \<and> sdk_verify s (ad_publicKey (fst n)) (tx_hash submitted) (snd n)"
    by (rule verify_all_good [of _ ?admins]) (use read authorized_admins_positive in auto)
  then show ?thesis using row read by (auto simp: good_collector_call_def)
qed

lemma insert_signature_good:
  assumes "good_rows s H (fst st)" and "H (sb_proposalId a) = Some h"
    and "0 < ad_weight (fst n)" "sdk_verify s (ad_publicKey (fst n)) h (snd n)"
  shows "good_rows s H (fst (insert_signature a sn n st))"
    and "prefix (fst st) (fst (insert_signature a sn n st))"
  using assms by (auto simp: good_rows_def insert_signature_def)

lemma insert_signatures_good:
  assumes "good_rows s H rows" and "H (sb_proposalId a) = Some h"
    and "\<forall>n \<in> set news. 0 < ad_weight (fst n) \<and> sdk_verify s (ad_publicKey (fst n)) h (snd n)"
    and "fold (insert_signature a sn) news (rows, entries) = (rows', entries')"
  shows "good_rows s H rows' \<and> prefix rows rows'"
  using assms
proof (induction news arbitrary: rows entries)
  case (Cons n news)
  have "good_rows s H (fst (insert_signature a sn n (rows, entries)))" "prefix rows (fst (insert_signature a sn n (rows, entries)))"
    using insert_signature_good [of s H "(rows, entries)" a h n sn] Cons.prems by auto
  with Cons.IH [of "fst (insert_signature a sn n (rows, entries))" "snd (insert_signature a sn n (rows, entries))"] Cons.prems
  show ?case by (auto intro: prefix_order.trans)
qed simp

lemma weight_grows:
  assumes "prefix rows rows'" and "\<forall>g \<in> set rows'. 0 < sg_weight g"
  shows "sum_list (map sg_weight (signatures_of pid rows)) \<le> sum_list (map sg_weight (signatures_of pid rows'))"
proof -
  obtain more where "rows' = rows @ more" using assms(1) by (auto simp: prefix_def)
  moreover have "0 \<le> sum_list (map sg_weight (signatures_of pid more))"
    using assms(2) calculation by (intro sum_list_nonneg) (auto simp: signatures_of_def less_imp_le)
  ultimately show ?thesis by (simp add: signatures_of_def)
qed

text \<open>A committed write: more signatures, all good, and the status follows the recorded weight.\<close>

lemma collector_write_commits:
  assumes "collector_write s ops submit message_of a sn db = (Inr res, db')"
    and "good_collector_call s db (a, sn)" "good_rows s (hash_of db) (cd_signatures db)"
  obtains upd where
    "good_rows s (hash_of db) (cd_signatures db')" "prefix (cd_signatures db) (cd_signatures db')"
    "cd_proposals db' = update_row (sb_proposalId a) upd (cd_proposals db)"
    "\<And>r. fixed_tx_part (upd r) = fixed_tx_part r"
    "\<And>r. good_status (cd_signatures db') (sb_proposalId a) (upd r)"
proof -
  obtain rows entries where fold: "fold (insert_signature a sn) (cs_news sn) (cd_signatures db, cd_audit db) = (rows, entries)" by force
  have "hash_of db (sb_proposalId a) = Some (tp_txHash (cs_proposal sn))"
    using assms(2) by (auto simp: good_collector_call_def hash_of_def fixed_tx_part_def)
  then have good: "good_rows s (hash_of db) rows" "prefix (cd_signatures db) rows"
    using insert_signatures_good [OF assms(3) _ _ fold] assms(2) by (auto simp: good_collector_call_def)
  let ?total = "sum_list (map sg_weight (signatures_of (sb_proposalId a) rows))"
  show thesis
  proof (cases "?total < cs_required sn")
    case True
    show thesis
      by (rule that [of "\<lambda>r. r\<lparr>tp_status := ''PENDING_SIGNATURES'', tp_requiredWeight := cs_required sn\<rparr>"])
        (use assms(1) True good in \<open>auto simp: collector_write_def Let_def fold fixed_tx_part_def good_status_def\<close>)
  next
    case False
    from assms(1) False obtain h where
      db': "cd_signatures db' = rows"
        "cd_proposals db' = update_row (sb_proposalId a) (\<lambda>r. r\<lparr>tp_status := ''SUBMITTED'', tp_stellarTxHash := Some h\<rparr>)
          (update_row (sb_proposalId a) (\<lambda>r. r\<lparr>tp_status := ''READY'', tp_requiredWeight := cs_required sn\<rparr>) (cd_proposals db))"
      by (auto simp: collector_write_def Let_def fold split: sum.splits)
    show thesis
      by (rule that [of "\<lambda>r. r\<lparr>tp_status := ''SUBMITTED'', tp_requiredWeight := cs_required sn, tp_stellarTxHash := Some h\<rparr>"])
        (use db' False good in \<open>auto simp: fixed_tx_part_def good_status_def update_row_def update_where_def\<close>)
  qed
qed

lemma good_collector_call_mono:
  assumes "good_collector_call s db c"
    and "\<And>pid r. find_row pid (cd_proposals db) = Some r \<Longrightarrow>
      map_option fixed_tx_part (find_row pid (cd_proposals db')) = Some (fixed_tx_part r)"
  shows "good_collector_call s db' c"
  using assms unfolding good_collector_call_def by (metis (no_types, lifting) map_option_eq_Some)

lemma good_rows_mono:
  assumes "good_rows s H rows" and "\<And>pid h. H pid = Some h \<Longrightarrow> H' pid = Some h"
  shows "good_rows s H' rows"
  using assms unfolding good_rows_def by blast

lemma hash_of_kept:
  assumes "\<And>pid r. find_row pid (cd_proposals db) = Some r \<Longrightarrow>
      map_option fixed_tx_part (find_row pid (cd_proposals db')) = Some (fixed_tx_part r)"
    and "hash_of db pid = Some h"
  shows "hash_of db' pid = Some h"
proof -
  obtain r where "find_row pid (cd_proposals db) = Some r" "tp_txHash r = h" using assms(2) by (auto simp: hash_of_def)
  with assms(1) [of pid r] show ?thesis by (auto simp: hash_of_def fixed_tx_part_def)
qed

lemma createProposal_good:
  assumes "good_collector s (db, calls)"
  shows "good_collector s (snd (createProposal s loadAccount now newId p db), calls)"
proof (cases "cd_proposals (snd (createProposal s loadAccount now newId p db)) = cd_proposals db")
  case True
  moreover have "cd_signatures (snd (createProposal s loadAccount now newId p db)) = cd_signatures db"
    by (simp add: createProposal_def Let_def split: option.splits sum.splits)
  ultimately show ?thesis using assms by (simp add: good_collector_def good_collector_call_def hash_of_def [abs_def])
next
  case False
  let ?db' = "snd (createProposal s loadAccount now newId p db)"
  from False obtain key tx r where
    accepted: "accepted_envelope s key (ct_xdr p) now = Inr tx"
    and fresh: "find_row newId (cd_proposals db) = None"
    and db': "cd_proposals ?db' = (newId, r) # cd_proposals db" "cd_signatures ?db' = cd_signatures db"
    and r: "tp_xdr r = ct_xdr p" "tp_txHash r = tx_hash tx" "tp_sourceAccount r = key" "tp_status r = ''PENDING_SIGNATURES''"
    by (auto simp: createProposal_def Let_def split: option.splits if_splits sum.splits)
  have "good_tx_proposal s r"
    using accepted r by (auto simp: accepted_envelope_def good_tx_proposal_def split: sum.splits if_splits)
  moreover have "good_status rows newId r" for rows using r by (simp add: good_status_def)
  moreover have kept: "map_option fixed_tx_part (find_row pid (cd_proposals ?db')) = Some (fixed_tx_part q)"
    if "find_row pid (cd_proposals db) = Some q" for pid q
    using that fresh by (auto simp: db' find_row_def)
  ultimately show ?thesis
    using assms good_collector_call_mono [of s db _ ?db', OF _ kept] good_rows_mono [OF _ hash_of_kept [OF kept]]
    unfolding good_collector_def by (auto simp: db' find_row_def)
qed

lemma collector_write_good:
  assumes "good_collector s (db, calls)" and "(a, sn) \<in> set calls"
  shows "good_collector s (snd (in_transaction (collector_write s ops submit message_of a sn) db), remove1 (a, sn) calls)"
proof (cases "collector_write s ops submit message_of a sn db")
  case (Pair res db')
  have subset: "set (remove1 (a, sn) calls) \<subseteq> set calls" by (rule set_remove1_subset)
  show ?thesis
  proof (cases res)
    case (Inl e)
    then show ?thesis using assms(1) Pair subset by (auto simp: in_transaction_def good_collector_def)
  next
    case (Inr ok)
    have call: "good_collector_call s db (a, sn)" and rows: "good_rows s (hash_of db) (cd_signatures db)"
      and stored: "\<And>pid r. find_row pid (cd_proposals db) = Some r \<Longrightarrow> good_tx_proposal s r \<and> good_status (cd_signatures db) pid r"
      using assms by (auto simp: good_collector_def)
    obtain upd where
      good: "good_rows s (hash_of db) (cd_signatures db')" "prefix (cd_signatures db) (cd_signatures db')"
      and db': "cd_proposals db' = update_row (sb_proposalId a) upd (cd_proposals db)"
      and upd: "\<And>r. fixed_tx_part (upd r) = fixed_tx_part r" "\<And>r. good_status (cd_signatures db') (sb_proposalId a) (upd r)"
      using collector_write_commits [OF Pair [unfolded Inr] call rows] by metis
    have kept: "map_option fixed_tx_part (find_row pid (cd_proposals db')) = Some (fixed_tx_part q)"
      if "find_row pid (cd_proposals db) = Some q" for pid q
      using that upd(1) by (auto simp: db' table_simps)
    have same: "good_tx_proposal s (upd q) = good_tx_proposal s q" for q
      using upd(1) [of q] by (simp add: good_tx_proposal_def fixed_tx_part_def)
    have "0 < sg_weight g" if "g \<in> set (cd_signatures db')" for g using good(1) that by (auto simp: good_rows_def)
    then have status: "good_status (cd_signatures db') pid q" if "good_status (cd_signatures db) pid q" for pid q
      using that weight_grows [OF good(2), of pid] by (auto simp: good_status_def)
    have "good_tx_proposal s q \<and> good_status (cd_signatures db') pid q" if "find_row pid (cd_proposals db') = Some q" for pid q
      using that stored upd(2) same status by (auto simp: db' table_simps split: if_splits)
    moreover have "good_collector_call s db' c" if "c \<in> set calls" for c
      using assms(1) that good_collector_call_mono [of s db c db', OF _ kept] by (auto simp: good_collector_def)
    moreover have "good_rows s (hash_of db') (cd_signatures db')"
      by (rule good_rows_mono [OF good(1) hash_of_kept [OF kept]])
    ultimately show ?thesis
      using subset Pair Inr by (auto simp: in_transaction_def good_collector_def)
  qed
qed

lemma good_collector_step:
  assumes "collector_step s ops message_of w w'" and "good_collector s w"
  shows "good_collector s w'"
  using assms
proof (cases rule: collector_step.cases)
  case (reads loadAccount now a db sn calls)
  then show ?thesis using assms(2) collector_read_good [of s loadAccount now a db sn] by (auto simp: good_collector_def)
qed (simp_all add: createProposal_good collector_write_good)

lemma good_collector_reachable:
  assumes "collector_reachable s ops message_of w"
  shows "good_collector s w"
proof -
  obtain db where start: "cd_proposals db = []" "cd_signatures db = []" and steps: "(collector_step s ops message_of)\<^sup>*\<^sup>* (db, []) w"
    using assms by (auto simp: collector_reachable_def)
  from steps show ?thesis
  proof (induction rule: rtranclp_induct)
    case base
    show ?case by (simp add: good_collector_def find_row_def good_rows_def start)
  qed (rule good_collector_step)
qed

text \<open>C14. Whatever the interleaving of collector calls, the changes on chain and the answers of Horizon: a stored
  proposal's envelope spends from its treasury account under the envelope policy and has the stored hash; each
  collected signature verifies over that hash, has positive weight, and is the only one of its user for the
  proposal; a proposal recorded as submitted has at least its required weight. No proposal is ever left
  \<^verbatim>\<open>READY\<close> or \<^verbatim>\<open>FAILED\<close>.\<close>

theorem collector_invariant:
  assumes "collector_reachable s ops message_of (db, calls)"
    and "find_row pid (cd_proposals db) = Some r"
  shows "(\<exists>tx now summary. parseTreasuryXdr s (tp_xdr r) = Inr tx \<and> tx_hash tx = tp_txHash r \<and> tx_signatures tx = []
        \<and> assertTreasuryEnvelopePolicy s tx (treasury_policy (tp_sourceAccount r)) now = Inr summary)
    \<and> distinct (map sg_signerUserId (signatures_of pid (cd_signatures db)))
    \<and> (\<forall>g \<in> set (signatures_of pid (cd_signatures db)).
         0 < sg_weight g \<and> sdk_verify s (sg_signerPublicKey g) (tp_txHash r) (sg_signature g))
    \<and> tp_status r \<in> {''PENDING_SIGNATURES'', ''SUBMITTED''}
    \<and> (tp_status r = ''SUBMITTED'' \<longrightarrow> tp_requiredWeight r \<le> sum_list (map sg_weight (signatures_of pid (cd_signatures db))))"
proof -
  have good: "good_tx_proposal s r" "good_status (cd_signatures db) pid r" "good_rows s (hash_of db) (cd_signatures db)"
    using good_collector_reachable [OF assms(1)] assms(2) by (auto simp: good_collector_def)
  have "distinct (map (\<lambda>g. (sg_proposalId g, sg_signerUserId g)) (signatures_of pid (cd_signatures db)))"
    using good(3) by (simp add: good_rows_def signatures_of_def distinct_map_filter)
  then have "distinct (map sg_signerUserId (signatures_of pid (cd_signatures db)))"
    by (auto simp: distinct_map signatures_of_def inj_on_def)
  moreover have "\<forall>g \<in> set (signatures_of pid (cd_signatures db)).
      0 < sg_weight g \<and> sdk_verify s (sg_signerPublicKey g) (tp_txHash r) (sg_signature g)"
    using good(3) assms(2) by (auto simp: good_rows_def signatures_of_def hash_of_def)
  ultimately show ?thesis
    using good(1,2) unfolding good_tx_proposal_def good_status_def by blast
qed

section \<open>What Horizon receives\<close>

lemma parse_transaction: "parseTreasuryXdr s xdr = Inr tx \<Longrightarrow> sdk_transaction s xdr = Some tx"
  by (auto simp: parseTreasuryXdr_def sdk_transaction_def split: option.splits decoded.splits)

lemma collector_read_row:
  assumes "collector_read s loadAccount now a db = Inr sn"
  shows "find_row (sb_proposalId a) (cd_proposals db) = Some (cs_proposal sn)
    \<and> (\<exists>account. loadAccount (tp_sourceAccount (cs_proposal sn)) = Inr account \<and> sn_exists account
         \<and> cs_required sn = th_high (sn_thresholds account))"
proof -
  obtain p where row: "find_row (sb_proposalId a) (cd_proposals db) = Some p"
    using assms by (cases "find_row (sb_proposalId a) (cd_proposals db)") (auto simp: collector_read_def)
  obtain account where account: "loadAccount (tp_sourceAccount p) = Inr account"
    using assms row by (auto simp: collector_read_def split: if_splits sum.splits)
  show ?thesis
    using assms row account by (auto simp: collector_read_def Let_def res_simps split: if_splits sum.splits)
qed

lemma submitted_carries:
  assumes "submitSigned s submit (eo_toXDR ops (add_all ops sigs base)) = Inr hash"
    and "codec_law s ops" "addSignature_law s ops" "tx_signatures base = []"
    and "\<forall>(k, sig) \<in> set sigs. sdk_verify s k (tx_hash base) sig"
  shows "\<exists>tx. submit tx = Inr hash \<and> tx\<lparr>tx_signatures := []\<rparr> = base \<and> map snd (tx_signatures tx) = map snd sigs"
proof -
  obtain ds where ds: "add_all ops sigs base = base\<lparr>tx_signatures := tx_signatures base @ ds\<rparr>" "map snd ds = map snd sigs"
    using add_all_appends [OF assms(3,5)] by blast
  have "submit (base\<lparr>tx_signatures := ds\<rparr>) = Inr hash"
    using assms(1,2,4) unfolding ds(1) by (auto simp: submitSigned_def codec_law_def split: option.splits)
  moreover have "base\<lparr>tx_signatures := []\<rparr> = base" using assms(4) by simp
  ultimately show ?thesis using ds(2) by (intro exI [of _ "base\<lparr>tx_signatures := ds\<rparr>"]) simp
qed


section \<open>Witnesses and stale weights\<close>

definition demo_collector :: collector_db where
  "demo_collector =
     \<lparr>cd_groups = td_groups demo_treasury, cd_members = td_members demo_treasury, cd_proposals = [], cd_signatures = [], cd_audit = []\<rparr>"

definition demo_opened :: collector_db where
  "demo_opened = snd (createProposal demo_net (\<lambda>_. Inr demo_account) 1000000 ''p''
     \<lparr>ct_groupId = ''g'', ct_creatorId = ''ua'', ct_creatorPublicKey = ''GA'', ct_xdr = ''base'', ct_description = None\<rparr> demo_collector)"

definition demo_sign :: "string \<Rightarrow> string \<Rightarrow> signature_args" where
  "demo_sign user xdr = \<lparr>sb_proposalId = ''p'', sb_groupId = ''g'', sb_userId = user, sb_signedXdr = xdr, sb_actorPublicKey = None\<rparr>"

definition demo_collect :: "account_snapshot \<Rightarrow> string \<Rightarrow> string \<Rightarrow> collector_db \<Rightarrow> collector_result res \<times> collector_db" where
  "demo_collect account user xdr =
     submitSignature demo_net demo_ops (\<lambda>_. Inr account) (\<lambda>_. Inr ''done'') (\<lambda>_. []) 1000000 (demo_sign user xdr)"

text \<open>The account after its owner has removed the first signer.\<close>

definition demo_removed :: account_snapshot where
  "demo_removed = demo_account\<lparr>sn_signers := [(''GT'', 0), (''GC'', 1)]\<rparr>"

lemma demo_opened_reachable: "collector_reachable demo_net demo_ops (\<lambda>_. []) (demo_opened, [])"
  unfolding collector_reachable_def demo_opened_def
  by (rule exI [of _ demo_collector]) (auto simp: demo_collector_def intro!: r_into_rtranclp collector_step.creates)

lemma demo_opened_row:
  "find_row ''p'' (cd_proposals demo_opened) =
     Some \<lparr>tp_groupId = ''g'', tp_creatorId = ''ua'', tp_xdr = ''base'', tp_description = None, tp_txHash = ''h'',
       tp_sourceAccount = ''GT'', tp_requiredWeight = 2, tp_status = ''PENDING_SIGNATURES'', tp_stellarTxHash = None,
       tp_failureReason = None\<rparr>"
  by code_simp

theorem collector_invariant_witness:
  "find_row ''p'' (cd_proposals demo_opened) \<noteq> None \<and> (\<exists>tx. parseTreasuryXdr demo_net ''base'' = Inr tx \<and> tx_hash tx = ''h'')"
  using collector_invariant [OF demo_opened_reachable demo_opened_row] demo_opened_row by auto


text \<open>C40. Recorded weight outlives the signer, against the comment that a since-removed signer can never contribute stale
  weight. One admin signs; the account's owner removes that admin's key on chain; the other admin signs. The call
  reads the live account, on which the keys that signed hold half of the threshold together, and yet counts the
  recorded weights and sends the envelope to Horizon.\<close>

theorem stale_weight_counts:
  "\<exists>db1 db2. demo_collect demo_account ''ua'' ''by-a'' demo_opened =
       (Inr \<lparr>cr_status = ''PENDING_SIGNATURES'', cr_totalWeight = 1, cr_requiredWeight = 2, cr_stellarTxHash = None\<rparr>, db1)
     \<and> demo_collect demo_removed ''uc'' ''by-c'' db1 =
       (Inr \<lparr>cr_status = ''SUBMITTED'', cr_totalWeight = 2, cr_requiredWeight = 2, cr_stellarTxHash = Some ''done''\<rparr>, db2)
     \<and> sum_list (map (\<lambda>g. case js_map (sn_signers demo_removed) (sg_signerPublicKey g) of Some w \<Rightarrow> w | None \<Rightarrow> 0)
         (signatures_of ''p'' (cd_signatures db2))) < th_high (sn_thresholds demo_removed)"
proof -
  let ?run1 = "demo_collect demo_account ''ua'' ''by-a'' demo_opened"
  let ?run2 = "demo_collect demo_removed ''uc'' ''by-c'' (snd ?run1)"
  have "fst ?run1 = Inr \<lparr>cr_status = ''PENDING_SIGNATURES'', cr_totalWeight = 1, cr_requiredWeight = 2, cr_stellarTxHash = None\<rparr>"
    by code_simp
  moreover have "fst ?run2 = Inr \<lparr>cr_status = ''SUBMITTED'', cr_totalWeight = 2, cr_requiredWeight = 2, cr_stellarTxHash = Some ''done''\<rparr>"
    by code_simp
  moreover have "sum_list (map (\<lambda>g. case js_map (sn_signers demo_removed) (sg_signerPublicKey g) of Some w \<Rightarrow> w | None \<Rightarrow> 0)
      (signatures_of ''p'' (cd_signatures (snd ?run2)))) < th_high (sn_thresholds demo_removed)"
    by code_simp
  ultimately show ?thesis by (metis prod.collapse)
qed

end
