(* ===== verification/Sep10_Auth.thy ===== *)
theory Sep10_Auth
  imports Settlement_Status Audit_Log
begin

text \<open>
  Web authentication: \<^verbatim>\<open>src/src/services/sep10.ts\<close>. A client signs a challenge the server issued; a valid
  one is redeemed once.

  The SDK (decoding for a network, signature checks, its own reading of a challenge), the digest, and
  the answers of Horizon and of the challenge store are parameters. An authentication checks the
  envelope (\<open>check_challenge\<close>) and later, after the lookup of the account, consumes it
  (\<open>consumeChallenge\<close>); \<open>auth_step\<close> interleaves the two phases of any number of calls with the clean-up.

  The lemmas show what an accepted challenge is, which rejections a forger can see, and that a challenge
  authenticates once as long as it is consumed before its record expires.
\<close>

section \<open>Challenges and configuration\<close>

record challenge_operation =
  co_type :: string
  co_source :: "string option"
  co_name :: "string option"
  co_value :: "string option"   \<comment> \<open>bytes\<close>

record challenge_tx =
  ch_source :: string
  ch_sequence :: string
  ch_memoNone :: bool
  ch_operations :: "challenge_operation list"
  ch_timeBounds :: "time_bounds option"
  ch_hash :: string

record sep10_config =
  sc_server :: string
  sc_passphrase :: string
  sc_homeDomain :: string
  sc_webAuthDomain :: string
  sc_validity :: int   \<comment> \<open>\<open>CHALLENGE_VALIDITY_SECONDS\<close>\<close>
  sc_isTest :: bool

record client_account =
  cl_exists :: bool
  cl_med :: rat
  cl_signers :: "(string \<times> rat) list"

record web_auth =
  wa_transaction :: "string \<Rightarrow> string \<Rightarrow> challenge_tx option"   \<comment> \<open>envelope, passphrase\<close>
  wa_verifyTxSignedBy :: "string \<Rightarrow> string \<Rightarrow> string \<Rightarrow> bool"   \<comment> \<open>envelope, passphrase, account\<close>
  wa_readChallengeTx :: "sep10_config \<Rightarrow> string \<Rightarrow> (challenge_tx \<times> string) option"
  wa_verifySigners :: "sep10_config \<Rightarrow> string \<Rightarrow> string list \<Rightarrow> bool"
  wa_verifyThreshold :: "sep10_config \<Rightarrow> string \<Rightarrow> rat \<Rightarrow> (string \<times> rat) list \<Rightarrow> bool"
  wa_validKey :: "string \<Rightarrow> bool"
  wa_utf8 :: "string \<Rightarrow> string"
  wa_digest :: "string \<Rightarrow> string"
  wa_networks :: "string list"

definition MIN_NONCE_BYTES :: nat where "MIN_NONCE_BYTES = 32"

abbreviation invalidChallenge :: "'a res" where "invalidChallenge \<equiv> Inl (AppError 401 ''INVALID_CHALLENGE'')"
abbreviation expiredChallenge :: "'a res" where "expiredChallenge \<equiv> Inl (AppError 401 ''CHALLENGE_EXPIRED'')"

section \<open>Building\<close>

definition buildChallenge :: "web_auth \<Rightarrow> (string \<Rightarrow> string) \<Rightarrow> sep10_config \<Rightarrow> string \<Rightarrow> (string \<times> string) res" where
  "buildChallenge wa buildChallengeTx c account =
     (if \<not> wa_validKey wa account then Inl (AppError 400 ''INVALID_ACCOUNT'')
      else Inr (buildChallengeTx account, sc_passphrase c))"

section \<open>Checking\<close>

definition validateChallengeTimeBounds :: "sep10_config \<Rightarrow> time_bounds option \<Rightarrow> int \<Rightarrow> unit res" where
  "validateChallengeTimeBounds c bounds now =
     (case bounds of
        None \<Rightarrow> invalidChallenge
      | Some b \<Rightarrow>
          let hi = num (maxTime b); lo = num (minTime b); current = of_int (nowSeconds now);
              skew = of_int CLOCK_SKEW_TOLERANCE_SECONDS
          in if hi \<le> 0 \<or> lo > hi then invalidChallenge
             else if hi + skew \<le> current then expiredChallenge
             else if lo > current + skew then Inl (AppError 401 ''CHALLENGE_NOT_YET_VALID'')
             else if hi > lo + of_int (sc_validity c) + skew then Inl (AppError 401 ''CHALLENGE_WINDOW_TOO_LONG'')
             else Inr ())"

definition extractHomeDomain :: "challenge_tx \<Rightarrow> string option" where
  "extractHomeDomain tx =
     (case ch_operations tx of
        [] \<Rightarrow> None
      | oper # _ \<Rightarrow>
          if co_type oper \<noteq> ''manageData'' then None
          else (case co_name oper of
                  None \<Rightarrow> None
                | Some name \<Rightarrow> if ends_with name '' auth'' then Some (take (length name - 5) name) else None))"

definition validateChallengeHomeDomain :: "challenge_tx \<Rightarrow> string \<Rightarrow> string res" where
  "validateChallengeHomeDomain tx expectedDomain =
     (case extractHomeDomain tx of
        None \<Rightarrow> Inl (AppError 401 ''HOME_DOMAIN_MISMATCH'')
      | Some d \<Rightarrow> if d = [] \<or> to_lower d \<noteq> to_lower expectedDomain then Inl (AppError 401 ''HOME_DOMAIN_MISMATCH'') else Inr d)"

definition web_auth_operation :: "web_auth \<Rightarrow> sep10_config \<Rightarrow> challenge_operation \<Rightarrow> bool" where
  "web_auth_operation wa c oper =
     (co_type oper = ''manageData'' \<and> co_source oper = Some (sc_server c) \<and> co_name oper = Some ''web_auth_domain''
      \<and> (let v = (case co_value oper of Some bytes \<Rightarrow> wa_utf8 wa bytes | None \<Rightarrow> []) in
         v \<noteq> [] \<and> to_lower v = to_lower (sc_webAuthDomain c)))"

definition validateChallengeEnvelope ::
  "web_auth \<Rightarrow> sep10_config \<Rightarrow> challenge_tx \<Rightarrow> string \<Rightarrow> int \<Rightarrow> time_bounds res" where
  "validateChallengeEnvelope wa c tx clientAccountId now =
     (if ch_source tx \<noteq> sc_server c then invalidChallenge
      else if ch_sequence tx \<noteq> ''0'' then invalidChallenge
      else if \<not> wa_validKey wa clientAccountId then invalidChallenge
      else if \<not> ch_memoNone tx then invalidChallenge
      else if (case extractHomeDomain tx of None \<Rightarrow> True | Some d \<Rightarrow> d = [] \<or> to_lower d \<noteq> to_lower (sc_homeDomain c)) then invalidChallenge
      else (case readTimeBounds (ch_timeBounds tx) of
         None \<Rightarrow> invalidChallenge
       | Some b \<Rightarrow>
           if num (maxTime b) \<le> 0 then invalidChallenge
           else res_bind (validateChallengeTimeBounds c (Some b) now) (\<lambda>_.
             (case ch_operations tx of
                [] \<Rightarrow> invalidChallenge
              | first # rest \<Rightarrow>
                  if co_type first \<noteq> ''manageData'' \<or> co_name first \<noteq> Some (sc_homeDomain c @ '' auth'')
                     \<or> co_source first \<noteq> Some clientAccountId
                     \<or> (case co_value first of None \<Rightarrow> True | Some v \<Rightarrow> length v < MIN_NONCE_BYTES)
                  then invalidChallenge
                  else if \<not> list_all (web_auth_operation wa c) rest then invalidChallenge
                  else if length rest \<noteq> 1 then invalidChallenge
                  else Inr b))))"

definition signedByServerOnAnotherNetwork :: "web_auth \<Rightarrow> sep10_config \<Rightarrow> string \<Rightarrow> bool" where
  "signedByServerOnAnotherNetwork wa c signedXdr =
     (\<exists>passphrase \<in> set (filter (\<lambda>p. p \<noteq> sc_passphrase c) (wa_networks wa)).
        wa_transaction wa signedXdr passphrase \<noteq> None \<and> wa_verifyTxSignedBy wa signedXdr passphrase (sc_server c))"

definition readChallenge :: "web_auth \<Rightarrow> sep10_config \<Rightarrow> string \<Rightarrow> int \<Rightarrow> (challenge_tx \<times> string) res" where
  "readChallenge wa c signedXdr now =
     (case wa_transaction wa signedXdr (sc_passphrase c) of
        None \<Rightarrow> invalidChallenge
      | Some tx \<Rightarrow>
          if \<not> wa_verifyTxSignedBy wa signedXdr (sc_passphrase c) (sc_server c)
          then (if signedByServerOnAnotherNetwork wa c signedXdr then Inl (AppError 401 ''NETWORK_MISMATCH'') else invalidChallenge)
          else if extractHomeDomain tx = None then invalidChallenge
          else
            let bounds = readTimeBounds (ch_timeBounds tx) in
            if (case bounds of
                  Some b \<Rightarrow> num (maxTime b) > 0
                    \<and> num (maxTime b) + of_int CLOCK_SKEW_TOLERANCE_SECONDS \<le> of_int (nowSeconds now)
                | None \<Rightarrow> False) then expiredChallenge
            else res_bind (validateChallengeTimeBounds c bounds now) (\<lambda>_.
                 res_bind (validateChallengeHomeDomain tx (sc_homeDomain c)) (\<lambda>_.
                   (case wa_readChallengeTx wa c signedXdr of None \<Rightarrow> invalidChallenge | Some r \<Rightarrow> Inr r))))"

definition challengeSigners :: "web_auth \<Rightarrow> (string \<times> rat) list \<Rightarrow> (string \<times> rat) list" where
  "challengeSigners wa signers = filter (\<lambda>sg. wa_validKey wa (fst sg)) signers"

definition validateChallengeSignerThresholds :: "web_auth \<Rightarrow> sep10_config \<Rightarrow> string \<Rightarrow> rat \<Rightarrow> (string \<times> rat) list \<Rightarrow> bool" where
  "validateChallengeSignerThresholds wa c signedXdr threshold signers =
     wa_verifyThreshold wa c signedXdr (if threshold > 0 then threshold else 1) (challengeSigners wa signers)"

text \<open>The record that makes a redemption single-use: fingerprint, account and expiry.\<close>

record redemption =
  rd_fingerprint :: string
  rd_account :: string
  rd_hash :: string
  rd_expiresAt :: int

definition expiry_of :: "time_bounds \<Rightarrow> int" where
  "expiry_of b = \<lfloor>(num (maxTime b) + of_int CLOCK_SKEW_TOLERANCE_SECONDS + 1) * 1000\<rfloor>"

text \<open>The clock is read once for the checks that precede the account lookup; \<open>None\<close> is a failed lookup.\<close>

definition check_challenge ::
  "web_auth \<Rightarrow> sep10_config \<Rightarrow> (string \<Rightarrow> client_account option) \<Rightarrow> string \<Rightarrow> int \<Rightarrow> redemption res" where
  "check_challenge wa c loadAccount signedXdr now =
     res_bind (readChallenge wa c signedXdr now) (\<lambda>(tx, client).
     res_bind (validateChallengeEnvelope wa c tx client now) (\<lambda>bounds.
       (case loadAccount client of
          None \<Rightarrow> Inl (AppError 502 ''UPSTREAM_ERROR'')
        | Some snapshot \<Rightarrow>
            if (if \<not> cl_exists snapshot then wa_verifySigners wa c signedXdr [client]
                else validateChallengeSignerThresholds wa c signedXdr (if cl_med snapshot = 0 then 1 else cl_med snapshot)
                       (cl_signers snapshot))
            then Inr \<lparr>rd_fingerprint = wa_digest wa (ch_hash tx), rd_account = client, rd_hash = ch_hash tx,
                      rd_expiresAt = expiry_of bounds\<rparr>
            else Inl (AppError 401 ''INVALID_SIGNATURE''))))"

section \<open>Consuming\<close>

text \<open>A redeemed fingerprint with its expiry. A store is absent, answers or throws.\<close>

datatype store_answer = Absent | Answers | Throws

record challenge_store =
  st_rows :: "(string \<times> int) list"
  st_inProcess :: "(string \<times> int) list"

definition consumeInProcess :: "int \<Rightarrow> redemption \<Rightarrow> challenge_store \<Rightarrow> bool \<times> challenge_store" where
  "consumeInProcess now r st =
     (let live = filter (\<lambda>(_, expiry). expiry > now) (st_inProcess st) in
      if rd_fingerprint r \<in> fst ` set live then (False, st\<lparr>st_inProcess := live\<rparr>)
      else (True, st\<lparr>st_inProcess := live @ [(rd_fingerprint r, rd_expiresAt r)]\<rparr>))"

definition insert_row :: "redemption \<Rightarrow> challenge_store \<Rightarrow> bool \<times> challenge_store" where
  "insert_row r st =
     (if rd_fingerprint r \<in> fst ` set (st_rows st) then (False, st)
      else (True, st\<lparr>st_rows := st_rows st @ [(rd_fingerprint r, rd_expiresAt r)]\<rparr>))"

definition sweep_rows :: "int \<Rightarrow> challenge_store \<Rightarrow> challenge_store" where
  "sweep_rows now st = st\<lparr>st_rows := filter (\<lambda>(_, expiry). expiry > now) (st_rows st)\<rparr>"

definition consumeChallenge ::
  "sep10_config \<Rightarrow> store_answer \<Rightarrow> store_answer \<Rightarrow> bool \<Rightarrow> int \<Rightarrow> redemption \<Rightarrow> challenge_store \<Rightarrow> bool res \<times> challenge_store" where
  "consumeChallenge c model raw swept now r st =
     (let unavailable = (Inl (AppError 503 ''SERVICE_UNAVAILABLE''), st);
          inProcess = (if \<not> sc_isTest c then unavailable else (case consumeInProcess now r st of (ok, st') \<Rightarrow> (Inr ok, st')));
          direct = (case raw of
             Absent \<Rightarrow> inProcess
           | Throws \<Rightarrow> if \<not> sc_isTest c then unavailable else inProcess
           | Answers \<Rightarrow> (case insert_row r st of (ok, st') \<Rightarrow> (Inr ok, if swept then sweep_rows now st' else st')))
      in case model of
           Absent \<Rightarrow> direct
         | Throws \<Rightarrow> if \<not> sc_isTest c then unavailable else direct
         | Answers \<Rightarrow> (case insert_row r st of (ok, st') \<Rightarrow> (Inr ok, st')))"

text \<open>One authentication without interruption: the account, or the rejection of a replay.\<close>

definition authenticateChallenge ::
  "web_auth \<Rightarrow> sep10_config \<Rightarrow> (string \<Rightarrow> client_account option) \<Rightarrow> store_answer \<Rightarrow> store_answer \<Rightarrow> bool \<Rightarrow> string \<Rightarrow> int
    \<Rightarrow> challenge_store \<Rightarrow> (string \<times> string) res \<times> challenge_store" where
  "authenticateChallenge wa c loadAccount model raw swept signedXdr now st =
     (case check_challenge wa c loadAccount signedXdr now of
        Inl e \<Rightarrow> (Inl e, st)
      | Inr r \<Rightarrow>
          (case consumeChallenge c model raw swept now r st of
             (Inl e, st') \<Rightarrow> (Inl e, st')
           | (Inr claimed, st') \<Rightarrow>
               (if claimed then Inr (rd_account r, rd_hash r) else invalidChallenge, st')))"

definition cleanupExpiredChallenges :: "int \<Rightarrow> bool \<Rightarrow> challenge_store \<Rightarrow> nat \<times> challenge_store" where
  "cleanupExpiredChallenges now model st =
     (let st1 = st\<lparr>st_inProcess := filter (\<lambda>(_, expiry). expiry > now) (st_inProcess st)\<rparr> in
      if \<not> model then (0, st1)
      else (length (filter (\<lambda>(_, expiry). expiry < now) (st_rows st1)),
            st1\<lparr>st_rows := filter (\<lambda>(_, expiry). \<not> expiry < now) (st_rows st1)\<rparr>))"

section \<open>Interleaved authentications\<close>

text \<open>Clock, store, checked calls that have not consumed, and the redemptions that succeeded. With \<open>prompt\<close> a call
  consumes before the record it writes has expired.\<close>

record auth_world =
  aw_clock :: int
  aw_store :: challenge_store
  aw_checked :: "redemption list"
  aw_sessions :: "redemption list"

inductive auth_step :: "bool \<Rightarrow> web_auth \<Rightarrow> sep10_config \<Rightarrow> auth_world \<Rightarrow> auth_world \<Rightarrow> bool" for prompt wa c where
  time: "aw_clock w \<le> t \<Longrightarrow> auth_step prompt wa c w (w\<lparr>aw_clock := t\<rparr>)"
| check: "check_challenge wa c loadAccount signedXdr (aw_clock w) = Inr r \<Longrightarrow>
    auth_step prompt wa c w (w\<lparr>aw_checked := r # aw_checked w\<rparr>)"
| consume: "r \<in> set (aw_checked w) \<Longrightarrow> (prompt \<longrightarrow> aw_clock w < rd_expiresAt r) \<Longrightarrow>
    consumeChallenge c model raw swept (aw_clock w) r (aw_store w) = (result, st') \<Longrightarrow>
    auth_step prompt wa c w
      (w\<lparr>aw_store := st', aw_checked := remove1 r (aw_checked w),
         aw_sessions := (if result = Inr True then r # aw_sessions w else aw_sessions w)\<rparr>)"
| cleanup: "auth_step prompt wa c w (w\<lparr>aw_store := snd (cleanupExpiredChallenges (aw_clock w) model (aw_store w))\<rparr>)"

definition auth_reachable :: "bool \<Rightarrow> web_auth \<Rightarrow> sep10_config \<Rightarrow> auth_world \<Rightarrow> bool" where
  "auth_reachable prompt wa c w \<longleftrightarrow>
     (\<exists>t. (auth_step prompt wa c)\<^sup>*\<^sup>* \<lparr>aw_clock = t, aw_store = \<lparr>st_rows = [], st_inProcess = []\<rparr>, aw_checked = [], aw_sessions = []\<rparr> w)"

section \<open>What an accepted challenge is\<close>

lemma validateChallengeTimeBounds_Inr:
  "validateChallengeTimeBounds c bounds now = Inr () \<longleftrightarrow>
     (\<exists>b. bounds = Some b \<and> 0 < num (maxTime b) \<and> num (minTime b) \<le> num (maxTime b)
        \<and> of_int (nowSeconds now) < num (maxTime b) + 30 \<and> num (minTime b) \<le> of_int (nowSeconds now) + 30
        \<and> num (maxTime b) \<le> num (minTime b) + of_int (sc_validity c) + 30)"
  by (auto simp: validateChallengeTimeBounds_def CLOCK_SKEW_TOLERANCE_SECONDS_def Let_def not_le not_less split: option.splits)

definition issued_shape :: "web_auth \<Rightarrow> sep10_config \<Rightarrow> challenge_tx \<Rightarrow> string \<Rightarrow> bool" where
  "issued_shape wa c tx client \<longleftrightarrow>
     ch_source tx = sc_server c \<and> ch_sequence tx = ''0'' \<and> ch_memoNone tx \<and> wa_validKey wa client
     \<and> (\<exists>first second nonce. ch_operations tx = [first, second]
          \<and> co_type first = ''manageData'' \<and> co_name first = Some (sc_homeDomain c @ '' auth'') \<and> co_source first = Some client
          \<and> co_value first = Some nonce \<and> 32 \<le> length nonce \<and> web_auth_operation wa c second)"

lemma validateChallengeEnvelope_Inr:
  assumes "validateChallengeEnvelope wa c tx client now = Inr b"
  shows "issued_shape wa c tx client \<and> readTimeBounds (ch_timeBounds tx) = Some b
    \<and> validateChallengeTimeBounds c (Some b) now = Inr ()"
proof -
  from assms have base: "ch_source tx = sc_server c" "ch_sequence tx = ''0''" "wa_validKey wa client" "ch_memoNone tx"
    and bounds: "readTimeBounds (ch_timeBounds tx) = Some b"
    and window: "validateChallengeTimeBounds c (Some b) now = Inr ()"
    by (auto simp: validateChallengeEnvelope_def res_simps split: if_splits option.splits list.splits)
  obtain first rest where ops: "ch_operations tx = first # rest"
    using assms by (cases "ch_operations tx") (auto simp: validateChallengeEnvelope_def extractHomeDomain_def split: if_splits)
  have "co_type first = ''manageData''" "co_name first = Some (sc_homeDomain c @ '' auth'')" "co_source first = Some client"
    "\<exists>nonce. co_value first = Some nonce \<and> 32 \<le> length nonce" "list_all (web_auth_operation wa c) rest" "length rest = 1"
    using assms ops by (auto simp: validateChallengeEnvelope_def res_simps MIN_NONCE_BYTES_def split: if_splits option.splits)
  with base ops bounds window show ?thesis by (auto simp: issued_shape_def length_Suc_conv)
qed

lemma check_challenge_Inr:
  assumes "check_challenge wa c loadAccount signedXdr now = Inr r"
  obtains tx client b where "wa_verifyTxSignedBy wa signedXdr (sc_passphrase c) (sc_server c)"
    "wa_readChallengeTx wa c signedXdr = Some (tx, client)" "validateChallengeEnvelope wa c tx client now = Inr b"
    "r = \<lparr>rd_fingerprint = wa_digest wa (ch_hash tx), rd_account = client, rd_hash = ch_hash tx, rd_expiresAt = expiry_of b\<rparr>"
    "\<exists>snapshot. loadAccount client = Some snapshot \<and>
       (if cl_exists snapshot then validateChallengeSignerThresholds wa c signedXdr (if cl_med snapshot = 0 then 1 else cl_med snapshot)
          (cl_signers snapshot) else wa_verifySigners wa c signedXdr [client])"
proof -
  from assms obtain tx client b where read: "readChallenge wa c signedXdr now = Inr (tx, client)"
    and env: "validateChallengeEnvelope wa c tx client now = Inr b"
    and rest: "(case loadAccount client of
          None \<Rightarrow> Inl (AppError 502 ''UPSTREAM_ERROR'')
        | Some snapshot \<Rightarrow>
            if (if \<not> cl_exists snapshot then wa_verifySigners wa c signedXdr [client]
                else validateChallengeSignerThresholds wa c signedXdr (if cl_med snapshot = 0 then 1 else cl_med snapshot)
                       (cl_signers snapshot))
            then Inr \<lparr>rd_fingerprint = wa_digest wa (ch_hash tx), rd_account = client, rd_hash = ch_hash tx,
                      rd_expiresAt = expiry_of b\<rparr>
            else Inl (AppError 401 ''INVALID_SIGNATURE'')) = Inr r"
    unfolding check_challenge_def res_bind_eq_Inr by (auto simp: res_bind_eq_Inr)
  have "wa_verifyTxSignedBy wa signedXdr (sc_passphrase c) (sc_server c)" "wa_readChallengeTx wa c signedXdr = Some (tx, client)"
    using read by (auto simp: readChallenge_def Let_def res_simps split: option.splits if_splits)
  then show thesis using that env rest by (auto split: option.splits if_splits)
qed

lemma expiry_after:
  assumes "of_int (nowSeconds now) < num (maxTime b) + 30"
  shows "now < expiry_of b"
proof -
  have "now + 1 \<le> (nowSeconds now + 1) * 1000" unfolding nowSeconds_def by presburger
  then have "(of_int (now + 1) :: rat) \<le> of_int ((nowSeconds now + 1) * 1000)" by (simp only: of_int_le_iff)
  also have "\<dots> = (of_int (nowSeconds now) + 1) * 1000" by simp
  also have "\<dots> \<le> (num (maxTime b) + 30 + 1) * 1000" using assms by simp
  finally have "(of_int (now + 1) :: rat) \<le> (num (maxTime b) + 30 + 1) * 1000" .
  then have "of_int (now + 1) \<le> (num (maxTime b) + of_int CLOCK_SKEW_TOLERANCE_SECONDS + 1) * (1000 :: rat)"
    by (simp add: CLOCK_SKEW_TOLERANCE_SECONDS_def)
  then have "now + 1 \<le> expiry_of b" unfolding expiry_of_def le_floor_iff .
  then show ?thesis by simp
qed

text \<open>C2. An accepted challenge is one this server issued to the account it authenticates, and is current: the envelope bears
  the server's signature for the server's network and the SDK reads it as a challenge for the client; it is sourced at
  the server with sequence 0 and no memo, its two operations are the client's entry for the home domain, with at
  least 32 bytes of nonce, and the server's entry for the web-auth domain; its window is open, up to the tolerated
  skew, and no longer than the server grants; and the signatures satisfy the client account as Horizon reports it.
  The record of the redemption expires only after the present moment.\<close>

theorem accepted_challenge_sound:
  assumes "check_challenge wa c loadAccount signedXdr now = Inr r"
  shows "wa_verifyTxSignedBy wa signedXdr (sc_passphrase c) (sc_server c)
    \<and> (\<exists>tx b. wa_readChallengeTx wa c signedXdr = Some (tx, rd_account r) \<and> issued_shape wa c tx (rd_account r)
         \<and> readTimeBounds (ch_timeBounds tx) = Some b
         \<and> of_int (nowSeconds now) < num (maxTime b) + 30 \<and> num (minTime b) \<le> of_int (nowSeconds now) + 30
         \<and> num (maxTime b) \<le> num (minTime b) + of_int (sc_validity c) + 30)
    \<and> (\<exists>snapshot. loadAccount (rd_account r) = Some snapshot \<and>
         (if cl_exists snapshot then validateChallengeSignerThresholds wa c signedXdr
            (if cl_med snapshot = 0 then 1 else cl_med snapshot) (cl_signers snapshot)
          else wa_verifySigners wa c signedXdr [rd_account r]))
    \<and> now < rd_expiresAt r"
  using assms
proof (rule check_challenge_Inr)
  fix tx client b
  assume signed: "wa_verifyTxSignedBy wa signedXdr (sc_passphrase c) (sc_server c)"
    and read: "wa_readChallengeTx wa c signedXdr = Some (tx, client)"
    and env: "validateChallengeEnvelope wa c tx client now = Inr b"
    and r: "r = \<lparr>rd_fingerprint = wa_digest wa (ch_hash tx), rd_account = client, rd_hash = ch_hash tx, rd_expiresAt = expiry_of b\<rparr>"
    and signers: "\<exists>snapshot. loadAccount client = Some snapshot \<and>
       (if cl_exists snapshot then validateChallengeSignerThresholds wa c signedXdr (if cl_med snapshot = 0 then 1 else cl_med snapshot)
          (cl_signers snapshot) else wa_verifySigners wa c signedXdr [client])"
  note E = validateChallengeEnvelope_Inr [OF env]
  have window: "of_int (nowSeconds now) < num (maxTime b) + 30" "num (minTime b) \<le> of_int (nowSeconds now) + 30"
    "num (maxTime b) \<le> num (minTime b) + of_int (sc_validity c) + 30"
    using E by (simp_all add: validateChallengeTimeBounds_Inr)
  show ?thesis
    using signed read E window signers expiry_after [OF window(1)] unfolding r by auto
qed

text \<open>A forger learns nothing: an envelope without this server's signature for this network is rejected as an invalid
  challenge, whatever else is wrong with it; the only other answer is a network mismatch, and it takes this server's
  signature for another network.\<close>

theorem forged_challenge_opaque:
  assumes "\<not> wa_verifyTxSignedBy wa signedXdr (sc_passphrase c) (sc_server c)"
  shows "check_challenge wa c loadAccount signedXdr now =
    Inl (AppError 401 (if wa_transaction wa signedXdr (sc_passphrase c) \<noteq> None \<and> signedByServerOnAnotherNetwork wa c signedXdr
                       then ''NETWORK_MISMATCH'' else ''INVALID_CHALLENGE''))"
  using assms by (auto simp: check_challenge_def readChallenge_def split: option.splits)

section \<open>Single use\<close>

text \<open>Documented behaviour: the digest of the hash identifies the envelope, so equal fingerprints have equal time bounds.\<close>

definition fingerprint_law :: "web_auth \<Rightarrow> sep10_config \<Rightarrow> bool" where
  "fingerprint_law wa c \<longleftrightarrow>
     (\<forall>x y tx tx' a b. wa_readChallengeTx wa c x = Some (tx, a) \<and> wa_readChallengeTx wa c y = Some (tx', b)
        \<and> wa_digest wa (ch_hash tx) = wa_digest wa (ch_hash tx') \<longrightarrow> ch_timeBounds tx = ch_timeBounds tx')"

definition from_check :: "web_auth \<Rightarrow> sep10_config \<Rightarrow> redemption \<Rightarrow> bool" where
  "from_check wa c r \<longleftrightarrow>
     (\<exists>x tx a b. wa_readChallengeTx wa c x = Some (tx, a) \<and> rd_fingerprint r = wa_digest wa (ch_hash tx)
        \<and> readTimeBounds (ch_timeBounds tx) = Some b \<and> rd_expiresAt r = expiry_of b)"

lemma from_check_expiry:
  assumes "fingerprint_law wa c" "from_check wa c r" "from_check wa c r'" "rd_fingerprint r = rd_fingerprint r'"
  shows "rd_expiresAt r = rd_expiresAt r'"
  using assms unfolding fingerprint_law_def from_check_def by (metis option.inject)

lemma check_challenge_from_check:
  assumes "check_challenge wa c loadAccount signedXdr now = Inr r"
  shows "from_check wa c r"
  using assms
  by (rule check_challenge_Inr) (auto simp: from_check_def dest!: validateChallengeEnvelope_Inr)

definition row_of :: "redemption \<Rightarrow> string \<times> int" where
  "row_of r = (rd_fingerprint r, rd_expiresAt r)"

definition once :: "web_auth \<Rightarrow> sep10_config \<Rightarrow> auth_world \<Rightarrow> bool" where
  "once wa c w \<longleftrightarrow>
     (\<forall>r \<in> set (aw_checked w) \<union> set (aw_sessions w). from_check wa c r)
     \<and> distinct (map rd_fingerprint (aw_sessions w))
     \<and> set (st_rows (aw_store w)) \<subseteq> row_of ` set (aw_sessions w)
     \<and> (\<forall>r \<in> set (aw_sessions w). row_of r \<in> set (st_rows (aw_store w)) \<or> rd_expiresAt r \<le> aw_clock w)"

text \<open>In production a call either inserts its row, perhaps sweeping, or leaves the rows and fails.\<close>

lemma consumeChallenge_cases:
  assumes "consumeChallenge c model raw swept now r st = (result, st')" and "\<not> sc_isTest c"
  shows "(result \<noteq> Inr True \<and> set (st_rows st') \<subseteq> set (st_rows st)
            \<and> (\<forall>p \<in> set (st_rows st). snd p > now \<longrightarrow> p \<in> set (st_rows st')))
       \<or> (result = Inr True \<and> rd_fingerprint r \<notin> fst ` set (st_rows st)
            \<and> set (st_rows st') \<subseteq> insert (row_of r) (set (st_rows st))
            \<and> (\<forall>p \<in> insert (row_of r) (set (st_rows st)). snd p > now \<longrightarrow> p \<in> set (st_rows st')))"
  using assms
  by (cases model; cases raw)
    (auto simp: consumeChallenge_def Let_def insert_row_def sweep_rows_def row_of_def split: if_splits)

lemma once_consume:
  assumes inv: "once wa c w" and law: "fingerprint_law wa c" and prod: "\<not> sc_isTest c"
    and r: "r \<in> set (aw_checked w)" "aw_clock w < rd_expiresAt r"
    and step: "consumeChallenge c model raw swept (aw_clock w) r (aw_store w) = (result, st')"
  shows "once wa c (w\<lparr>aw_store := st', aw_checked := remove1 r (aw_checked w),
      aw_sessions := (if result = Inr True then r # aw_sessions w else aw_sessions w)\<rparr>)"
proof -
  let ?rows = "set (st_rows (aw_store w))" and ?rows' = "set (st_rows st')"
  have from_checks: "\<forall>q \<in> set (aw_checked w) \<union> set (aw_sessions w). from_check wa c q"
    and rows: "?rows \<subseteq> row_of ` set (aw_sessions w)"
    and kept: "\<forall>q \<in> set (aw_sessions w). row_of q \<in> ?rows \<or> rd_expiresAt q \<le> aw_clock w"
    using inv by (auto simp: once_def)
  have checked: "set (remove1 r (aw_checked w)) \<subseteq> set (aw_checked w)" by (rule set_remove1_subset)
  show ?thesis
  proof (cases "result = Inr True")
    case True
    from consumeChallenge_cases [OF step prod] True have fresh: "rd_fingerprint r \<notin> fst ` ?rows"
      and sub: "?rows' \<subseteq> insert (row_of r) ?rows"
      and stay: "\<forall>p \<in> insert (row_of r) ?rows. snd p > aw_clock w \<longrightarrow> p \<in> ?rows'" by auto
    have "rd_fingerprint q \<noteq> rd_fingerprint r" if q: "q \<in> set (aw_sessions w)" for q
    proof
      assume same: "rd_fingerprint q = rd_fingerprint r"
      have "from_check wa c q" "from_check wa c r" using from_checks q r(1) by auto
      then have "rd_expiresAt q = rd_expiresAt r" using from_check_expiry [OF law] same by blast
      moreover have "row_of q \<notin> ?rows" using fresh same by (force simp: row_of_def)
      ultimately show False using kept q r(2) by auto
    qed
    then have "rd_fingerprint r \<notin> rd_fingerprint ` set (aw_sessions w)" by (metis imageE)
    then have "distinct (map rd_fingerprint (r # aw_sessions w))" using inv by (simp add: once_def)
    moreover have "row_of q \<in> ?rows' \<or> rd_expiresAt q \<le> aw_clock w" if "q \<in> insert r (set (aw_sessions w))" for q
      using that kept stay by (cases "rd_expiresAt q \<le> aw_clock w") (auto simp: row_of_def)
    moreover have "from_check wa c r" using from_checks r(1) by blast
    ultimately show ?thesis using True from_checks rows sub checked unfolding once_def by auto
  next
    case False
    with consumeChallenge_cases [OF step prod] have sub: "?rows' \<subseteq> ?rows"
      and stay: "\<forall>p \<in> ?rows. snd p > aw_clock w \<longrightarrow> p \<in> ?rows'" by auto
    have "row_of q \<in> ?rows' \<or> rd_expiresAt q \<le> aw_clock w" if "q \<in> set (aw_sessions w)" for q
      using that kept stay by (cases "rd_expiresAt q \<le> aw_clock w") (auto simp: row_of_def)
    with False inv rows sub checked show ?thesis unfolding once_def by auto
  qed
qed

lemma once_cleanup:
  assumes "once wa c w"
  shows "once wa c (w\<lparr>aw_store := snd (cleanupExpiredChallenges (aw_clock w) model (aw_store w))\<rparr>)"
  using assms by (force simp: once_def cleanupExpiredChallenges_def Let_def row_of_def)

lemma once_step:
  assumes "auth_step True wa c w w'" "once wa c w" "fingerprint_law wa c" "\<not> sc_isTest c"
  shows "once wa c w'"
  using assms(1)
proof cases
  case (time t)
  then show ?thesis using assms(2) by (force simp: once_def)
next
  case (check loadAccount signedXdr r)
  then show ?thesis using assms(2) check_challenge_from_check [OF check(2)] by (auto simp: once_def)
next
  case (consume r model raw swept result st')
  then show ?thesis using once_consume [OF assms(2-4)] by blast
next
  case (cleanup model)
  then show ?thesis using once_cleanup [OF assms(2)] by simp
qed

text \<open>C1. A challenge authenticates at most once. Whatever the interleaving of checks, redemptions and clean-ups, the passage of
  time and the failures of the challenge store, no two sessions stem from one fingerprint, in production, for a
  fingerprint that identifies the envelope, and as long as a checked challenge is consumed before the record written for it expires.\<close>

theorem challenge_single_use:
  assumes "auth_reachable True wa c w" "fingerprint_law wa c" "\<not> sc_isTest c"
  shows "distinct (map rd_fingerprint (aw_sessions w))"
proof -
  obtain t where "(auth_step True wa c)\<^sup>*\<^sup>*
      \<lparr>aw_clock = t, aw_store = \<lparr>st_rows = [], st_inProcess = []\<rparr>, aw_checked = [], aw_sessions = []\<rparr> w"
    using assms(1) by (auto simp: auth_reachable_def)
  then have "once wa c w"
  proof (induction rule: rtranclp_induct)
    case base
    show ?case by (simp add: once_def)
  qed (use assms(2,3) once_step in blast)
  then show ?thesis by (simp add: once_def)
qed

section \<open>A concrete server\<close>

definition demo_challenge :: challenge_tx where
  "demo_challenge =
     \<lparr>ch_source = ''GS'', ch_sequence = ''0'', ch_memoNone = True,
      ch_operations =
        [\<lparr>co_type = ''manageData'', co_source = Some ''GA'', co_name = Some ''pay.app auth'',
          co_value = Some ''0123456789abcdef0123456789abcdef''\<rparr>,
         \<lparr>co_type = ''manageData'', co_source = Some ''GS'', co_name = Some ''web_auth_domain'', co_value = Some ''api.pay.app''\<rparr>],
      ch_timeBounds = Some \<lparr>minTime = Fin 1000, maxTime = Fin 1300\<rparr>, ch_hash = ''h''\<rparr>"

definition demo_sep10 :: sep10_config where
  "demo_sep10 =
     \<lparr>sc_server = ''GS'', sc_passphrase = ''test'', sc_homeDomain = ''pay.app'', sc_webAuthDomain = ''api.pay.app'', sc_validity = 300,
      sc_isTest = False\<rparr>"

definition demo_web :: web_auth where
  "demo_web =
     \<lparr>wa_transaction = (\<lambda>x _. if x = ''signed'' then Some demo_challenge else None),
      wa_verifyTxSignedBy = (\<lambda>x p k. x = ''signed'' \<and> p = ''test'' \<and> k = ''GS''),
      wa_readChallengeTx = (\<lambda>_ x. if x = ''signed'' then Some (demo_challenge, ''GA'') else None),
      wa_verifySigners = (\<lambda>_ x ks. x = ''signed'' \<and> ks = [''GA'']), wa_verifyThreshold = (\<lambda>_ _ _ _. False),
      wa_validKey = (\<lambda>k. hd k = CHR ''G''), wa_utf8 = id, wa_digest = id, wa_networks = [''test'', ''public'']\<rparr>"

definition unfunded :: "string \<Rightarrow> client_account option" where
  "unfunded _ = Some \<lparr>cl_exists = False, cl_med = 0, cl_signers = []\<rparr>"

definition demo_redemption :: redemption where
  "demo_redemption = \<lparr>rd_fingerprint = ''h'', rd_account = ''GA'', rd_hash = ''h'', rd_expiresAt = 1331000\<rparr>"

lemma demo_checks:
  "check_challenge demo_web demo_sep10 unfunded ''signed'' 1000000 = Inr demo_redemption"
  "check_challenge demo_web demo_sep10 unfunded ''signed'' 1329000 = Inr demo_redemption"
  by (code_simp, code_simp)

theorem accepted_challenge_sound_witness:
  "check_challenge demo_web demo_sep10 unfunded ''signed'' 1000000 = Inr demo_redemption
   \<and> (\<exists>tx. wa_readChallengeTx demo_web demo_sep10 ''signed'' = Some (tx, ''GA'') \<and> issued_shape demo_web demo_sep10 tx ''GA'')"
  using accepted_challenge_sound [OF demo_checks(1)] demo_checks(1) by (auto simp: demo_redemption_def)

theorem forged_challenge_opaque_witness:
  "check_challenge demo_web demo_sep10 unfunded ''forged'' 1000000 = Inl (AppError 401 ''INVALID_CHALLENGE'')"
proof -
  have "\<not> wa_verifyTxSignedBy demo_web ''forged'' (sc_passphrase demo_sep10) (sc_server demo_sep10)" by code_simp
  from forged_challenge_opaque [OF this, of unfunded 1000000] show ?thesis by (simp add: demo_web_def)
qed

definition demo_start :: "int \<Rightarrow> auth_world" where
  "demo_start t = \<lparr>aw_clock = t, aw_store = \<lparr>st_rows = [], st_inProcess = []\<rparr>, aw_checked = [], aw_sessions = []\<rparr>"

lemma demo_law: "fingerprint_law demo_web demo_sep10"
  by (auto simp: fingerprint_law_def demo_web_def split: if_splits)

definition demo_session :: "int \<Rightarrow> auth_world" where
  "demo_session t =
     \<lparr>aw_clock = t, aw_store = \<lparr>st_rows = [(''h'', 1331000)], st_inProcess = []\<rparr>, aw_checked = [], aw_sessions = [demo_redemption]\<rparr>"

lemma demo_consume:
  "consumeChallenge demo_sep10 Answers Absent False t demo_redemption \<lparr>st_rows = [], st_inProcess = []\<rparr>
     = (Inr True, \<lparr>st_rows = [(''h'', 1331000)], st_inProcess = []\<rparr>)"
  by (simp add: consumeChallenge_def insert_row_def demo_redemption_def)

lemma demo_first:
  assumes "t = 1000000 \<or> t = 1329000"
  shows "auth_step prompt demo_web demo_sep10 (demo_start t) (demo_start t\<lparr>aw_checked := [demo_redemption]\<rparr>)"
    and "auth_step prompt demo_web demo_sep10 (demo_start t\<lparr>aw_checked := [demo_redemption]\<rparr>) (demo_session t)"
proof -
  have "check_challenge demo_web demo_sep10 unfunded ''signed'' (aw_clock (demo_start t)) = Inr demo_redemption"
    using assms demo_checks by (auto simp: demo_start_def)
  from auth_step.check [OF this, of prompt]
  show "auth_step prompt demo_web demo_sep10 (demo_start t) (demo_start t\<lparr>aw_checked := [demo_redemption]\<rparr>)"
    by (simp add: demo_start_def)
next
  let ?w = "demo_start t\<lparr>aw_checked := [demo_redemption]\<rparr>"
  have "consumeChallenge demo_sep10 Answers Absent False (aw_clock ?w) demo_redemption (aw_store ?w)
      = (Inr True, \<lparr>st_rows = [(''h'', 1331000)], st_inProcess = []\<rparr>)"
    by (simp add: demo_start_def demo_consume)
  from auth_step.consume [OF _ _ this, of prompt demo_web] assms
  show "auth_step prompt demo_web demo_sep10 ?w (demo_session t)"
    by (auto simp: demo_start_def demo_session_def demo_redemption_def)
qed

theorem challenge_single_use_witness:
  "auth_reachable True demo_web demo_sep10 (demo_session 1000000) \<and> distinct (map rd_fingerprint (aw_sessions (demo_session 1000000)))"
proof -
  have "(auth_step True demo_web demo_sep10)\<^sup>*\<^sup>* (demo_start 1000000) (demo_session 1000000)"
    using demo_first [of 1000000 True] by (meson converse_rtranclp_into_rtranclp r_into_rtranclp)
  then have reach: "auth_reachable True demo_web demo_sep10 (demo_session 1000000)"
    by (auto simp: auth_reachable_def demo_start_def)
  have "\<not> sc_isTest demo_sep10" by (simp add: demo_sep10_def)
  from challenge_single_use [OF reach demo_law this] reach show ?thesis by blast
qed

text \<open>The promptness is needed, and nothing enforces it: the account lookup between check and redemption may outlast the
  one second by which the record survives the window. A challenge is redeemed in its last second; another call,
  checked in the same second, waits for Horizon; the clean-up removes the expired record; the waiting call redeems
  the challenge again and a second session is opened.\<close>

theorem challenge_replayed_after_cleanup:
  "\<exists>w. auth_reachable False demo_web demo_sep10 w \<and> aw_sessions w = [demo_redemption, demo_redemption]"
proof -
  let ?step = "auth_step False demo_web demo_sep10"
  let ?w0 = "demo_start 1329000\<lparr>aw_checked := [demo_redemption]\<rparr>"
  let ?w1 = "?w0\<lparr>aw_checked := [demo_redemption, demo_redemption]\<rparr>"
  let ?w2 = "demo_session 1329000\<lparr>aw_checked := [demo_redemption]\<rparr>"
  let ?w3 = "?w2\<lparr>aw_clock := 1331001\<rparr>"
  let ?w4 = "?w3\<lparr>aw_store := \<lparr>st_rows = [], st_inProcess = []\<rparr>\<rparr>"
  let ?w5 = "demo_session 1331001\<lparr>aw_sessions := [demo_redemption, demo_redemption]\<rparr>"
  have s0: "?step (demo_start 1329000) ?w0" by (rule demo_first) simp
  have "check_challenge demo_web demo_sep10 unfunded ''signed'' (aw_clock ?w0) = Inr demo_redemption"
    using demo_checks(2) by (simp add: demo_start_def)
  from auth_step.check [OF this, of False] have s1: "?step ?w0 ?w1" by simp
  have "consumeChallenge demo_sep10 Answers Absent False (aw_clock ?w1) demo_redemption (aw_store ?w1)
      = (Inr True, \<lparr>st_rows = [(''h'', 1331000)], st_inProcess = []\<rparr>)" by (simp add: demo_start_def demo_consume)
  from auth_step.consume [OF _ _ this, of False demo_web] have s2: "?step ?w1 ?w2" by (simp add: demo_start_def demo_session_def)
  have s3: "?step ?w2 ?w3" by (rule auth_step.time) (simp add: demo_session_def)
  have s4: "?step ?w3 ?w4"
    using auth_step.cleanup [of False demo_web demo_sep10 ?w3 True]
    by (simp add: demo_session_def cleanupExpiredChallenges_def)
  have "consumeChallenge demo_sep10 Answers Absent False (aw_clock ?w4) demo_redemption (aw_store ?w4)
      = (Inr True, \<lparr>st_rows = [(''h'', 1331000)], st_inProcess = []\<rparr>)" by (simp add: demo_consume)
  from auth_step.consume [OF _ _ this, of False demo_web] have s5: "?step ?w4 ?w5" by (simp add: demo_session_def)
  from s0 s1 s2 s3 s4 s5 have "?step\<^sup>*\<^sup>* (demo_start 1329000) ?w5" by (meson converse_rtranclp_into_rtranclp rtranclp.rtrancl_refl)
  then have "auth_reachable False demo_web demo_sep10 ?w5" by (auto simp: auth_reachable_def demo_start_def)
  then show ?thesis by (intro exI [of _ ?w5]) simp
qed

end
