(* ===== verification/Base64.thy ===== *)
theory Base64
  imports Mergepay_Prelude
begin

text \<open>
  Node's \<^verbatim>\<open>Buffer\<close> codecs \<^verbatim>\<open>base64\<close> and \<^verbatim>\<open>base64url\<close>, which the memo check and the pagination cursor use. A buffer is a
  string of bytes. Decoding accepts both alphabets and skips every other character, padding included.
\<close>

section \<open>Sextets\<close>

fun sextets :: "nat list \<Rightarrow> nat list" where
  "sextets [] = []"
| "sextets [a] = [a div 4, a mod 4 * 16]"
| "sextets [a, b] = [a div 4, a mod 4 * 16 + b div 16, b mod 16 * 4]"
| "sextets (a # b # c # rest) = [a div 4, a mod 4 * 16 + b div 16, b mod 16 * 4 + c div 64, c mod 64] @ sextets rest"

fun octets :: "nat list \<Rightarrow> nat list" where
  "octets [] = []"
| "octets [x] = []"
| "octets [x, y] = [x * 4 + y div 16]"
| "octets [x, y, z] = [x * 4 + y div 16, y mod 16 * 16 + z div 4]"
| "octets (x # y # z # w # rest) = [x * 4 + y div 16, y mod 16 * 16 + z div 4, z mod 4 * 64 + w] @ octets rest"

lemma pack:
  fixes q r m :: nat
  assumes "r < m"
  shows "(q * m + r) div m = q" "(q * m + r) mod m = r"
  using assms by simp_all

lemma octets_sextets:
  assumes "\<forall>b \<in> set bs. b < 256"
  shows "octets (sextets bs) = bs"
  using assms
proof (induction bs rule: sextets.induct)
  case (2 a)
  then show ?case by simp
next
  case (3 a b)
  then have "b div 16 < 16" by (simp add: less_mult_imp_div_less)
  then show ?case by (simp add: pack)
next
  case (4 a b c rest)
  then have "b div 16 < 16" "c div 64 < 4" by (simp_all add: less_mult_imp_div_less)
  with 4 show ?case by (simp add: pack)
qed simp

lemma sextets_bound: "\<forall>b \<in> set bs. b < 256 \<Longrightarrow> \<forall>s \<in> set (sextets bs). s < 64"
  by (induction bs rule: sextets.induct) (auto simp: less_mult_imp_div_less)

section \<open>Characters\<close>

definition alphanumerics :: string where
  "alphanumerics = ''ABCDEFGHIJKLMNOPQRSTUVWXYZabcdefghijklmnopqrstuvwxyz0123456789''"

definition base64_alphabet :: string where "base64_alphabet = alphanumerics @ ''+/''"
definition base64url_alphabet :: string where "base64url_alphabet = alphanumerics @ ''-_''"

fun position :: "'a \<Rightarrow> 'a list \<Rightarrow> nat option" where
  "position x [] = None"
| "position x (y # ys) = (if x = y then Some 0 else map_option Suc (position x ys))"

definition sextet_of :: "char \<Rightarrow> nat option" where
  "sextet_of ch = (case position ch base64_alphabet of Some i \<Rightarrow> Some i | None \<Rightarrow> position ch base64url_alphabet)"

definition bytes :: "string \<Rightarrow> nat list" where "bytes s = map of_char s"
definition of_bytes :: "nat list \<Rightarrow> string" where "of_bytes ns = map char_of ns"

text \<open>\<^verbatim>\<open>buffer.toString("base64url")\<close>, \<^verbatim>\<open>buffer.toString("base64")\<close> and \<^verbatim>\<open>Buffer.from(text, ...)\<close>.\<close>

definition to_base64url :: "string \<Rightarrow> string" where
  "to_base64url buffer = map ((!) base64url_alphabet) (sextets (bytes buffer))"

definition to_base64 :: "string \<Rightarrow> string" where
  "to_base64 buffer =
     (let body = map ((!) base64_alphabet) (sextets (bytes buffer)) in
      body @ replicate ((4 - length body mod 4) mod 4) (CHR ''=''))"

definition from_base64 :: "string \<Rightarrow> string" where
  "from_base64 text = of_bytes (octets (List.map_filter sextet_of text))"

lemma of_bytes_bytes [simp]: "of_bytes (bytes s) = s"
  by (simp add: of_bytes_def bytes_def comp_def)

lemma bytes_bound: "\<forall>b \<in> set (bytes s). b < 256"
proof -
  have "of_char c < (256 :: nat)" for c by (cases c) simp
  then show ?thesis by (simp add: bytes_def)
qed

lemma position_nth: "distinct ys \<Longrightarrow> i < length ys \<Longrightarrow> position (ys ! i) ys = Some i"
  by (induction ys arbitrary: i) (auto simp: nth_Cons split: nat.splits)

lemma alphabet_facts:
  "length alphanumerics = 62" "distinct base64_alphabet"
  "sextet_of (CHR ''-'') = Some 62" "sextet_of (CHR ''_'') = Some 63"
  by (code_simp, code_simp, code_simp, code_simp)

lemma alphabet_sextet:
  assumes "s < 64"
  shows "sextet_of (base64_alphabet ! s) = Some s" "sextet_of (base64url_alphabet ! s) = Some s"
proof -
  have n: "length base64_alphabet = 64" using alphabet_facts(1) by (simp add: base64_alphabet_def)
  show std: "sextet_of (base64_alphabet ! s) = Some s"
    using assms n by (simp add: sextet_of_def position_nth [OF alphabet_facts(2)])
  consider "s < 62" | "s = 62" | "s = 63" using assms by linarith
  then show "sextet_of (base64url_alphabet ! s) = Some s"
  proof cases
    case 1
    then have "base64url_alphabet ! s = base64_alphabet ! s"
      by (simp add: base64url_alphabet_def base64_alphabet_def nth_append alphabet_facts(1))
    with std show ?thesis by simp
  qed (simp_all add: base64url_alphabet_def nth_append alphabet_facts)
qed

lemma map_filter_alphabet:
  "\<forall>s \<in> set ss. s < 64 \<Longrightarrow> List.map_filter sextet_of (map ((!) base64_alphabet) ss) = ss"
  "\<forall>s \<in> set ss. s < 64 \<Longrightarrow> List.map_filter sextet_of (map ((!) base64url_alphabet) ss) = ss"
  by (induction ss) (simp_all add: map_filter_simps alphabet_sextet)

theorem base64url_roundtrip: "from_base64 (to_base64url buffer) = buffer"
  unfolding from_base64_def to_base64url_def
  by (subst map_filter_alphabet(2) [OF sextets_bound [OF bytes_bound]]) (simp add: octets_sextets [OF bytes_bound])

lemma map_filter_append: "List.map_filter f (xs @ ys) = List.map_filter f xs @ List.map_filter f ys"
  by (simp add: List.map_filter_def)

theorem base64_roundtrip: "from_base64 (to_base64 buffer) = buffer"
proof -
  have "sextet_of (CHR ''='') = None" by code_simp
  then have "List.map_filter sextet_of (replicate n (CHR ''='')) = []" for n
    by (induction n) (simp_all add: map_filter_simps)
  then show ?thesis
    unfolding from_base64_def to_base64_def Let_def map_filter_append
    by (subst map_filter_alphabet(1) [OF sextets_bound [OF bytes_bound]]) (simp add: octets_sextets [OF bytes_bound])
qed

end
