(* ===== verification/Payment_Memo.thy ===== *)
theory Payment_Memo
  imports Base64 Stellar_Payment
begin

text \<open>
  Payment references: \<^verbatim>\<open>src/src/lib/memo.ts\<close>, \<^verbatim>\<open>src/src/services/memo.ts\<close> and the alphabet of
  \<^verbatim>\<open>src/src/services/codes.ts\<close>. A settlement's payment carries the memo \<^verbatim>\<open>MP:<code>\<close>; verification parses what landed on
  the ledger. Strings are Latin-1 here, so a character takes one UTF-8 byte or two.

  The lemmas characterize the accepted memos and connect the builder of envelopes with the verifier.
\<close>

section \<open>Codes and memos\<close>

definition ALPHABET :: string where
  "ALPHABET = ''ABCDEFGHJKLMNPQRSTUVWXYZ23456789''"

definition MP_PREFIX :: string where "MP_PREFIX = ''MP:''"
definition MAX_MEMO_BYTES :: nat where "MAX_MEMO_BYTES = 28"
definition MIN_MEMO_LENGTH :: nat where "MIN_MEMO_LENGTH = length MP_PREFIX + 1"
definition MEMO_HASH_BYTES :: nat where "MEMO_HASH_BYTES = 32"

definition utf8_length :: "string \<Rightarrow> nat" where
  "utf8_length s = sum_list (map (\<lambda>ch. if of_char ch < (128 :: nat) then 1 else 2) s)"

definition isValidMemoCode :: "string \<Rightarrow> bool" where
  "isValidMemoCode code = (code \<noteq> [] \<and> list_all (\<lambda>ch. ch \<in> set ALPHABET) code)"

datatype memo_error = Memo_empty | Memo_short | Memo_prefix | Memo_long | Memo_no_code | Memo_characters

definition parseMemo :: "string \<Rightarrow> memo_error + string" where
  "parseMemo raw =
     (if raw = [] then Inl Memo_empty
      else if length raw < MIN_MEMO_LENGTH then Inl Memo_short
      else if \<not> prefix MP_PREFIX raw then Inl Memo_prefix
      else if utf8_length raw > MAX_MEMO_BYTES then Inl Memo_long
      else
        let code = drop (length MP_PREFIX) raw in
        if code = [] then Inl Memo_no_code
        else if \<not> isValidMemoCode code then Inl Memo_characters
        else Inr code)"

definition validateExpenseMemo :: "string \<Rightarrow> bool" where
  "validateExpenseMemo memo = (case parseMemo memo of Inr _ \<Rightarrow> True | Inl _ \<Rightarrow> False)"

definition parseExpenseCode :: "string \<Rightarrow> string option" where
  "parseExpenseCode memo = (case parseMemo memo of Inr code \<Rightarrow> Some code | Inl _ \<Rightarrow> None)"

definition buildMemo :: "string \<Rightarrow> memo_error + string" where
  "buildMemo code =
     (if code = [] then Inl Memo_no_code
      else if \<not> isValidMemoCode code then Inl Memo_characters
      else
        let memo = MP_PREFIX @ code in
        if utf8_length memo > MAX_MEMO_BYTES then Inl Memo_long else Inr memo)"

definition buildMemoOrThrow :: "string \<Rightarrow> string res" where
  "buildMemoOrThrow code = (case buildMemo code of Inl _ \<Rightarrow> Inl (PlainError ''memo'') | Inr memo \<Rightarrow> Inr memo)"

definition generateMemo :: "string option \<Rightarrow> string \<Rightarrow> string res" where
  "generateMemo code shortCode = buildMemoOrThrow (case code of Some c \<Rightarrow> c | None \<Rightarrow> shortCode)"

section \<open>Memos on the ledger\<close>

datatype memo_failure =
  Missing_memo | Unsupported_memo_type | Invalid_hash_memo | Hash_memo_mismatch | Malformed_memo | Code_mismatch

definition base64_text :: "string \<Rightarrow> bool" where
  "base64_text value =
     (let body = takeWhile (\<lambda>ch. ch \<noteq> CHR ''='') value; pad = dropWhile (\<lambda>ch. ch \<noteq> CHR ''='') value in
      length value mod 4 = 0 \<and> list_all (\<lambda>ch. ch \<in> set base64_alphabet) body
      \<and> (pad = [] \<or> pad = ''='' \<or> pad = ''==''))"

definition isValidHashMemo :: "string \<Rightarrow> bool" where
  "isValidHashMemo value =
     (base64_text value \<and> length (from_base64 value) = MEMO_HASH_BYTES \<and> to_base64 (from_base64 value) = value)"

record on_chain_memo =
  om_memoType :: "string option"
  om_memo :: "string option"

definition validatePaymentMemo :: "on_chain_memo \<Rightarrow> string \<Rightarrow> memo_failure + (string \<times> string)" where
  "validatePaymentMemo onChain expectedCode =
     (let memoType = (case om_memoType onChain of Some t \<Rightarrow> t | None \<Rightarrow> ''none'');
          memo = (case om_memo onChain of Some m \<Rightarrow> m | None \<Rightarrow> [])
      in
      if memoType = ''none'' then Inl Missing_memo
      else if memoType = ''hash'' then (if isValidHashMemo memo then Inl Hash_memo_mismatch else Inl Invalid_hash_memo)
      else if memoType \<noteq> ''text'' then Inl Unsupported_memo_type
      else if memo = [] then Inl Missing_memo
      else (case parseMemo memo of
              Inl _ \<Rightarrow> Inl Malformed_memo
            | Inr code \<Rightarrow> if code \<noteq> expectedCode then Inl Code_mismatch else Inr (code, memo)))"

section \<open>Resolution to an expense\<close>

datatype memo_expense_failure = Invalid_memo | Expense_code_mismatch | Expense_not_found | Expense_settled

text \<open>Expenses are (id, memo) pairs, shares (expense id, status) pairs.\<close>

definition validateMemoAgainstActiveExpense ::
  "(string \<times> string) list \<Rightarrow> (string \<times> string) list \<Rightarrow> string \<Rightarrow> string option \<Rightarrow> string option
    \<Rightarrow> memo_expense_failure + (string \<times> string)" where
  "validateMemoAgainstActiveExpense expenses shares memo expectedCode expenseId =
     (case parseMemo memo of
        Inl _ \<Rightarrow> Inl Invalid_memo
      | Inr code \<Rightarrow>
          if (case expectedCode of Some c \<Rightarrow> code \<noteq> c | None \<Rightarrow> False) then Inl Expense_code_mismatch
          else (case List.find (\<lambda>(i, m). if truthy expenseId then Some i = expenseId else m = code) expenses of
                  None \<Rightarrow> Inl Expense_not_found
                | Some (i, _) \<Rightarrow>
                    if filter (\<lambda>(e, status). e = i \<and> status \<noteq> ''settled'') shares = [] then Inl Expense_settled
                    else Inr (code, i)))"

section \<open>Properties\<close>

lemma alphabet_ascii: "ch \<in> set ALPHABET \<Longrightarrow> of_char ch < (128 :: nat)"
proof -
  have "list_all (\<lambda>ch. of_char ch < (128 :: nat)) ALPHABET" by code_simp
  then show "ch \<in> set ALPHABET \<Longrightarrow> of_char ch < (128 :: nat)" by (simp add: list_all_iff)
qed

lemma utf8_length_ascii: "\<forall>ch \<in> set s. of_char ch < (128 :: nat) \<Longrightarrow> utf8_length s = length s"
  by (induction s) (simp_all add: utf8_length_def)

lemma utf8_length_memo:
  assumes "isValidMemoCode code"
  shows "utf8_length (MP_PREFIX @ code) = 3 + length code"
proof -
  have "\<forall>ch \<in> set (MP_PREFIX @ code). of_char ch < (128 :: nat)"
    using assms alphabet_ascii by (auto simp: MP_PREFIX_def isValidMemoCode_def list_all_iff)
  from utf8_length_ascii [OF this] show ?thesis by (simp add: MP_PREFIX_def)
qed

lemma parseMemo_Inr: "parseMemo raw = Inr code \<longleftrightarrow> raw = MP_PREFIX @ code \<and> isValidMemoCode code \<and> length code \<le> 25"
proof
  assume "parseMemo raw = Inr code"
  then have raw: "prefix MP_PREFIX raw" "code = drop (length MP_PREFIX) raw" "isValidMemoCode code" "utf8_length raw \<le> 28"
    by (auto simp: parseMemo_def Let_def MAX_MEMO_BYTES_def not_less split: if_splits)
  have eq: "raw = MP_PREFIX @ code" using raw(1,2) by (auto simp: prefix_def)
  have "length code \<le> 25" using raw(4) utf8_length_memo [OF raw(3)] unfolding eq by simp
  then show "raw = MP_PREFIX @ code \<and> isValidMemoCode code \<and> length code \<le> 25" using eq raw(3) by blast
next
  assume R: "raw = MP_PREFIX @ code \<and> isValidMemoCode code \<and> length code \<le> 25"
  then have "code \<noteq> []" "utf8_length raw \<le> 28" by (auto simp: isValidMemoCode_def utf8_length_memo)
  moreover have "length MP_PREFIX = 3" "MP_PREFIX \<noteq> []" by (simp_all add: MP_PREFIX_def)
  moreover have "\<not> length raw < MIN_MEMO_LENGTH" "raw \<noteq> []"
    using R calculation by (auto simp: MIN_MEMO_LENGTH_def Suc_le_eq)
  ultimately show "parseMemo raw = Inr code"
    using R by (simp add: parseMemo_def Let_def MAX_MEMO_BYTES_def)
qed

lemma buildMemo_Inr: "buildMemo code = Inr memo \<longleftrightarrow> parseMemo memo = Inr code"
  unfolding parseMemo_Inr
  by (auto simp: buildMemo_def Let_def MAX_MEMO_BYTES_def utf8_length_memo isValidMemoCode_def [of "[]"] split: if_splits)

text \<open>A payment is attributed by its memo exactly: validation accepts a ledger memo for a reference if and only if it is a text
  memo that reads \<^verbatim>\<open>MP:\<close> and the reference, which is a non-empty code over the alphabet of at most 25 characters.
  These are the memos that \<open>buildMemo\<close> produces and that a payment built for the reference carries.\<close>

theorem payment_memo_exact:
  "(validatePaymentMemo \<lparr>om_memoType = t, om_memo = m\<rparr> expected = Inr (code, memo)) \<longleftrightarrow>
     (t = Some ''text'' \<and> m = Some memo \<and> code = expected \<and> isValidMemoCode expected \<and> length expected \<le> 25
      \<and> memo = memoText expected \<and> buildMemo expected = Inr memo)"
proof -
  have mt: "memoText expected = MP_PREFIX @ expected" if "length expected \<le> 25"
    using that by (simp add: memoText_def MP_PREFIX_def Let_def)
  have "parseMemo [] \<noteq> Inr expected" by (simp add: parseMemo_def)
  then have "(validatePaymentMemo \<lparr>om_memoType = t, om_memo = m\<rparr> expected = Inr (code, memo)) \<longleftrightarrow>
      (t = Some ''text'' \<and> m = Some memo \<and> code = expected \<and> parseMemo memo = Inr expected)"
    by (auto simp: validatePaymentMemo_def Let_def split: option.splits if_splits sum.splits)
  then show ?thesis unfolding buildMemo_Inr parseMemo_Inr using mt by auto
qed

end
