(* ===== verification/Spec2Isabelle.thy ===== *)
theory Spec2Isabelle
  imports Expense_Calculation Anchor_Status Failure_Classification Refresh_Token Idempotency Treasury_Signatures Sep10_Auth Payment_Memo
begin

text \<open>
  A verification development for the Mergepay API.
\<close>

end
